(* ===== verification/Forge_Prelude.thy ===== *)
theory Forge_Prelude
  imports Main "HOL-Library.Word"
begin

unbundle bit_operations_syntax

text \<open>
  Shared vocabulary of the development: machine integer types, the errno values the driver
  returns, kernel pointers that may carry an error code, the kernel's intrusive lists seen as
  sequences of slot numbers, little-endian byte encodings, C strings in fixed arrays, and the
  generic lemmas on lists and words that the component theories rely on.

  Two collections carry the component proofs: \<open>forge_defs\<close> (definitions of small operations
  that proofs always unfold) and \<open>forge_wf\<close> (preservation facts).
\<close>

named_theorems forge_defs \<open>small operations that component proofs unfold\<close>
named_theorems forge_wf \<open>well-formedness preservation\<close>

section \<open>Machine integers\<close>

type_synonym u8 = "8 word"
type_synonym u32 = "32 word"
type_synonym s32 = "32 word"
type_synonym u64 = "64 word"

section \<open>Error numbers\<close>

text \<open>
  The errno constants the sources name, with their Linux values. Kernel functions return
  \<open>0\<close> or a negative errno as a C \<open>int\<close>; \<open>neg_errno\<close> is \<open>-EINVAL\<close> and its kin.
\<close>

datatype errno = ENOENT | E2BIG | ENOMEM | EFAULT | EBUSY | EINVAL | ENOTTY | ETIMEDOUT | ECANCELED

fun errno_code :: "errno \<Rightarrow> int" where
  "errno_code ENOENT = 2"
| "errno_code E2BIG = 7"
| "errno_code ENOMEM = 12"
| "errno_code EFAULT = 14"
| "errno_code EBUSY = 16"
| "errno_code EINVAL = 22"
| "errno_code ENOTTY = 25"
| "errno_code ETIMEDOUT = 110"
| "errno_code ECANCELED = 125"

definition neg_errno :: "errno \<Rightarrow> int" where
  "neg_errno e = - errno_code e"

lemma errno_code_pos [simp]: "0 < errno_code e"
  by (cases e) simp_all

lemma neg_errno_neg [simp]: "neg_errno e < 0"
  by (simp add: neg_errno_def)

lemma neg_errno_nonzero [simp]: "neg_errno e \<noteq> 0" "0 \<noteq> neg_errno e"
  using neg_errno_neg [of e] by linarith+

lemma errno_code_inject [simp]: "errno_code e = errno_code f \<longleftrightarrow> e = f"
  by (cases e; cases f) simp_all

lemma neg_errno_inject [simp]: "neg_errno e = neg_errno f \<longleftrightarrow> e = f"
  by (simp add: neg_errno_def)

section \<open>Kernel pointers\<close>

text \<open>
  A pointer returned by the kernel is \<open>NULL\<close>, an encoded error (\<open>ERR_PTR\<close>), or the address
  of an object, here a number that identifies it.
\<close>

datatype kptr = NULL | ERR_PTR int | PTR nat

fun IS_ERR :: "kptr \<Rightarrow> bool" where
  "IS_ERR (ERR_PTR e) = True"
| "IS_ERR NULL = False"
| "IS_ERR (PTR n) = False"

fun PTR_ERR :: "kptr \<Rightarrow> int" where
  "PTR_ERR (ERR_PTR e) = e"
| "PTR_ERR NULL = 0"
| "PTR_ERR (PTR n) = int n"

fun_cases IS_ERR_TrueE: "IS_ERR p"

lemma IS_ERR_iff: "IS_ERR p \<longleftrightarrow> (\<exists>e. p = ERR_PTR e)"
  by (cases p) simp_all

section \<open>Kernel lists\<close>

text \<open>
  A \<open>struct list_head\<close> list is the sequence of the entries linked on it, each entry named by
  the index of its task slot. These four operations are the ones the driver uses.
\<close>

definition list_add_tail :: "nat \<Rightarrow> nat list \<Rightarrow> nat list" where
  "list_add_tail e l = l @ [e]"

definition list_del :: "nat \<Rightarrow> nat list \<Rightarrow> nat list" where
  "list_del e l = remove1 e l"

definition list_empty :: "nat list \<Rightarrow> bool" where
  "list_empty l \<longleftrightarrow> l = []"

definition list_first_entry :: "nat list \<Rightarrow> nat option" where
  "list_first_entry l = (case l of [] \<Rightarrow> None | e # _ \<Rightarrow> Some e)"

lemmas list_defs [forge_defs] =
  list_add_tail_def list_del_def list_empty_def list_first_entry_def

text \<open>
  The contract of such a list for its clients: a FIFO whose entries are unique. The client
  lemma is what the pool and the work queues need: what enters last leaves last.
\<close>

locale fifo_list =
  fixes add :: "nat \<Rightarrow> 'q \<Rightarrow> 'q"
    and del :: "nat \<Rightarrow> 'q \<Rightarrow> 'q"
    and is_empty :: "'q \<Rightarrow> bool"
    and first :: "'q \<Rightarrow> nat option"
    and entries :: "'q \<Rightarrow> nat list"
  assumes entries_add: "entries (add e q) = entries q @ [e]"
    and entries_del_first: "first q = Some e \<Longrightarrow> entries (del e q) = tl (entries q)"
    and empty_iff: "is_empty q \<longleftrightarrow> entries q = []"
    and first_eq: "first q = (if entries q = [] then None else Some (hd (entries q)))"
begin

lemma first_iff_nonempty: "(\<exists>e. first q = Some e) \<longleftrightarrow> \<not> is_empty q"
  by (simp add: first_eq empty_iff)

lemma pop_entries:
  assumes "first q = Some e"
  shows "entries q = e # entries (del e q)"
proof -
  from assms have "entries q \<noteq> []" and "hd (entries q) = e"
    by (auto simp: first_eq split: if_splits)
  then have "entries q = e # tl (entries q)"
    by (metis hd_Cons_tl)
  then show ?thesis
    by (simp add: entries_del_first [OF assms])
qed

lemma add_pop_order:
  assumes "first q = Some e"
  shows "first (add x q) = Some e" and "entries (del e (add x q)) = entries (del e q) @ [x]"
proof -
  from assms show f: "first (add x q) = Some e"
    by (auto simp: first_eq entries_add split: if_splits)
  have "entries (add x q) = e # entries (del e (add x q))"
    by (rule pop_entries [OF f])
  with pop_entries [OF assms] show "entries (del e (add x q)) = entries (del e q) @ [x]"
    by (simp add: entries_add)
qed

end

interpretation klist: fifo_list list_add_tail list_del list_empty list_first_entry "\<lambda>l. l"
  by unfold_locales (auto simp: list_defs split: list.splits)

lemma set_list_add_tail [simp]: "set (list_add_tail e l) = insert e (set l)"
  by (simp add: list_add_tail_def)

lemma distinct_list_add_tail [simp]:
  "distinct (list_add_tail e l) \<longleftrightarrow> distinct l \<and> e \<notin> set l"
  by (auto simp: list_add_tail_def)

lemma length_list_add_tail [simp]: "length (list_add_tail e l) = Suc (length l)"
  by (simp add: list_add_tail_def)

lemma distinct_list_del [simp]: "distinct l \<Longrightarrow> distinct (list_del e l)"
  by (simp add: list_del_def)

lemma set_list_del [simp]: "distinct l \<Longrightarrow> set (list_del e l) = set l - {e}"
  by (simp add: list_del_def)

lemma length_list_del: "e \<in> set l \<Longrightarrow> Suc (length (list_del e l)) = length l"
  unfolding list_del_def length_remove1 using length_pos_if_in_set [of e l] by simp

lemma list_first_entry_mem: "list_first_entry l = Some e \<Longrightarrow> e \<in> set l"
  by (auto simp: list_first_entry_def split: list.splits)

lemma list_first_entry_None [simp]: "list_first_entry l = None \<longleftrightarrow> l = []"
  by (auto simp: list_first_entry_def split: list.splits)

section \<open>C strings in fixed arrays\<close>

definition strncpy :: "char list \<Rightarrow> string \<Rightarrow> nat \<Rightarrow> char list" where
  "strncpy dst src n = take n (src @ replicate n (CHR 0x00)) @ drop n dst"

definition cstr :: "char list \<Rightarrow> string" where
  "cstr buf = takeWhile (\<lambda>c. c \<noteq> CHR 0x00) buf"

lemma length_strncpy [simp]: "n \<le> length dst \<Longrightarrow> length (strncpy dst src n) = length dst"
  by (simp add: strncpy_def)

lemma cstr_strncpy:
  assumes "CHR 0x00 \<notin> set src" and "n < length dst" and "dst ! n = CHR 0x00"
  shows "cstr (strncpy dst src n) = take n src"
proof -
  have d: "drop n dst = CHR 0x00 # drop (Suc n) dst"
    using assms(2,3) by (metis Cons_nth_drop_Suc)
  have t: "take n (src @ replicate n (CHR 0x00)) = take n src @ replicate (n - length src) (CHR 0x00)"
    by (simp add: min_def)
  have "\<forall>c \<in> set (take n src). c \<noteq> CHR 0x00"
    using assms(1) by (metis in_set_takeD)
  then show ?thesis
    by (cases "n - length src") (simp_all add: cstr_def strncpy_def t d takeWhile_append2)
qed

section \<open>Little-endian encodings\<close>

definition le_bytes :: "nat \<Rightarrow> 'a::len word \<Rightarrow> u8 list" where
  "le_bytes n w = map (\<lambda>i. ucast (drop_bit (8 * i) w)) [0..<n]"

fun le_word :: "u8 list \<Rightarrow> 'a::len word" where
  "le_word [] = 0"
| "le_word (b # bs) = ucast b OR push_bit 8 (le_word bs)"

lemma length_le_bytes [simp]: "length (le_bytes n w) = n"
  by (simp add: le_bytes_def)

lemma le_bytes_Suc: "le_bytes (Suc n) w = ucast w # le_bytes n (drop_bit 8 w)"
proof -
  have "[0..<Suc n] = 0 # map Suc [0..<n]"
    by (metis map_Suc_upt upt_conv_Cons zero_less_Suc)
  then show ?thesis
    by (simp add: le_bytes_def drop_bit_drop_bit add.commute del: upt_Suc)
qed

lemma le_word_le_bytes_take_bit:
  fixes w :: "'a::len word"
  shows "(le_word (le_bytes n w) :: 'a word) = take_bit (8 * n) w"
proof (induction n arbitrary: w)
  case 0
  then show ?case by (simp add: le_bytes_def)
next
  case (Suc n)
  show ?case
    by (rule bit_word_eqI)
      (auto simp: le_bytes_Suc Suc.IH bit_or_iff bit_push_bit_iff bit_take_bit_iff
        bit_drop_bit_eq bit_ucast_iff bit_simps)
qed

lemma le_word_le_bytes:
  fixes w :: "'a::len word"
  assumes "LENGTH('a) \<le> 8 * n"
  shows "(le_word (le_bytes n w) :: 'a word) = w"
  using assms by (simp add: le_word_le_bytes_take_bit take_bit_word_eq_self)

lemma le_bytes_le_word:
  assumes "length bs = n" and "8 * n \<le> LENGTH('a)"
  shows "le_bytes n (le_word bs :: 'a::len word) = bs"
  using assms
proof (induction bs arbitrary: n)
  case Nil
  then show ?case by (simp add: le_bytes_def)
next
  case (Cons b bs)
  let ?w = "le_word bs :: 'a word"
  from Cons.prems obtain m where n: "n = Suc m" and m: "length bs = m" "8 * m \<le> LENGTH('a)"
    by (cases n) auto
  have len: "8 \<le> LENGTH('a)"
    using Cons.prems n by simp
  have lo: "ucast (ucast b OR push_bit 8 ?w :: 'a word) = b"
    by (rule bit_word_eqI) (use len in \<open>auto simp: bit_simps\<close>)
  have hi: "take_bit (8 * m) (drop_bit 8 (ucast b OR push_bit 8 ?w :: 'a word)) = take_bit (8 * m) ?w"
    by (rule bit_word_eqI)
      (use Cons.prems n m in \<open>auto simp: bit_simps dest: bit_imp_le_length\<close>)
  have same: "le_bytes m v = le_bytes m v'"
    if "take_bit (8 * m) v = take_bit (8 * m) v'" for v v' :: "'a word"
  proof -
    have "bit v (8 * i + j) = bit v' (8 * i + j)" if "i < m" "j < 8" for i j
    proof -
      have "8 * i + j < 8 * m" using that by linarith
      then show ?thesis
        using \<open>take_bit (8 * m) v = take_bit (8 * m) v'\<close> by (metis bit_take_bit_iff)
    qed
    then show ?thesis
      by (auto simp: le_bytes_def intro!: bit_word_eqI simp: bit_simps)
  qed
  show ?case
    using same [OF hi] Cons.IH [OF m] lo by (simp add: n le_bytes_Suc)
qed

text \<open>Reading a field of \<open>n\<close> bytes at offset \<open>off\<close>.\<close>

definition le_get :: "nat \<Rightarrow> nat \<Rightarrow> u8 list \<Rightarrow> 'a::len word" where
  "le_get n off bs = le_word (take n (drop off bs))"

lemma le_bytes_le_get:
  assumes "off + n \<le> length bs" and "8 * n \<le> LENGTH('a)"
  shows "le_bytes n (le_get n off bs :: 'a::len word) = take n (drop off bs)"
  unfolding le_get_def by (rule le_bytes_le_word) (use assms in simp_all)

section \<open>Lists updated by index\<close>

lemma nth_list_update_if:
  "i < length xs \<Longrightarrow> xs[i := x] ! j = (if i = j then x else xs ! j)"
  by (simp add: nth_list_update)

lemma takeWhile_True [simp]: "takeWhile (\<lambda>x. True) xs = xs"
  by (induction xs) simp_all

end
