(* ===== verification/Uapi.thy ===== *)
theory Uapi
  imports Forge_Prelude
begin

unbundle bit_operations_syntax

text \<open>
  The driver's user interface, \<^verbatim>\<open>include/cortex_forge_uapi.h\<close>: the structures that cross the
  ioctl boundary, their layout under the LP64 C ABI, their little-endian byte images, and the
  ioctl command numbers. The locale \<open>wire_format\<close> states what a structure's encoder and
  decoder promise (sizes and both round trips); it is interpreted for every structure.
\<close>

section \<open>C structure layout\<close>

datatype ctype = CU32 | CS32 | CU64 | CPtr | CArr ctype nat

fun csize :: "ctype \<Rightarrow> nat" where
  "csize CU32 = 4"
| "csize CS32 = 4"
| "csize CU64 = 8"
| "csize CPtr = 8"
| "csize (CArr t n) = n * csize t"

fun calign :: "ctype \<Rightarrow> nat" where
  "calign (CArr t n) = calign t"
| "calign t = csize t"

type_synonym struct_decl = "(string \<times> ctype) list"

definition align_up :: "nat \<Rightarrow> nat \<Rightarrow> nat" where
  "align_up off a = (off + a - 1) div a * a"

fun field_offsets :: "nat \<Rightarrow> struct_decl \<Rightarrow> (string \<times> nat) list" where
  "field_offsets off [] = []"
| "field_offsets off ((f, t) # fs) =
     (let o' = align_up off (calign t) in (f, o') # field_offsets (o' + csize t) fs)"

fun fields_end :: "nat \<Rightarrow> struct_decl \<Rightarrow> nat" where
  "fields_end off [] = off"
| "fields_end off ((f, t) # fs) = fields_end (align_up off (calign t) + csize t) fs"

definition struct_align :: "struct_decl \<Rightarrow> nat" where
  "struct_align d = foldr (\<lambda>(f, t) a. max (calign t) a) d 1"

definition sizeof :: "struct_decl \<Rightarrow> nat" where
  "sizeof d = align_up (fields_end 0 d) (struct_align d)"

definition offsetof :: "struct_decl \<Rightarrow> string \<Rightarrow> nat" where
  "offsetof d f = (case map_of (field_offsets 0 d) f of None \<Rightarrow> 0 | Some off \<Rightarrow> off)"

definition task_desc_decl :: struct_decl where
  "task_desc_decl =
     [(''task_id'', CU32), (''accel_type'', CU32), (''priority'', CU32), (''input_size'', CU32),
      (''output_size'', CU32), (''input_addr'', CU64), (''output_addr'', CU64),
      (''timeout_ms'', CU32), (''flags'', CU32), (''reserved'', CArr CU64 4)]"

definition task_status_decl :: struct_decl where
  "task_status_decl =
     [(''task_id'', CU32), (''status'', CU32), (''exec_usec'', CU64), (''error_code'', CS32),
      (''reserved'', CArr CU32 3)]"

definition accel_info_decl :: struct_decl where
  "accel_info_decl =
     [(''accel_type'', CU32), (''freq_hz'', CU32), (''temp_celsius'', CS32),
      (''load_percent'', CU32), (''fw_version'', CU32), (''hw_version'', CU32),
      (''mem_total'', CU64), (''mem_free'', CU64), (''state'', CU32), (''reserved'', CArr CU32 3)]"

definition profile_metrics_decl :: struct_decl where
  "profile_metrics_decl =
     [(''compute_us'', CU64), (''memory_us'', CU64), (''storage_us'', CU64),
      (''network_us'', CU64), (''thermal_celsius'', CU32), (''power_mw'', CU32),
      (''reserved'', CArr CU64 4)]"

lemmas layout_defs =
  sizeof_def offsetof_def struct_align_def align_up_def
  task_desc_decl_def task_status_decl_def accel_info_decl_def profile_metrics_decl_def

lemma sizeof_decls [simp]:
  "sizeof task_desc_decl = 80" "sizeof task_status_decl = 32"
  "sizeof accel_info_decl = 56" "sizeof profile_metrics_decl = 72"
  by (simp_all add: layout_defs)

section \<open>Structures\<close>

text \<open>
  \<open>td_pad\<close> is the four bytes of padding the ABI puts before the first 64-bit member: they are
  copied in and out with the rest of the structure.
\<close>

record cortex_forge_task_desc =
  td_task_id :: u32
  td_accel_type :: u32
  td_priority :: u32
  td_input_size :: u32
  td_output_size :: u32
  td_pad :: u32
  td_input_addr :: u64
  td_output_addr :: u64
  td_timeout_ms :: u32
  td_flags :: u32
  td_reserved :: "u64 list"

record cortex_forge_task_status =
  ts_task_id :: u32
  ts_status :: u32
  ts_exec_usec :: u64
  ts_error_code :: s32
  ts_reserved :: "u32 list"

record cortex_forge_accel_info =
  ai_accel_type :: u32
  ai_freq_hz :: u32
  ai_temp_celsius :: s32
  ai_load_percent :: u32
  ai_fw_version :: u32
  ai_hw_version :: u32
  ai_mem_total :: u64
  ai_mem_free :: u64
  ai_state :: u32
  ai_reserved :: "u32 list"

record cortex_forge_profile_metrics =
  pm_compute_us :: u64
  pm_memory_us :: u64
  pm_storage_us :: u64
  pm_network_us :: u64
  pm_thermal_celsius :: u32
  pm_power_mw :: u32
  pm_reserved :: "u64 list"

section \<open>Byte images\<close>

abbreviation bytes4 :: "u32 \<Rightarrow> u8 list" where "bytes4 w \<equiv> le_bytes 4 w"
abbreviation bytes8 :: "u64 \<Rightarrow> u8 list" where "bytes8 w \<equiv> le_bytes 8 w"

definition get4s :: "nat \<Rightarrow> nat \<Rightarrow> u8 list \<Rightarrow> u32 list" where
  "get4s n off bs = map (\<lambda>i. le_get 4 (off + 4 * i) bs) [0..<n]"

definition get8s :: "nat \<Rightarrow> nat \<Rightarrow> u8 list \<Rightarrow> u64 list" where
  "get8s n off bs = map (\<lambda>i. le_get 8 (off + 8 * i) bs) [0..<n]"

definition enc_task_desc :: "cortex_forge_task_desc \<Rightarrow> u8 list" where
  "enc_task_desc d =
     bytes4 (td_task_id d) @ bytes4 (td_accel_type d) @ bytes4 (td_priority d) @
     bytes4 (td_input_size d) @ bytes4 (td_output_size d) @ bytes4 (td_pad d) @
     bytes8 (td_input_addr d) @ bytes8 (td_output_addr d) @
     bytes4 (td_timeout_ms d) @ bytes4 (td_flags d) @ concat (map bytes8 (td_reserved d))"

definition dec_task_desc :: "u8 list \<Rightarrow> cortex_forge_task_desc" where
  "dec_task_desc bs = \<lparr>
     td_task_id = le_get 4 (offsetof task_desc_decl ''task_id'') bs,
     td_accel_type = le_get 4 (offsetof task_desc_decl ''accel_type'') bs,
     td_priority = le_get 4 (offsetof task_desc_decl ''priority'') bs,
     td_input_size = le_get 4 (offsetof task_desc_decl ''input_size'') bs,
     td_output_size = le_get 4 (offsetof task_desc_decl ''output_size'') bs,
     td_pad = le_get 4 (offsetof task_desc_decl ''output_size'' + 4) bs,
     td_input_addr = le_get 8 (offsetof task_desc_decl ''input_addr'') bs,
     td_output_addr = le_get 8 (offsetof task_desc_decl ''output_addr'') bs,
     td_timeout_ms = le_get 4 (offsetof task_desc_decl ''timeout_ms'') bs,
     td_flags = le_get 4 (offsetof task_desc_decl ''flags'') bs,
     td_reserved = get8s 4 (offsetof task_desc_decl ''reserved'') bs \<rparr>"

definition enc_task_status :: "cortex_forge_task_status \<Rightarrow> u8 list" where
  "enc_task_status s =
     bytes4 (ts_task_id s) @ bytes4 (ts_status s) @ bytes8 (ts_exec_usec s) @
     bytes4 (ts_error_code s) @ concat (map bytes4 (ts_reserved s))"

definition dec_task_status :: "u8 list \<Rightarrow> cortex_forge_task_status" where
  "dec_task_status bs = \<lparr>
     ts_task_id = le_get 4 (offsetof task_status_decl ''task_id'') bs,
     ts_status = le_get 4 (offsetof task_status_decl ''status'') bs,
     ts_exec_usec = le_get 8 (offsetof task_status_decl ''exec_usec'') bs,
     ts_error_code = le_get 4 (offsetof task_status_decl ''error_code'') bs,
     ts_reserved = get4s 3 (offsetof task_status_decl ''reserved'') bs \<rparr>"

definition enc_accel_info :: "cortex_forge_accel_info \<Rightarrow> u8 list" where
  "enc_accel_info i =
     bytes4 (ai_accel_type i) @ bytes4 (ai_freq_hz i) @ bytes4 (ai_temp_celsius i) @
     bytes4 (ai_load_percent i) @ bytes4 (ai_fw_version i) @ bytes4 (ai_hw_version i) @
     bytes8 (ai_mem_total i) @ bytes8 (ai_mem_free i) @ bytes4 (ai_state i) @
     concat (map bytes4 (ai_reserved i))"

definition dec_accel_info :: "u8 list \<Rightarrow> cortex_forge_accel_info" where
  "dec_accel_info bs = \<lparr>
     ai_accel_type = le_get 4 (offsetof accel_info_decl ''accel_type'') bs,
     ai_freq_hz = le_get 4 (offsetof accel_info_decl ''freq_hz'') bs,
     ai_temp_celsius = le_get 4 (offsetof accel_info_decl ''temp_celsius'') bs,
     ai_load_percent = le_get 4 (offsetof accel_info_decl ''load_percent'') bs,
     ai_fw_version = le_get 4 (offsetof accel_info_decl ''fw_version'') bs,
     ai_hw_version = le_get 4 (offsetof accel_info_decl ''hw_version'') bs,
     ai_mem_total = le_get 8 (offsetof accel_info_decl ''mem_total'') bs,
     ai_mem_free = le_get 8 (offsetof accel_info_decl ''mem_free'') bs,
     ai_state = le_get 4 (offsetof accel_info_decl ''state'') bs,
     ai_reserved = get4s 3 (offsetof accel_info_decl ''reserved'') bs \<rparr>"

definition enc_profile_metrics :: "cortex_forge_profile_metrics \<Rightarrow> u8 list" where
  "enc_profile_metrics p =
     bytes8 (pm_compute_us p) @ bytes8 (pm_memory_us p) @ bytes8 (pm_storage_us p) @
     bytes8 (pm_network_us p) @ bytes4 (pm_thermal_celsius p) @ bytes4 (pm_power_mw p) @
     concat (map bytes8 (pm_reserved p))"

definition dec_profile_metrics :: "u8 list \<Rightarrow> cortex_forge_profile_metrics" where
  "dec_profile_metrics bs = \<lparr>
     pm_compute_us = le_get 8 (offsetof profile_metrics_decl ''compute_us'') bs,
     pm_memory_us = le_get 8 (offsetof profile_metrics_decl ''memory_us'') bs,
     pm_storage_us = le_get 8 (offsetof profile_metrics_decl ''storage_us'') bs,
     pm_network_us = le_get 8 (offsetof profile_metrics_decl ''network_us'') bs,
     pm_thermal_celsius = le_get 4 (offsetof profile_metrics_decl ''thermal_celsius'') bs,
     pm_power_mw = le_get 4 (offsetof profile_metrics_decl ''power_mw'') bs,
     pm_reserved = get8s 4 (offsetof profile_metrics_decl ''reserved'') bs \<rparr>"

section \<open>Named values\<close>

definition CORTEX_FORGE_ACCEL_DLA0 :: u32 where "CORTEX_FORGE_ACCEL_DLA0 = 0"
definition CORTEX_FORGE_ACCEL_DLA1 :: u32 where "CORTEX_FORGE_ACCEL_DLA1 = 1"
definition CORTEX_FORGE_ACCEL_PVA0 :: u32 where "CORTEX_FORGE_ACCEL_PVA0 = 2"
definition CORTEX_FORGE_ACCEL_COUNT :: u32 where "CORTEX_FORGE_ACCEL_COUNT = 3"
definition CORTEX_FORGE_ACCEL_GPU :: u32 where "CORTEX_FORGE_ACCEL_GPU = 3"
definition CORTEX_FORGE_ACCEL_AUTO :: u32 where "CORTEX_FORGE_ACCEL_AUTO = 4"

definition CORTEX_FORGE_TASK_PENDING :: u32 where "CORTEX_FORGE_TASK_PENDING = 0"
definition CORTEX_FORGE_TASK_RUNNING :: u32 where "CORTEX_FORGE_TASK_RUNNING = 1"
definition CORTEX_FORGE_TASK_COMPLETE :: u32 where "CORTEX_FORGE_TASK_COMPLETE = 2"
definition CORTEX_FORGE_TASK_FAILED :: u32 where "CORTEX_FORGE_TASK_FAILED = 3"
definition CORTEX_FORGE_TASK_CANCELLED :: u32 where "CORTEX_FORGE_TASK_CANCELLED = 4"

lemmas uapi_task_codes =
  CORTEX_FORGE_TASK_PENDING_def CORTEX_FORGE_TASK_RUNNING_def CORTEX_FORGE_TASK_COMPLETE_def
  CORTEX_FORGE_TASK_FAILED_def CORTEX_FORGE_TASK_CANCELLED_def

lemmas uapi_accel_codes =
  CORTEX_FORGE_ACCEL_DLA0_def CORTEX_FORGE_ACCEL_DLA1_def CORTEX_FORGE_ACCEL_PVA0_def
  CORTEX_FORGE_ACCEL_COUNT_def CORTEX_FORGE_ACCEL_GPU_def CORTEX_FORGE_ACCEL_AUTO_def

section \<open>Command numbers\<close>

text \<open>The generic Linux encoding: two direction bits, fourteen size bits, type, number.\<close>

definition IOC :: "u32 \<Rightarrow> u32 \<Rightarrow> u32 \<Rightarrow> nat \<Rightarrow> u32" where
  "IOC dir ty nr sz = push_bit 30 dir OR push_bit 16 (of_nat sz) OR push_bit 8 ty OR nr"

definition IOW :: "u32 \<Rightarrow> u32 \<Rightarrow> nat \<Rightarrow> u32" where "IOW ty nr sz = IOC 1 ty nr sz"
definition IOR :: "u32 \<Rightarrow> u32 \<Rightarrow> nat \<Rightarrow> u32" where "IOR ty nr sz = IOC 2 ty nr sz"
definition IOWR :: "u32 \<Rightarrow> u32 \<Rightarrow> nat \<Rightarrow> u32" where "IOWR ty nr sz = IOC 3 ty nr sz"

definition CORTEX_FORGE_MAGIC :: u32 where "CORTEX_FORGE_MAGIC = 0xCF"

definition CORTEX_FORGE_IOCTL_SUBMIT_TASK :: u32 where
  "CORTEX_FORGE_IOCTL_SUBMIT_TASK = IOWR CORTEX_FORGE_MAGIC 1 (sizeof task_desc_decl)"
definition CORTEX_FORGE_IOCTL_QUERY_TASK :: u32 where
  "CORTEX_FORGE_IOCTL_QUERY_TASK = IOWR CORTEX_FORGE_MAGIC 2 (sizeof task_status_decl)"
definition CORTEX_FORGE_IOCTL_CANCEL_TASK :: u32 where
  "CORTEX_FORGE_IOCTL_CANCEL_TASK = IOW CORTEX_FORGE_MAGIC 3 4"
definition CORTEX_FORGE_IOCTL_GET_ACCEL_INFO :: u32 where
  "CORTEX_FORGE_IOCTL_GET_ACCEL_INFO = IOR CORTEX_FORGE_MAGIC 4 (sizeof accel_info_decl)"
definition CORTEX_FORGE_IOCTL_SET_POWER :: u32 where
  "CORTEX_FORGE_IOCTL_SET_POWER = IOW CORTEX_FORGE_MAGIC 5 4"
definition CORTEX_FORGE_IOCTL_GET_VERSION :: u32 where
  "CORTEX_FORGE_IOCTL_GET_VERSION = IOR CORTEX_FORGE_MAGIC 6 4"
definition CORTEX_FORGE_IOCTL_GET_PROFILE :: u32 where
  "CORTEX_FORGE_IOCTL_GET_PROFILE = IOR CORTEX_FORGE_MAGIC 7 (sizeof profile_metrics_decl)"
definition CORTEX_FORGE_IOCTL_SET_ACCEL :: u32 where
  "CORTEX_FORGE_IOCTL_SET_ACCEL = IOW CORTEX_FORGE_MAGIC 8 4"

lemmas ioctl_encoding_defs = IOC_def IOW_def IOR_def IOWR_def CORTEX_FORGE_MAGIC_def

lemmas ioctl_cmd_defs =
  CORTEX_FORGE_IOCTL_SUBMIT_TASK_def CORTEX_FORGE_IOCTL_QUERY_TASK_def
  CORTEX_FORGE_IOCTL_CANCEL_TASK_def CORTEX_FORGE_IOCTL_GET_ACCEL_INFO_def
  CORTEX_FORGE_IOCTL_SET_POWER_def CORTEX_FORGE_IOCTL_GET_VERSION_def
  CORTEX_FORGE_IOCTL_GET_PROFILE_def CORTEX_FORGE_IOCTL_SET_ACCEL_def

lemma ioctl_values:
  "CORTEX_FORGE_IOCTL_SUBMIT_TASK = 0xC050CF01"
  "CORTEX_FORGE_IOCTL_QUERY_TASK = 0xC020CF02"
  "CORTEX_FORGE_IOCTL_CANCEL_TASK = 0x4004CF03"
  "CORTEX_FORGE_IOCTL_GET_ACCEL_INFO = 0x8038CF04"
  "CORTEX_FORGE_IOCTL_SET_POWER = 0x4004CF05"
  "CORTEX_FORGE_IOCTL_GET_VERSION = 0x8004CF06"
  "CORTEX_FORGE_IOCTL_GET_PROFILE = 0x8048CF07"
  "CORTEX_FORGE_IOCTL_SET_ACCEL = 0x4004CF08"
  by (simp_all add: ioctl_cmd_defs ioctl_encoding_defs)

section \<open>The contract of an encoding\<close>

locale wire_format =
  fixes enc :: "'r \<Rightarrow> u8 list"
    and dec :: "u8 list \<Rightarrow> 'r"
    and sz :: nat
    and wf :: "'r \<Rightarrow> bool"
  assumes enc_length: "wf x \<Longrightarrow> length (enc x) = sz"
    and dec_enc: "wf x \<Longrightarrow> dec (enc x) = x"
    and dec_wf: "length bs = sz \<Longrightarrow> wf (dec bs)"
    and enc_dec: "length bs = sz \<Longrightarrow> enc (dec bs) = bs"
begin

lemma enc_inject: "wf x \<Longrightarrow> wf y \<Longrightarrow> enc x = enc y \<longleftrightarrow> x = y"
  by (metis dec_enc)

lemma dec_surj: "wf x \<longleftrightarrow> (\<exists>bs. length bs = sz \<and> dec bs = x)"
  by (metis dec_enc dec_wf enc_length)

end

definition wf_task_desc :: "cortex_forge_task_desc \<Rightarrow> bool" where
  "wf_task_desc d \<longleftrightarrow> length (td_reserved d) = 4"
definition wf_task_status :: "cortex_forge_task_status \<Rightarrow> bool" where
  "wf_task_status s \<longleftrightarrow> length (ts_reserved s) = 3"
definition wf_accel_info :: "cortex_forge_accel_info \<Rightarrow> bool" where
  "wf_accel_info i \<longleftrightarrow> length (ai_reserved i) = 3"
definition wf_profile_metrics :: "cortex_forge_profile_metrics \<Rightarrow> bool" where
  "wf_profile_metrics p \<longleftrightarrow> length (pm_reserved p) = 4"

lemmas wire_defs =
  enc_task_desc_def dec_task_desc_def enc_task_status_def dec_task_status_def
  enc_accel_info_def dec_accel_info_def enc_profile_metrics_def dec_profile_metrics_def
  wf_task_desc_def wf_task_status_def wf_accel_info_def wf_profile_metrics_def

text \<open>Cutting a byte string into consecutive fields and gluing them back.\<close>

fun slices :: "nat list \<Rightarrow> 'a list \<Rightarrow> 'a list list" where
  "slices [] bs = []"
| "slices (n # ns) bs = take n bs # slices ns (drop n bs)"

lemma concat_slices: "sum_list ns = length bs \<Longrightarrow> concat (slices ns bs) = bs"
proof (induction ns arbitrary: bs)
  case Nil
  then show ?case by simp
next
  case (Cons n ns)
  then have "sum_list ns = length (drop n bs)" by simp
  from Cons.IH [OF this] show ?case by simp
qed

lemma length_three: "length xs = 3 \<Longrightarrow> \<exists>a b c. xs = [a, b, c]"
  by (auto simp: numeral_eq_Suc length_Suc_conv)

lemma length_four: "length xs = 4 \<Longrightarrow> \<exists>a b c d. xs = [a, b, c, d]"
  by (auto simp: numeral_eq_Suc length_Suc_conv)

lemma upt_3: "[0..<3] = [0, 1, 2 :: nat]" and upt_4: "[0..<4] = [0, 1, 2, 3 :: nat]"
  by (simp_all add: upt_rec)

lemma le_get_le_bytes4: "le_get 4 0 (bytes4 w @ bs) = w" "le_get 4 0 (bytes4 w) = w"
  by (simp_all add: le_get_def le_word_le_bytes)

lemma le_get_le_bytes8: "le_get 8 0 (bytes8 w @ bs) = w" "le_get 8 0 (bytes8 w) = w"
  by (simp_all add: le_get_def le_word_le_bytes)

lemma le_get_skip: "length xs \<le> off \<Longrightarrow> le_get n off (xs @ bs) = le_get n (off - length xs) bs"
  by (simp add: le_get_def)

lemmas field_read = le_get_skip le_get_le_bytes4 le_get_le_bytes8 get4s_def get8s_def upt_3 upt_4

lemmas field_write = le_bytes_le_get get4s_def get8s_def upt_3 upt_4

lemma offsetof_task_desc [simp]:
  "offsetof task_desc_decl ''task_id'' = 0" "offsetof task_desc_decl ''accel_type'' = 4"
  "offsetof task_desc_decl ''priority'' = 8" "offsetof task_desc_decl ''input_size'' = 12"
  "offsetof task_desc_decl ''output_size'' = 16" "offsetof task_desc_decl ''input_addr'' = 24"
  "offsetof task_desc_decl ''output_addr'' = 32" "offsetof task_desc_decl ''timeout_ms'' = 40"
  "offsetof task_desc_decl ''flags'' = 44" "offsetof task_desc_decl ''reserved'' = 48"
  by code_simp+

lemma offsetof_task_status [simp]:
  "offsetof task_status_decl ''task_id'' = 0" "offsetof task_status_decl ''status'' = 4"
  "offsetof task_status_decl ''exec_usec'' = 8" "offsetof task_status_decl ''error_code'' = 16"
  "offsetof task_status_decl ''reserved'' = 20"
  by code_simp+

lemma offsetof_accel_info [simp]:
  "offsetof accel_info_decl ''accel_type'' = 0" "offsetof accel_info_decl ''freq_hz'' = 4"
  "offsetof accel_info_decl ''temp_celsius'' = 8" "offsetof accel_info_decl ''load_percent'' = 12"
  "offsetof accel_info_decl ''fw_version'' = 16" "offsetof accel_info_decl ''hw_version'' = 20"
  "offsetof accel_info_decl ''mem_total'' = 24" "offsetof accel_info_decl ''mem_free'' = 32"
  "offsetof accel_info_decl ''state'' = 40" "offsetof accel_info_decl ''reserved'' = 44"
  by code_simp+

lemma offsetof_profile_metrics [simp]:
  "offsetof profile_metrics_decl ''compute_us'' = 0"
  "offsetof profile_metrics_decl ''memory_us'' = 8"
  "offsetof profile_metrics_decl ''storage_us'' = 16"
  "offsetof profile_metrics_decl ''network_us'' = 24"
  "offsetof profile_metrics_decl ''thermal_celsius'' = 32"
  "offsetof profile_metrics_decl ''power_mw'' = 36"
  "offsetof profile_metrics_decl ''reserved'' = 40"
  by code_simp+

interpretation desc_wire: wire_format enc_task_desc dec_task_desc 80 wf_task_desc
proof
  fix x :: cortex_forge_task_desc assume "wf_task_desc x"
  then obtain a b c d where r: "td_reserved x = [a, b, c, d]"
    by (auto simp: wf_task_desc_def dest: length_four)
  show "length (enc_task_desc x) = 80" by (simp add: enc_task_desc_def r)
  show "dec_task_desc (enc_task_desc x) = x"
    by (simp add: enc_task_desc_def dec_task_desc_def r field_read)
next
  fix bs :: "u8 list" assume l: "length bs = 80"
  show "wf_task_desc (dec_task_desc bs)"
    by (simp add: wf_task_desc_def dec_task_desc_def get8s_def)
  show "enc_task_desc (dec_task_desc bs) = bs"
    using concat_slices [of "[4,4,4,4,4,4,8,8,4,4,8,8,8,8]" bs] l
    by (simp add: enc_task_desc_def dec_task_desc_def field_write)
qed

interpretation status_wire: wire_format enc_task_status dec_task_status 32 wf_task_status
proof
  fix x :: cortex_forge_task_status assume "wf_task_status x"
  then obtain a b c where r: "ts_reserved x = [a, b, c]"
    by (auto simp: wf_task_status_def dest: length_three)
  show "length (enc_task_status x) = 32" by (simp add: enc_task_status_def r)
  show "dec_task_status (enc_task_status x) = x"
    by (simp add: enc_task_status_def dec_task_status_def r field_read)
next
  fix bs :: "u8 list" assume l: "length bs = 32"
  show "wf_task_status (dec_task_status bs)"
    by (simp add: wf_task_status_def dec_task_status_def get4s_def)
  show "enc_task_status (dec_task_status bs) = bs"
    using concat_slices [of "[4,4,8,4,4,4,4]" bs] l
    by (simp add: enc_task_status_def dec_task_status_def field_write)
qed

interpretation info_wire: wire_format enc_accel_info dec_accel_info 56 wf_accel_info
proof
  fix x :: cortex_forge_accel_info assume "wf_accel_info x"
  then obtain a b c where r: "ai_reserved x = [a, b, c]"
    by (auto simp: wf_accel_info_def dest: length_three)
  show "length (enc_accel_info x) = 56" by (simp add: enc_accel_info_def r)
  show "dec_accel_info (enc_accel_info x) = x"
    by (simp add: enc_accel_info_def dec_accel_info_def r field_read)
next
  fix bs :: "u8 list" assume l: "length bs = 56"
  show "wf_accel_info (dec_accel_info bs)"
    by (simp add: wf_accel_info_def dec_accel_info_def get4s_def)
  show "enc_accel_info (dec_accel_info bs) = bs"
    using concat_slices [of "[4,4,4,4,4,4,8,8,4,4,4,4]" bs] l
    by (simp add: enc_accel_info_def dec_accel_info_def field_write)
qed

interpretation profile_wire: wire_format enc_profile_metrics dec_profile_metrics 72 wf_profile_metrics
proof
  fix x :: cortex_forge_profile_metrics assume "wf_profile_metrics x"
  then obtain a b c d where r: "pm_reserved x = [a, b, c, d]"
    by (auto simp: wf_profile_metrics_def dest: length_four)
  show "length (enc_profile_metrics x) = 72" by (simp add: enc_profile_metrics_def r)
  show "dec_profile_metrics (enc_profile_metrics x) = x"
    by (simp add: enc_profile_metrics_def dec_profile_metrics_def r field_read)
next
  fix bs :: "u8 list" assume l: "length bs = 72"
  show "wf_profile_metrics (dec_profile_metrics bs)"
    by (simp add: wf_profile_metrics_def dec_profile_metrics_def get8s_def)
  show "enc_profile_metrics (dec_profile_metrics bs) = bs"
    using concat_slices [of "[8,8,8,8,4,4,8,8,8,8]" bs] l
    by (simp add: enc_profile_metrics_def dec_profile_metrics_def field_write)
qed

interpretation u32_wire: wire_format "bytes4" "le_get 4 0" 4 "\<lambda>_. True"
  by unfold_locales (simp_all add: le_get_le_bytes4 le_bytes_le_get)

section \<open>Parts of an image\<close>

text \<open>Writing the identifier of a descriptor changes its first four bytes only: the padding and the reserved
  words in the rest of the image are those that were there.\<close>

lemma enc_desc_set_id:
  assumes "length bs = 80"
  shows "enc_task_desc ((dec_task_desc bs)\<lparr>td_task_id := x\<rparr>) = bytes4 x @ drop 4 bs"
proof -
  have "enc_task_desc (d\<lparr>td_task_id := x\<rparr>) = bytes4 x @ drop 4 (enc_task_desc d)" for d
    by (simp add: enc_task_desc_def)
  then show ?thesis by (simp only: desc_wire.enc_dec [OF assms])
qed

lemma enc_status_parts:
  "take 4 (enc_task_status s) = bytes4 (ts_task_id s)"
  "drop 20 (enc_task_status s) = concat (map bytes4 (ts_reserved s))"
  by (simp_all add: enc_task_status_def)

lemma enc_info_parts:
  "take 4 (enc_accel_info i) = bytes4 (ai_accel_type i)"
  "drop 44 (enc_accel_info i) = concat (map bytes4 (ai_reserved i))"
  by (simp_all add: enc_accel_info_def)

lemma enc_profile_parts: "drop 40 (enc_profile_metrics p) = concat (map bytes8 (pm_reserved p))"
  by (simp add: enc_profile_metrics_def)

end
