(* ===== verification/User_Memory.thy ===== *)
theory User_Memory
  imports Forge_Prelude
begin

text \<open>
  Access to user memory. \<^verbatim>\<open>copy_from_user\<close> and \<^verbatim>\<open>copy_to_user\<close> belong to the kernel, not to
  this driver, so every handler takes them as a parameter: a record of the two functions over
  an arbitrary type of user memory. The locale \<open>user_access\<close> states the part of their
  documented behaviour that clients rely on. It is interpreted on a byte-addressed memory with
  per-byte mapping and write permission, the instance the concrete examples run on.
\<close>

text \<open>
  \<open>copy_from_user\<close> yields the bytes read, or \<open>None\<close> when some byte could not be copied;
  \<open>copy_to_user\<close> yields the memory afterwards and whether every byte was copied (on a fault a
  prefix may have been written).
\<close>

record 'm uaccess =
  copy_from_user :: "'m \<Rightarrow> u64 \<Rightarrow> nat \<Rightarrow> u8 list option"
  copy_to_user :: "'m \<Rightarrow> u64 \<Rightarrow> u8 list \<Rightarrow> 'm \<times> bool"

locale user_access =
  fixes ua :: "'m uaccess"
  assumes from_length: "copy_from_user ua m a n = Some bs \<Longrightarrow> length bs = n"
    and to_from: "copy_to_user ua m a bs = (m', True) \<Longrightarrow> length bs < 2 ^ 32 \<Longrightarrow>
      copy_from_user ua m' a (length bs) = Some bs"
begin

lemma read_back_prefix:
  assumes "copy_to_user ua m a bs = (m', True)" and "length bs < 2 ^ 32"
    and "copy_from_user ua m' a (length bs) = Some bs'"
  shows "bs' = bs"
  using to_from [OF assms(1,2)] assms(3) by simp

end

section \<open>Byte-addressed memory\<close>

record umem =
  um_byte :: "u64 \<Rightarrow> u8"
  um_mapped :: "u64 \<Rightarrow> bool"
  um_writable :: "u64 \<Rightarrow> bool"

definition um_addrs :: "u64 \<Rightarrow> nat \<Rightarrow> u64 list" where
  "um_addrs a n = map (\<lambda>i. a + of_nat i) [0..<n]"

definition um_read :: "umem \<Rightarrow> u64 \<Rightarrow> nat \<Rightarrow> u8 list option" where
  "um_read m a n =
     (if list_all (um_mapped m) (um_addrs a n) then Some (map (um_byte m) (um_addrs a n)) else None)"

definition um_store :: "umem \<Rightarrow> u64 \<Rightarrow> u8 list \<Rightarrow> umem" where
  "um_store m a bs = m\<lparr>um_byte := (\<lambda>x. if unat (x - a) < length bs then bs ! unat (x - a)
                                      else um_byte m x)\<rparr>"

definition um_write :: "umem \<Rightarrow> u64 \<Rightarrow> u8 list \<Rightarrow> umem \<times> bool" where
  "um_write m a bs =
     (let k = length (takeWhile (\<lambda>x. um_mapped m x \<and> um_writable m x) (um_addrs a (length bs)))
      in (um_store m a (take k bs), k = length bs))"

definition flat_uaccess :: "umem uaccess" where
  "flat_uaccess = \<lparr>copy_from_user = um_read, copy_to_user = um_write\<rparr>"

lemma length_um_addrs [simp]: "length (um_addrs a n) = n"
  by (simp add: um_addrs_def)

lemma um_read_store:
  assumes "length bs < 2 ^ 64"
  shows "map (um_byte (um_store m a bs)) (um_addrs a (length bs)) = bs"
proof (rule nth_equalityI)
  show "length (map (um_byte (um_store m a bs)) (um_addrs a (length bs))) = length bs" by simp
next
  fix i assume "i < length (map (um_byte (um_store m a bs)) (um_addrs a (length bs)))"
  then have i: "i < length bs" by simp
  then have "unat (of_nat i :: u64) = i"
    using assms by (simp add: unat_of_nat)
  with i show "map (um_byte (um_store m a bs)) (um_addrs a (length bs)) ! i = bs ! i"
    by (simp add: um_addrs_def um_store_def)
qed

interpretation flat: user_access flat_uaccess
proof
  fix m a n bs
  assume "copy_from_user flat_uaccess m a n = Some bs"
  then show "length bs = n"
    by (auto simp: flat_uaccess_def um_read_def split: if_splits)
next
  fix m m' a bs
  assume w: "copy_to_user flat_uaccess m a bs = (m', True)" and l: "length bs < (2::nat) ^ 32"
  define addrs where "addrs = um_addrs a (length bs)"
  from w have k: "length (takeWhile (\<lambda>x. um_mapped m x \<and> um_writable m x) addrs) = length addrs"
    and m': "m' = um_store m a bs"
    by (auto simp: flat_uaccess_def um_write_def Let_def addrs_def)
  from k have "\<forall>x \<in> set addrs. um_mapped m x"
    by (metis (no_types, lifting) nth_equalityI nth_mem set_takeWhileD takeWhile_nth)
  then have "list_all (um_mapped m') addrs"
    by (simp add: m' um_store_def list_all_iff)
  moreover have "map (um_byte m') addrs = bs"
    unfolding m' addrs_def by (rule um_read_store) (use l in simp)
  ultimately show "copy_from_user flat_uaccess m' a (length bs) = Some bs"
    by (simp add: flat_uaccess_def um_read_def addrs_def)
qed

text \<open>A memory with every byte mapped and writable, holding given bytes at one address.\<close>

definition um_holding :: "u64 \<Rightarrow> u8 list \<Rightarrow> umem" where
  "um_holding a bs = um_store \<lparr>um_byte = (\<lambda>_. 0), um_mapped = (\<lambda>_. True), um_writable = (\<lambda>_. True)\<rparr> a bs"

lemma um_holding_read:
  assumes "length bs < 2 ^ 64"
  shows "copy_from_user flat_uaccess (um_holding a bs) a (length bs) = Some bs"
  using um_read_store [OF assms]
  by (auto simp: um_holding_def flat_uaccess_def um_read_def um_store_def list_all_iff)

lemma um_holding_write:
  "copy_to_user flat_uaccess (um_holding a bs) b cs = (um_store (um_holding a bs) b cs, True)"
proof -
  have "um_mapped (um_holding a bs) x" "um_writable (um_holding a bs) x" for x
    by (simp_all add: um_holding_def um_store_def)
  then show ?thesis
    by (simp add: flat_uaccess_def um_write_def Let_def)
qed

end
