(* ===== verification/Forge_Dev.thy ===== *)
theory Forge_Dev
  imports Uapi User_Memory
begin

text \<open>
  The driver's data: \<^verbatim>\<open>include/cortex_forge_task.h\<close>, \<^verbatim>\<open>include/cortex_forge_accel.h\<close> and
  \<^verbatim>\<open>include/cortex_forge_dev.h\<close>. A task is a slot of the device's array; the lists the code
  threads through \<open>entry\<close> hold slot numbers. Locks do not appear as data: each critical
  section of the code is one operation of the model.
\<close>

section \<open>Tasks\<close>

definition MAX_TASKS :: nat where "MAX_TASKS = 256"

datatype task_state =
    TASK_STATE_FREE
  | TASK_STATE_PENDING
  | TASK_STATE_RUNNING
  | TASK_STATE_COMPLETE
  | TASK_STATE_FAILED
  | TASK_STATE_CANCELLED

fun task_state_val :: "task_state \<Rightarrow> u32" where
  "task_state_val TASK_STATE_FREE = 0"
| "task_state_val TASK_STATE_PENDING = 1"
| "task_state_val TASK_STATE_RUNNING = 2"
| "task_state_val TASK_STATE_COMPLETE = 3"
| "task_state_val TASK_STATE_FAILED = 4"
| "task_state_val TASK_STATE_CANCELLED = 5"

lemma task_state_val_inject [simp]: "task_state_val s = task_state_val t \<longleftrightarrow> s = t"
  by (cases s; cases t) simp_all

text \<open>The order of the enumeration constants, as C compares them.\<close>

instantiation task_state :: linorder
begin

definition less_eq_task_state :: "task_state \<Rightarrow> task_state \<Rightarrow> bool" where
  "less_eq_task_state s t \<longleftrightarrow> task_state_val s \<le> task_state_val t"

definition less_task_state :: "task_state \<Rightarrow> task_state \<Rightarrow> bool" where
  "less_task_state s t \<longleftrightarrow> task_state_val s < task_state_val t"

instance
  by standard (auto simp: less_eq_task_state_def less_task_state_def not_le)

end

text \<open>
  \<open>t_done\<close> tells whether the completion has been signalled with \<open>complete_all\<close>; jiffies are
  \<open>unsigned long\<close>.
\<close>

record cortex_forge_task =
  t_id :: u32
  t_state :: task_state
  t_accel_type :: u32
  t_priority :: u32
  t_input_addr :: u64
  t_input_size :: u32
  t_output_addr :: u64
  t_output_size :: u32
  t_timeout_ms :: u32
  t_submit_jiffies :: u64
  t_complete_jiffies :: u64
  t_error_code :: s32
  t_done :: bool

text \<open>The task after \<open>memset(task, 0, sizeof(*task))\<close>, and every slot after \<open>kzalloc\<close>.\<close>

definition zero_task :: cortex_forge_task where
  "zero_task = \<lparr>t_id = 0, t_state = TASK_STATE_FREE, t_accel_type = 0, t_priority = 0,
     t_input_addr = 0, t_input_size = 0, t_output_addr = 0, t_output_size = 0, t_timeout_ms = 0,
     t_submit_jiffies = 0, t_complete_jiffies = 0, t_error_code = 0, t_done = False\<rparr>"

section \<open>Accelerators\<close>

definition NUM_ACCELERATORS :: nat where "NUM_ACCELERATORS = 3"

record cortex_forge_accel =
  a_type :: u32
  a_name :: "char list"
  a_freq_hz :: u32
  a_temp_celsius :: s32
  a_load_percent :: u32
  a_fw_version :: u32
  a_hw_version :: u32
  a_mem_total :: u64
  a_mem_free :: u64
  a_state :: u32
  a_task_queue :: "nat list"
  a_active_tasks :: "nat list"
  a_worker_thread :: kptr
  a_running :: int

definition zero_accel :: cortex_forge_accel where
  "zero_accel = \<lparr>a_type = 0, a_name = replicate 16 (CHR 0x00), a_freq_hz = 0, a_temp_celsius = 0,
     a_load_percent = 0, a_fw_version = 0, a_hw_version = 0, a_mem_total = 0, a_mem_free = 0,
     a_state = 0, a_task_queue = [], a_active_tasks = [], a_worker_thread = NULL, a_running = 0\<rparr>"

section \<open>The device\<close>

record cortex_forge_dev =
  accelerators :: "cortex_forge_accel list"
  tasks :: "cortex_forge_task list"
  free_tasks :: "nat list"
  next_task_id :: u32
  dev_base :: kptr
  dev_num_clks :: int
  dev_rst :: kptr
  dev_irq :: int
  dev_class :: kptr
  dev_dev :: kptr

text \<open>The device as \<open>devm_kzalloc\<close> returns it.\<close>

definition zero_dev :: cortex_forge_dev where
  "zero_dev = \<lparr>accelerators = replicate NUM_ACCELERATORS zero_accel,
     tasks = replicate MAX_TASKS zero_task, free_tasks = [], next_task_id = 0,
     dev_base = NULL, dev_num_clks = 0, dev_rst = NULL, dev_irq = 0, dev_class = NULL,
     dev_dev = NULL\<rparr>"

text \<open>Writing through a pointer to a slot of \<open>tasks\<close> or of \<open>accelerators\<close>.\<close>

definition upd_task :: "nat \<Rightarrow> (cortex_forge_task \<Rightarrow> cortex_forge_task) \<Rightarrow>
    cortex_forge_task list \<Rightarrow> cortex_forge_task list" where
  "upd_task i f ts = ts[i := f (ts ! i)]"

definition upd_accel :: "nat \<Rightarrow> (cortex_forge_accel \<Rightarrow> cortex_forge_accel) \<Rightarrow>
    cortex_forge_accel list \<Rightarrow> cortex_forge_accel list" where
  "upd_accel a f as = as[a := f (as ! a)]"

lemma length_upd_task [simp]: "length (upd_task i f ts) = length ts"
  by (simp add: upd_task_def)

lemma length_upd_accel [simp]: "length (upd_accel a f as) = length as"
  by (simp add: upd_accel_def)

lemma nth_upd_task:
  "i < length ts \<Longrightarrow> upd_task i f ts ! j = (if j = i then f (ts ! i) else ts ! j)"
  by (simp add: upd_task_def nth_list_update)

lemma nth_upd_accel:
  "a < length as \<Longrightarrow> upd_accel a f as ! b = (if b = a then f (as ! a) else as ! b)"
  by (simp add: upd_accel_def nth_list_update)

lemma upd_task_compose:
  "i < length ts \<Longrightarrow> upd_task i g (upd_task i f ts) = upd_task i (g \<circ> f) ts"
  by (simp add: upd_task_def)

lemma MAX_TASKS_pos [simp]: "0 < MAX_TASKS"
  by (simp add: MAX_TASKS_def)

end
