(* ===== verification/Task_Manager.thy ===== *)
theory Task_Manager
  imports Forge_Dev
begin

text \<open>
  \<^verbatim>\<open>src/task_manager.c\<close>: the fixed pool of task slots (initialisation, allocation, release),
  submission to an accelerator's queue, and the query and cancel operations that look a task
  up by its identifier. The pool is the task array, the free list and the identifier counter;
  the functions take the parts the C functions take pointers to.
\<close>

section \<open>Operations\<close>

fun task_pool_init_from :: "nat list \<Rightarrow> cortex_forge_task list \<Rightarrow> nat list \<Rightarrow>
    cortex_forge_task list \<times> nat list" where
  "task_pool_init_from [] ts fl = (ts, fl)"
| "task_pool_init_from (i # is) ts fl =
     task_pool_init_from is (upd_task i (\<lambda>t. t\<lparr>t_state := TASK_STATE_FREE, t_done := False\<rparr>) ts)
       (list_add_tail i fl)"

definition task_pool_init :: "cortex_forge_task list \<Rightarrow> nat list \<Rightarrow>
    cortex_forge_task list \<times> nat list" where
  "task_pool_init ts free_list = task_pool_init_from [0..<MAX_TASKS] ts free_list"

definition task_alloc :: "cortex_forge_task list \<times> nat list \<times> u32 \<Rightarrow>
    nat option \<times> (cortex_forge_task list \<times> nat list \<times> u32)" where
  "task_alloc = (\<lambda>(ts, free_list, next_id).
     if \<not> list_empty free_list then
       (case list_first_entry free_list of
          None \<Rightarrow> (None, (ts, free_list, next_id))
        | Some i \<Rightarrow>
            let free_list' = list_del i free_list;
                next_id' = next_id + 1;
                ts' = upd_task i (\<lambda>_. zero_task\<lparr>t_done := False, t_id := next_id'\<rparr>) ts
            in (Some i, (ts', free_list', next_id')))
     else (None, (ts, free_list, next_id)))"

definition task_free :: "nat \<Rightarrow> cortex_forge_task list \<times> nat list \<Rightarrow>
    cortex_forge_task list \<times> nat list" where
  "task_free i = (\<lambda>(ts, free_list).
     (upd_task i (\<lambda>t. t\<lparr>t_state := TASK_STATE_FREE\<rparr>) ts, list_add_tail i free_list))"

text \<open>\<open>now\<close> is the value of \<open>jiffies\<close> when the function reads it.\<close>

definition task_submit :: "u64 \<Rightarrow> nat \<Rightarrow> cortex_forge_task list \<times> cortex_forge_accel \<Rightarrow>
    int \<times> (cortex_forge_task list \<times> cortex_forge_accel)" where
  "task_submit now i = (\<lambda>(ts, accel).
     if unat (t_accel_type (ts ! i)) \<ge> NUM_ACCELERATORS then (neg_errno EINVAL, (ts, accel))
     else
       let ts' = upd_task i (\<lambda>t. t\<lparr>t_state := TASK_STATE_PENDING, t_submit_jiffies := now\<rparr>) ts;
           accel' = accel\<lparr>a_task_queue := list_add_tail i (a_task_queue accel)\<rparr>
       in (0, (ts', accel')))"

text \<open>The guard of the two lookup loops and the loop itself, from slot \<open>i\<close> on.\<close>

definition task_matches :: "u32 \<Rightarrow> cortex_forge_task \<Rightarrow> bool" where
  "task_matches task_id t \<longleftrightarrow> t_id t = task_id \<and> t_state t \<noteq> TASK_STATE_FREE"

function task_lookup :: "cortex_forge_task list \<Rightarrow> u32 \<Rightarrow> nat \<Rightarrow> nat option" where
  "task_lookup ts task_id i =
     (if i < MAX_TASKS then
        (if task_matches task_id (ts ! i) then Some i else task_lookup ts task_id (Suc i))
      else None)"
  by pat_completeness auto
termination
  by (relation "measure (\<lambda>(ts, task_id, i). MAX_TASKS - i)") auto

declare task_lookup.simps [simp del]

text \<open>The status structure \<open>task_query\<close> fills; \<open>hz\<close> is the kernel's \<open>HZ\<close>.\<close>

definition query_status :: "u64 \<Rightarrow> cortex_forge_task \<Rightarrow> cortex_forge_task_status" where
  "query_status hz t = \<lparr>
     ts_task_id = t_id t,
     ts_status = task_state_val (t_state t),
     ts_exec_usec = (t_complete_jiffies t - t_submit_jiffies t) * 1000000 div hz,
     ts_error_code = t_error_code t,
     ts_reserved = [0, 0, 0] \<rparr>"

definition task_query :: "'m uaccess \<Rightarrow> u64 \<Rightarrow> cortex_forge_task list \<Rightarrow> u32 \<Rightarrow> u64 \<Rightarrow> 'm \<Rightarrow>
    int \<times> 'm" where
  "task_query ua hz ts task_id ustatus m =
     (case task_lookup ts task_id 0 of
        Some i \<Rightarrow>
          (case copy_to_user ua m ustatus (enc_task_status (query_status hz (ts ! i))) of
             (m', ok) \<Rightarrow> if \<not> ok then (neg_errno EFAULT, m') else (0, m'))
      | None \<Rightarrow> (neg_errno ENOENT, m))"

definition task_cancel :: "cortex_forge_task list \<Rightarrow> u32 \<Rightarrow> int \<times> cortex_forge_task list" where
  "task_cancel ts task_id =
     (case task_lookup ts task_id 0 of
        Some i \<Rightarrow>
          (0, upd_task i (\<lambda>t. t\<lparr>t_state := TASK_STATE_CANCELLED,
                              t_error_code := word_of_int (neg_errno ECANCELED),
                              t_done := True\<rparr>) ts)
      | None \<Rightarrow> (neg_errno ENOENT, ts))"

lemmas task_manager_defs [forge_defs] =
  task_alloc_def task_free_def task_submit_def task_query_def task_cancel_def task_matches_def

section \<open>The contract of an allocator of slots\<close>

text \<open>
  What the pool promises to the code that submits tasks, and what both versions of the driver
  implement: the available slots are handed out in order, each with a fresh identifier, and
  nothing else of the pool moves.
\<close>

fun alloc_n :: "('s \<Rightarrow> nat option \<times> 's) \<Rightarrow> nat \<Rightarrow> 's \<Rightarrow> nat option list \<times> 's" where
  "alloc_n alloc 0 s = ([], s)"
| "alloc_n alloc (Suc n) s =
     (let (r, s') = alloc s; (rs, s'') = alloc_n alloc n s' in (r # rs, s''))"

locale slot_allocator =
  fixes alloc :: "'s \<Rightarrow> nat option \<times> 's"
    and avail :: "'s \<Rightarrow> nat list"
    and issued :: "'s \<Rightarrow> u32"
    and slot_id :: "'s \<Rightarrow> nat \<Rightarrow> u32"
    and valid :: "'s \<Rightarrow> bool"
  assumes alloc_exhausted: "avail s = [] \<Longrightarrow> alloc s = (None, s)"
    and alloc_first: "valid s \<Longrightarrow> avail s = i # rest \<Longrightarrow>
      \<exists>s'. alloc s = (Some i, s') \<and> avail s' = rest \<and> issued s' = issued s + 1 \<and>
           slot_id s' = (slot_id s)(i := issued s + 1) \<and> valid s'"
begin

lemma alloc_n_avail:
  "valid s \<Longrightarrow> n \<le> length (avail s) \<Longrightarrow>
   \<exists>s'. alloc_n alloc n s = (map Some (take n (avail s)), s') \<and>
        avail s' = drop n (avail s) \<and> issued s' = issued s + of_nat n \<and> valid s'"
proof (induction n arbitrary: s)
  case 0
  then show ?case by simp
next
  case (Suc n)
  then obtain i rest where av: "avail s = i # rest"
    by (cases "avail s") auto
  from alloc_first [OF Suc.prems(1) av] obtain s1 where
    s1: "alloc s = (Some i, s1)" "avail s1 = rest" "issued s1 = issued s + 1" "valid s1"
    by blast
  with Suc.prems av have "n \<le> length (avail s1)" by simp
  from Suc.IH [OF s1(4) this] show ?case
    by (auto simp: s1 av)
qed

lemma alloc_n_exhausted:
  assumes "avail s = []"
  shows "alloc_n alloc n s = (replicate n None, s)"
  by (induction n) (simp_all add: alloc_exhausted [OF assms])

lemma alloc_ids:
  "valid s \<Longrightarrow> distinct (avail s) \<Longrightarrow> n \<le> length (avail s) \<Longrightarrow> k < n \<Longrightarrow>
   slot_id (snd (alloc_n alloc n s)) (avail s ! k) = issued s + of_nat (Suc k)"
proof (induction n arbitrary: s k)
  case 0
  then show ?case by simp
next
  case (Suc n)
  then obtain i rest where av: "avail s = i # rest"
    by (cases "avail s") auto
  from alloc_first [OF Suc.prems(1) av] obtain s1 where
    s1: "alloc s = (Some i, s1)" "avail s1 = rest" "issued s1 = issued s + 1"
      "slot_id s1 = (slot_id s)(i := issued s + 1)" "valid s1"
    by blast
  have keep: "slot_id (snd (alloc_n alloc m t)) j = slot_id t j"
    if "valid t" "m \<le> length (avail t)" "j \<notin> set (avail t)" for m t j
    using that
  proof (induction m arbitrary: t)
    case 0
    then show ?case by simp
  next
    case (Suc m)
    then obtain i' r' where av': "avail t = i' # r'"
      by (cases "avail t") auto
    from alloc_first [OF Suc.prems(1) av'] obtain t1 where
      t1: "alloc t = (Some i', t1)" "avail t1 = r'"
        "slot_id t1 = (slot_id t)(i' := issued t + 1)" "valid t1"
      by blast
    with Suc.prems av' have "slot_id (snd (alloc_n alloc m t1)) j = slot_id t1 j"
      by (intro Suc.IH) auto
    with t1 av' Suc.prems(3) show ?case by (auto split: prod.splits)
  qed
  have n: "n \<le> length (avail s1)" and d: "distinct (avail s1)" and i: "i \<notin> set (avail s1)"
    using Suc.prems av s1 by auto
  show ?case
  proof (cases k)
    case 0
    have "slot_id (snd (alloc_n alloc n s1)) i = issued s + 1"
      using keep [OF s1(5) n i] s1(4) by simp
    with 0 s1 av show ?thesis by (auto split: prod.splits)
  next
    case (Suc k')
    have "slot_id (snd (alloc_n alloc n s1)) (avail s1 ! k') = issued s1 + of_nat (Suc k')"
      using Suc.IH [OF s1(5) d n] Suc.prems(4) Suc by simp
    with Suc s1 av show ?thesis by (auto split: prod.splits)
  qed
qed

end

definition pool_valid :: "cortex_forge_task list \<times> nat list \<times> u32 \<Rightarrow> bool" where
  "pool_valid = (\<lambda>(ts, fl, nid). distinct fl \<and> (\<forall>i \<in> set fl. i < length ts))"

interpretation pool: slot_allocator task_alloc "\<lambda>(ts, fl, nid). fl" "\<lambda>(ts, fl, nid). nid"
  "\<lambda>(ts, fl, nid) i. t_id (ts ! i)" pool_valid
proof
  fix s :: "cortex_forge_task list \<times> nat list \<times> u32"
  assume "(\<lambda>(ts, fl, nid). fl) s = []"
  then show "task_alloc s = (None, s)"
    by (cases s) (simp add: task_alloc_def list_empty_def)
next
  fix s :: "cortex_forge_task list \<times> nat list \<times> u32" and i rest
  assume v: "pool_valid s" and a: "(\<lambda>(ts, fl, nid). fl) s = i # rest"
  obtain ts fl nid where s: "s = (ts, fl, nid)" by (cases s)
  with v a have fl: "fl = i # rest" and i: "i < length ts" and r: "pool_valid (ts, rest, nid)"
    by (auto simp: pool_valid_def)
  show "\<exists>s'. task_alloc s = (Some i, s') \<and> (\<lambda>(ts, fl, nid). fl) s' = rest \<and>
     (\<lambda>(ts, fl, nid). nid) s' = (\<lambda>(ts, fl, nid). nid) s + 1 \<and>
     (\<lambda>(ts, fl, nid) i. t_id (ts ! i)) s' =
       ((\<lambda>(ts, fl, nid) i. t_id (ts ! i)) s)(i := (\<lambda>(ts, fl, nid). nid) s + 1) \<and> pool_valid s'"
    using i r by (auto simp: s fl task_alloc_def list_defs Let_def nth_upd_task pool_valid_def fun_eq_iff)
qed

section \<open>Lemmas\<close>

lemma task_pool_init_from_eq:
  "distinct is \<Longrightarrow> \<forall>i \<in> set is. i < length ts \<Longrightarrow>
   task_pool_init_from is ts fl =
     (map (\<lambda>(i, t). if i \<in> set is then t\<lparr>t_state := TASK_STATE_FREE, t_done := False\<rparr> else t)
        (enumerate 0 ts), fl @ is)"
proof (induction "is" arbitrary: ts fl)
  case Nil
  have "map (\<lambda>(i, t). t) (enumerate 0 ts) = ts"
    by (rule nth_equalityI) (simp_all add: nth_enumerate_eq)
  then show ?case by simp
next
  case (Cons i "is")
  then show ?case
    by (auto simp: list_add_tail_def upd_task_def nth_enumerate_eq nth_list_update
        intro!: nth_equalityI)
qed

lemma task_lookup_eq: "task_lookup ts task_id i = find (\<lambda>j. task_matches task_id (ts ! j)) [i..<MAX_TASKS]"
proof (induction ts task_id i rule: task_lookup.induct)
  case (1 ts task_id i)
  show ?case
  proof (cases "i < MAX_TASKS")
    case True
    with 1 show ?thesis
      by (simp add: task_lookup.simps [of ts task_id i] upt_conv_Cons)
  next
    case False
    then show ?thesis by (simp add: task_lookup.simps [of ts task_id i])
  qed
qed

lemma task_lookup_SomeD:
  assumes "task_lookup ts task_id 0 = Some i"
  shows "i < MAX_TASKS" and "t_id (ts ! i) = task_id" and "t_state (ts ! i) \<noteq> TASK_STATE_FREE"
    and "\<forall>j < i. \<not> task_matches task_id (ts ! j)"
proof -
  from assms obtain k where k: "k < length [0..<MAX_TASKS]" "task_matches task_id (ts ! ([0..<MAX_TASKS] ! k))"
    "i = [0..<MAX_TASKS] ! k" "\<forall>j < k. \<not> task_matches task_id (ts ! ([0..<MAX_TASKS] ! j))"
    unfolding task_lookup_eq find_Some_iff by blast
  then have "i = k" by simp
  with k show "i < MAX_TASKS" "t_id (ts ! i) = task_id" "t_state (ts ! i) \<noteq> TASK_STATE_FREE"
    "\<forall>j < i. \<not> task_matches task_id (ts ! j)"
    by (simp_all add: task_matches_def)
qed

lemma task_lookup_None_iff:
  "task_lookup ts task_id 0 = None \<longleftrightarrow> (\<forall>i < MAX_TASKS. \<not> task_matches task_id (ts ! i))"
  by (simp add: task_lookup_eq find_None_iff)

lemma task_lookup_unique:
  assumes "i < MAX_TASKS" and "task_matches task_id (ts ! i)"
    and "\<forall>j < MAX_TASKS. task_matches task_id (ts ! j) \<longrightarrow> j = i"
  shows "task_lookup ts task_id 0 = Some i"
proof (cases "task_lookup ts task_id 0")
  case None
  then have "\<not> task_matches task_id (ts ! i)"
    using assms(1) by (simp add: task_lookup_None_iff)
  with assms(2) show ?thesis by contradiction
next
  case (Some j)
  have "j < MAX_TASKS" and "task_matches task_id (ts ! j)"
    using task_lookup_SomeD [OF Some] by (simp_all add: task_matches_def)
  with assms(3) Some show ?thesis by simp
qed

lemma wf_query_status [simp]: "wf_task_status (query_status hz t)"
  by (simp add: wf_task_status_def query_status_def)

end
