(* ===== verification/Accel_Manager.thy ===== *)
theory Accel_Manager
  imports Task_Manager
begin

text \<open>
  \<^verbatim>\<open>src/accel_manager.c\<close>: initialisation of an accelerator, the worker thread that takes tasks
  from its queue, starting and stopping the workers, and the information query. The worker is
  a program-counter machine: one step per access to shared memory, so that it can be
  interleaved with the system calls (theory \<open>Worker_System\<close>) or run on its own.
\<close>

section \<open>Initialisation and information\<close>

definition accel_init :: "cortex_forge_accel \<Rightarrow> u32 \<Rightarrow> string \<Rightarrow> cortex_forge_accel" where
  "accel_init accel ty nm = accel\<lparr>
     a_type := ty,
     a_name := strncpy (a_name accel) nm (length (a_name accel) - 1),
     a_freq_hz := 1000000000,
     a_temp_celsius := 40,
     a_load_percent := 0,
     a_fw_version := 0x00010000,
     a_hw_version := 0x02000000,
     a_mem_total := 1024 * 1024 * 1024,
     a_mem_free := 1024 * 1024 * 1024,
     a_state := 2,
     a_task_queue := [],
     a_active_tasks := [],
     a_running := 1\<rparr>"

definition accel_get_info :: "cortex_forge_accel \<Rightarrow> cortex_forge_accel_info \<Rightarrow>
    cortex_forge_accel_info" where
  "accel_get_info accel info = info\<lparr>
     ai_freq_hz := a_freq_hz accel,
     ai_temp_celsius := a_temp_celsius accel,
     ai_load_percent := a_load_percent accel,
     ai_fw_version := a_fw_version accel,
     ai_hw_version := a_hw_version accel,
     ai_mem_total := a_mem_total accel,
     ai_mem_free := a_mem_free accel,
     ai_state := a_state accel\<rparr>"

section \<open>The worker thread\<close>

definition load_up :: "u32 \<Rightarrow> u32" where
  "load_up l = min 100 (l + 10)"

definition load_down :: "u32 \<Rightarrow> u32" where
  "load_down l = word_of_int (max 0 (sint l - 10))"

text \<open>
  Where a worker is. The first three points are the loop test, the timed wait and the second
  test of \<open>running\<close>; \<open>W_Lock\<close> is the critical section that takes a task; the points with a slot
  number process that task, in the order of the statements; \<open>W_Unlink\<close> is the last critical
  section. \<open>W_Spin\<close> and \<open>W_Msleep\<close> are the test and the body of the timeout loop, with the
  loop's two locals.
\<close>

datatype worker_pc =
    W_Loop
  | W_Wait
  | W_Recheck
  | W_Lock
  | W_SetRunning nat
  | W_LoadUp nat
  | W_Start nat
  | W_Spin nat u64 u64
  | W_Msleep nat u64 u64
  | W_Sleep10 nat
  | W_Stamp nat
  | W_SetComplete nat
  | W_ClearError nat
  | W_LoadDown nat
  | W_CompleteAll nat
  | W_Unlink nat
  | W_Exit

text \<open>
  One step. \<open>m2j\<close> is \<open>msecs_to_jiffies\<close>; \<open>now\<close> and \<open>stop\<close> are what \<open>jiffies\<close> and
  \<open>kthread_should_stop()\<close> read at this step.
\<close>

fun accel_worker_thread :: "(u32 \<Rightarrow> u64) \<Rightarrow> u64 \<Rightarrow> bool \<Rightarrow> worker_pc \<Rightarrow>
    cortex_forge_task list \<times> cortex_forge_accel \<Rightarrow>
    worker_pc \<times> (cortex_forge_task list \<times> cortex_forge_accel)" where
  "accel_worker_thread m2j now stop W_Loop (ts, ac) =
     ((if a_running ac \<noteq> 0 then W_Wait else W_Exit), (ts, ac))"
| "accel_worker_thread m2j now stop W_Wait (ts, ac) = (W_Recheck, (ts, ac))"
| "accel_worker_thread m2j now stop W_Recheck (ts, ac) =
     ((if a_running ac = 0 then W_Exit else W_Lock), (ts, ac))"
| "accel_worker_thread m2j now stop W_Lock (ts, ac) =
     (if \<not> list_empty (a_task_queue ac) then
        (case list_first_entry (a_task_queue ac) of
           None \<Rightarrow> (W_Loop, (ts, ac))
         | Some i \<Rightarrow> (W_SetRunning i, (ts, ac\<lparr>a_task_queue := list_del i (a_task_queue ac),
                                            a_active_tasks := list_add_tail i (a_active_tasks ac)\<rparr>)))
      else (W_Loop, (ts, ac)))"
| "accel_worker_thread m2j now stop (W_SetRunning i) (ts, ac) =
     (W_LoadUp i, (upd_task i (\<lambda>t. t\<lparr>t_state := TASK_STATE_RUNNING\<rparr>) ts, ac))"
| "accel_worker_thread m2j now stop (W_LoadUp i) (ts, ac) =
     (W_Start i, (ts, ac\<lparr>a_load_percent := load_up (a_load_percent ac)\<rparr>))"
| "accel_worker_thread m2j now stop (W_Start i) (ts, ac) =
     ((if t_timeout_ms (ts ! i) > 0 then W_Spin i (m2j (t_timeout_ms (ts ! i))) now else W_Sleep10 i),
      (ts, ac))"
| "accel_worker_thread m2j now stop (W_Spin i timeout start) (ts, ac) =
     ((if now - start < timeout \<and> t_state (ts ! i) = TASK_STATE_RUNNING
       then W_Msleep i timeout start else W_Stamp i), (ts, ac))"
| "accel_worker_thread m2j now stop (W_Msleep i timeout start) (ts, ac) =
     ((if stop then W_Stamp i else W_Spin i timeout start), (ts, ac))"
| "accel_worker_thread m2j now stop (W_Sleep10 i) (ts, ac) = (W_Stamp i, (ts, ac))"
| "accel_worker_thread m2j now stop (W_Stamp i) (ts, ac) =
     (W_SetComplete i, (upd_task i (\<lambda>t. t\<lparr>t_complete_jiffies := now\<rparr>) ts, ac))"
| "accel_worker_thread m2j now stop (W_SetComplete i) (ts, ac) =
     (W_ClearError i, (upd_task i (\<lambda>t. t\<lparr>t_state := TASK_STATE_COMPLETE\<rparr>) ts, ac))"
| "accel_worker_thread m2j now stop (W_ClearError i) (ts, ac) =
     (W_LoadDown i, (upd_task i (\<lambda>t. t\<lparr>t_error_code := 0\<rparr>) ts, ac))"
| "accel_worker_thread m2j now stop (W_LoadDown i) (ts, ac) =
     (W_CompleteAll i, (ts, ac\<lparr>a_load_percent := load_down (a_load_percent ac)\<rparr>))"
| "accel_worker_thread m2j now stop (W_CompleteAll i) (ts, ac) =
     (W_Unlink i, (upd_task i (\<lambda>t. t\<lparr>t_done := True\<rparr>) ts, ac))"
| "accel_worker_thread m2j now stop (W_Unlink i) (ts, ac) =
     (W_Loop, (ts, ac\<lparr>a_active_tasks := list_del i (a_active_tasks ac)\<rparr>))"
| "accel_worker_thread m2j now stop W_Exit (ts, ac) = (W_Exit, (ts, ac))"

text \<open>\<open>n\<close> consecutive steps of a worker, the \<open>k\<close>-th reading the clock and the stop flag from \<open>env k\<close>.\<close>

fun worker_run :: "(u32 \<Rightarrow> u64) \<Rightarrow> (nat \<Rightarrow> u64 \<times> bool) \<Rightarrow> nat \<Rightarrow>
    worker_pc \<times> (cortex_forge_task list \<times> cortex_forge_accel) \<Rightarrow>
    worker_pc \<times> (cortex_forge_task list \<times> cortex_forge_accel)" where
  "worker_run m2j env 0 c = c"
| "worker_run m2j env (Suc n) c =
     worker_run m2j (\<lambda>k. env (Suc k)) n
       (accel_worker_thread m2j (fst (env 0)) (snd (env 0)) (fst c) (snd c))"

section \<open>Starting and stopping the workers\<close>

text \<open>The calls the driver makes into the kernel to acquire and release what devres does not manage.\<close>

datatype kcall =
    Kthread_Run nat kptr
  | Wake_Up nat
  | Kthread_Stop kptr
  | Alloc_Chrdev_Region
  | Unregister_Chrdev_Region
  | Cdev_Add
  | Cdev_Del
  | Device_Create kptr
  | Device_Destroy
  | Class_Register
  | Class_Unregister
  | Platform_Driver_Register
  | Platform_Driver_Unregister

fun accel_stop_from :: "nat list \<Rightarrow> cortex_forge_accel list \<Rightarrow> cortex_forge_accel list \<times> kcall list" where
  "accel_stop_from [] as = (as, [])"
| "accel_stop_from (i # is) as =
     (if a_worker_thread (as ! i) \<noteq> NULL then
        (let as1 = upd_accel i (\<lambda>a. a\<lparr>a_running := 0\<rparr>) as;
             p = a_worker_thread (as1 ! i);
             as2 = upd_accel i (\<lambda>a. a\<lparr>a_worker_thread := NULL\<rparr>) as1;
             (as3, cs) = accel_stop_from is as2
         in (as3, Wake_Up i # Kthread_Stop p # cs))
      else accel_stop_from is as)"

definition accel_stop_workers :: "cortex_forge_accel list \<Rightarrow> nat \<Rightarrow>
    cortex_forge_accel list \<times> kcall list" where
  "accel_stop_workers as num = accel_stop_from [0..<num] as"

text \<open>\<open>krun i\<close> is what \<open>kthread_run\<close> returns for the worker of accelerator \<open>i\<close>.\<close>

function accel_start_from :: "(nat \<Rightarrow> kptr) \<Rightarrow> nat \<Rightarrow> nat \<Rightarrow> cortex_forge_accel list \<Rightarrow>
    int \<times> cortex_forge_accel list \<times> kcall list" where
  "accel_start_from krun i num as =
     (if i < num then
        (let p = krun i; as1 = upd_accel i (\<lambda>a. a\<lparr>a_worker_thread := p\<rparr>) as in
         if IS_ERR p then
           (let ret = PTR_ERR p; (as2, cs) = accel_stop_workers as1 i in (ret, as2, Kthread_Run i p # cs))
         else
           (let (ret, as2, cs) = accel_start_from krun (Suc i) num as1 in (ret, as2, Kthread_Run i p # cs)))
      else (0, as, []))"
  by pat_completeness auto
termination
  by (relation "measure (\<lambda>(krun, i, num, as). num - i)") auto

declare accel_start_from.simps [simp del]

definition accel_start_workers :: "(nat \<Rightarrow> kptr) \<Rightarrow> cortex_forge_accel list \<Rightarrow> nat \<Rightarrow>
    int \<times> cortex_forge_accel list \<times> kcall list" where
  "accel_start_workers krun as num = accel_start_from krun 0 num as"

section \<open>Lemmas on initialisation and load\<close>

lemma accel_init_name:
  assumes "CHR 0x00 \<notin> set nm" and "length (a_name accel) = 16" and "a_name accel ! 15 = CHR 0x00"
  shows "cstr (a_name (accel_init accel ty nm)) = take 15 nm"
    and "length (a_name (accel_init accel ty nm)) = 16"
  using assms by (simp_all add: accel_init_def cstr_strncpy)

lemma load_up_0 [simp]: "load_up 0 = 10"
  by (simp add: load_up_def min_def)

lemma load_down_10 [simp]: "load_down 10 = 0"
  by (simp add: load_down_def)

lemma load_up_le: "load_up l \<le> 100"
  by (simp add: load_up_def)

lemma load_down_up:
  assumes "l \<le> 90"
  shows "load_down (load_up l) = l"
proof -
  have u: "uint l \<le> 90"
    using assms by (simp add: word_le_def)
  then have "uint (l + 10) = uint l + 10"
    by (simp add: uint_word_ariths)
  with u have "uint (l + 10) \<le> 100" by simp
  then have up: "load_up l = l + 10"
    by (simp add: load_up_def min_absorb2 word_le_def)
  have "sint (l + 10) = uint (l + 10)"
  proof -
    have "signed_take_bit 31 x = x" if "0 \<le> x" "x \<le> 100" for x :: int
      using that by (intro signed_take_bit_int_eq_self) simp_all
    with \<open>uint (l + 10) \<le> 100\<close> show ?thesis by (simp add: sint_uint)
  qed
  with up u \<open>uint (l + 10) = uint l + 10\<close> show ?thesis
    by (simp add: load_down_def)
qed

section \<open>Running the worker\<close>

lemma worker_run_add:
  "worker_run m2j env (m + n) c = worker_run m2j (\<lambda>k. env (m + k)) n (worker_run m2j env m c)"
  by (induction m arbitrary: env c) simp_all

text \<open>
  What \<open>msleep(1)\<close> in the timeout loop guarantees, and nothing more: when a test of the loop has sent
  the worker to sleep, the time since \<open>start\<close> has grown by the next test. Where the worker does not
  sleep in that loop nothing is asked of the clock.
\<close>

definition sleeps_advance :: "(u32 \<Rightarrow> u64) \<Rightarrow> (nat \<Rightarrow> u64 \<times> bool) \<Rightarrow>
    worker_pc \<times> (cortex_forge_task list \<times> cortex_forge_accel) \<Rightarrow> bool" where
  "sleeps_advance m2j env c \<longleftrightarrow>
     (\<forall>n i timeout start. fst (worker_run m2j env n c) = W_Spin i timeout start \<longrightarrow>
        fst (worker_run m2j env (Suc n) c) = W_Msleep i timeout start \<longrightarrow>
        unat (fst (env n) - start) < unat (fst (env (Suc (Suc n))) - start))"

lemma sleeps_advance_shift:
  assumes "sleeps_advance m2j env c" and "worker_run m2j env m c = c'"
  shows "sleeps_advance m2j (\<lambda>k. env (m + k)) c'"
proof -
  have "worker_run m2j (\<lambda>k. env (m + k)) n c' = worker_run m2j env (m + n) c" for n
    by (simp only: worker_run_add assms(2))
  then show ?thesis using assms(1) unfolding sleeps_advance_def by (metis add_Suc_right)
qed

lemma sleeps_advance_spin:
  assumes "sleeps_advance m2j env (W_Spin i timeout start, (ts, ac))"
    and "fst (env 0) - start < timeout" and "t_state (ts ! i) = TASK_STATE_RUNNING" and "\<not> snd (env 1)"
  shows "unat (fst (env 0) - start) < unat (fst (env 2) - start)"
    and "sleeps_advance m2j (\<lambda>k. env (Suc (Suc k))) (W_Spin i timeout start, (ts, ac))"
proof -
  have "fst (worker_run m2j env 1 (W_Spin i timeout start, (ts, ac))) = W_Msleep i timeout start"
    using assms(2,3) by simp
  then show "unat (fst (env 0) - start) < unat (fst (env 2) - start)"
    using assms(1) [unfolded sleeps_advance_def, rule_format, of 0 i timeout start] by (simp add: numeral_2_eq_2)
  have "worker_run m2j env (Suc (Suc 0)) (W_Spin i timeout start, (ts, ac)) = (W_Spin i timeout start, (ts, ac))"
    using assms(2-4) by simp
  from sleeps_advance_shift [OF assms(1) this]
  show "sleeps_advance m2j (\<lambda>k. env (Suc (Suc k))) (W_Spin i timeout start, (ts, ac))" by simp
qed

lemma spin_exits:
  assumes "sleeps_advance m2j env (W_Spin i timeout start, (ts, ac))"
    and "unat timeout \<le> unat (fst (env 0) - start) + d"
  shows "\<exists>n \<le> 2 * d + 1. worker_run m2j env n (W_Spin i timeout start, (ts, ac)) = (W_Stamp i, (ts, ac))"
  using assms
proof (induction d arbitrary: env)
  case 0
  then have "\<not> fst (env 0) - start < timeout" by (simp add: word_less_nat_alt)
  then have "worker_run m2j env 1 (W_Spin i timeout start, (ts, ac)) = (W_Stamp i, (ts, ac))"
    by simp
  then show ?case by (intro exI [of _ 1]) simp
next
  case (Suc d)
  show ?case
  proof (cases "fst (env 0) - start < timeout \<and> t_state (ts ! i) = TASK_STATE_RUNNING \<and> \<not> snd (env 1)")
    case True
    note next_test = sleeps_advance_spin [OF Suc.prems(1)]
    from True next_test Suc.prems(2) have "unat timeout \<le> unat (fst (env (Suc (Suc 0))) - start) + d"
      by (simp add: numeral_2_eq_2)
    with Suc.IH next_test(2) True obtain n where n: "n \<le> 2 * d + 1"
      "worker_run m2j (\<lambda>k. env (Suc (Suc k))) n (W_Spin i timeout start, (ts, ac)) = (W_Stamp i, (ts, ac))"
      by blast
    with True have "worker_run m2j env (Suc (Suc n)) (W_Spin i timeout start, (ts, ac)) = (W_Stamp i, (ts, ac))"
      by simp
    with n(1) show ?thesis by (intro exI [of _ "Suc (Suc n)"]) simp
  next
    case False
    then consider "\<not> (fst (env 0) - start < timeout \<and> t_state (ts ! i) = TASK_STATE_RUNNING)"
      | "fst (env 0) - start < timeout \<and> t_state (ts ! i) = TASK_STATE_RUNNING" "snd (env 1)"
      by blast
    then show ?thesis
    proof cases
      case 1
      then have "worker_run m2j env 1 (W_Spin i timeout start, (ts, ac)) = (W_Stamp i, (ts, ac))"
        by auto
      then show ?thesis by (intro exI [of _ 1]) simp
    next
      case 2
      then have "worker_run m2j env (Suc (Suc 0)) (W_Spin i timeout start, (ts, ac)) = (W_Stamp i, (ts, ac))"
        by simp
      then show ?thesis by (intro exI [of _ "Suc (Suc 0)"]) simp
    qed
  qed
qed

text \<open>
  A clock that ticks once per step meets this on a run that is over before it wraps: the worker got
  its \<open>start\<close> from an earlier reading, and with nothing queued it does not come to the loop again.
\<close>

abbreviation idle_points :: "worker_pc set" where
  "idle_points \<equiv> {W_Loop, W_Wait, W_Recheck, W_Lock, W_Exit}"

lemma idle_step:
  assumes "a_task_queue ac = []" and "pc \<in> idle_points"
  shows "\<exists>pc' \<in> idle_points. accel_worker_thread m2j now stop pc (ts, ac) = (pc', (ts, ac))"
  using assms by (auto simp: list_empty_def split: if_splits)

lemma idle_stays:
  assumes "a_task_queue ac = []" and "pc \<in> idle_points"
  shows "fst (worker_run m2j env n (pc, (ts, ac))) \<in> idle_points"
  using assms(2)
proof (induction n arbitrary: env pc)
  case 0
  then show ?case by simp
next
  case (Suc n)
  obtain pc' where "pc' \<in> idle_points"
    "accel_worker_thread m2j (fst (env 0)) (snd (env 0)) pc (ts, ac) = (pc', (ts, ac))"
    using idle_step [OF assms(1) Suc.prems] by blast
  with Suc.IH [of pc'] show ?case by simp
qed

lemma start_was_read:
  assumes "accel_worker_thread m2j now stop pc c = (pc', c')" and "pc' = W_Spin i timeout start \<or> pc' = W_Msleep i timeout start"
  shows "start = now \<or> pc = W_Spin i timeout start \<or> pc = W_Msleep i timeout start"
  using assms by (cases c; cases pc) (auto simp: list_defs split: if_splits list.splits)

lemma worker_run_Suc:
  "worker_run m2j env (Suc n) c = (let (pc, x) = worker_run m2j env n c
     in accel_worker_thread m2j (fst (env n)) (snd (env n)) pc x)"
  using worker_run_add [of m2j env n 1 c] by (simp add: case_prod_beta)

lemma start_from_env:
  assumes "fst (worker_run m2j env n (W_Loop, x)) \<in> {W_Spin i timeout start, W_Msleep i timeout start}"
  shows "\<exists>m < n. start = fst (env m)"
  using assms
proof (induction n)
  case 0
  then show ?case by simp
next
  case (Suc n)
  obtain pc y where w: "worker_run m2j env n (W_Loop, x) = (pc, y)" by (cases "worker_run m2j env n (W_Loop, x)")
  obtain pc' y' where s: "accel_worker_thread m2j (fst (env n)) (snd (env n)) pc y = (pc', y')"
    by (cases "accel_worker_thread m2j (fst (env n)) (snd (env n)) pc y")
  have "worker_run m2j env (Suc n) (W_Loop, x) = (pc', y')" using w s by (simp add: worker_run_Suc del: worker_run.simps)
  with Suc.prems start_was_read [OF s, of i timeout start] have
    "start = fst (env n) \<or> pc \<in> {W_Spin i timeout start, W_Msleep i timeout start}" by auto
  then show ?case
  proof
    assume "pc \<in> {W_Spin i timeout start, W_Msleep i timeout start}"
    with Suc.IH w show ?thesis by (auto intro: less_SucI)
  qed blast
qed

lemma ticking_clock:
  assumes "worker_run m2j (\<lambda>k. (of_nat k, False)) N (W_Loop, x) = (W_Loop, (ts, ac))" and "a_task_queue ac = []"
    and "N < 2 ^ 32"
  shows "sleeps_advance m2j (\<lambda>k. (of_nat k, False)) (W_Loop, x)"
  unfolding sleeps_advance_def
proof (intro allI impI)
  fix n i timeout start
  let ?env = "\<lambda>k. (of_nat k :: u64, False)"
  assume spin: "fst (worker_run m2j ?env n (W_Loop, x)) = W_Spin i timeout start"
  have "n < N"
  proof (rule ccontr)
    assume "\<not> n < N"
    then have "worker_run m2j ?env n (W_Loop, x) = worker_run m2j (\<lambda>k. ?env (N + k)) (n - N) (W_Loop, (ts, ac))"
      using worker_run_add [of m2j ?env N "n - N" "(W_Loop, x)"] assms(1) by simp
    with spin idle_stays [OF assms(2), of W_Loop m2j "\<lambda>k. ?env (N + k)" "n - N" ts] show False by simp
  qed
  with assms(3) have n: "n + 2 < 2 ^ 64" by simp
  obtain m where m: "m < n" "start = of_nat m" using start_from_env [of m2j ?env n x i timeout start] spin by auto
  have "unat (of_nat k - of_nat m :: u64) = k - m" if "m \<le> k" "k < 2 ^ 64" for k
    using that by (simp add: unat_of_nat flip: of_nat_diff)
  from this [of n] this [of "Suc (Suc n)"] m n
  show "unat (fst (?env n) - start) < unat (fst (?env (Suc (Suc n))) - start)" by (simp del: of_nat_Suc)
qed

text \<open>One task from the head of the queue to its completion, with no interference.\<close>

lemma worker_reaches_stamp:
  assumes "sleeps_advance m2j env (W_Start i, (ts, ac))"
  shows "\<exists>n. worker_run m2j env n (W_Start i, (ts, ac)) = (W_Stamp i, (ts, ac))"
proof (cases "t_timeout_ms (ts ! i) > 0")
  case True
  let ?T = "m2j (t_timeout_ms (ts ! i))"
  have start: "worker_run m2j env 1 (W_Start i, (ts, ac)) = (W_Spin i ?T (fst (env 0)), (ts, ac))" using True by simp
  from spin_exits [OF sleeps_advance_shift [OF assms start], of "unat ?T"] obtain n where
    "worker_run m2j (\<lambda>k. env (1 + k)) n (W_Spin i ?T (fst (env 0)), (ts, ac)) = (W_Stamp i, (ts, ac))" by auto
  then have "worker_run m2j env (1 + n) (W_Start i, (ts, ac)) = (W_Stamp i, (ts, ac))"
    by (simp only: worker_run_add start)
  then show ?thesis by blast
next
  case False
  then have "worker_run m2j env (Suc (Suc 0)) (W_Start i, (ts, ac)) = (W_Stamp i, (ts, ac))"
    by simp
  then show ?thesis by blast
qed

lemma worker_finishes:
  assumes "i < length ts"
  shows "worker_run m2j env 6 (W_Stamp i, (ts, ac)) =
    (W_Loop, (upd_task i (\<lambda>t. t\<lparr>t_complete_jiffies := fst (env 0), t_state := TASK_STATE_COMPLETE,
                              t_error_code := 0, t_done := True\<rparr>) ts,
              ac\<lparr>a_load_percent := load_down (a_load_percent ac),
                 a_active_tasks := list_del i (a_active_tasks ac)\<rparr>))"
  using assms by (simp add: numeral_eq_Suc upd_task_def)

lemma worker_takes_head:
  assumes "a_task_queue ac = i # q" and "i < length ts"
  shows "worker_run m2j env 3 (W_Lock, (ts, ac)) =
    (W_Start i, (upd_task i (\<lambda>t. t\<lparr>t_state := TASK_STATE_RUNNING\<rparr>) ts,
              ac\<lparr>a_task_queue := q, a_active_tasks := list_add_tail i (a_active_tasks ac),
                 a_load_percent := load_up (a_load_percent ac)\<rparr>))"
  using assms by (simp add: numeral_eq_Suc list_defs)

lemma worker_pass:
  assumes q: "a_task_queue ac = i # q" and i: "i < length ts" and act: "a_active_tasks ac = []"
    and load: "a_load_percent ac \<le> 90"
    and n: "worker_run m2j (\<lambda>k. env (3 + k)) n (W_Start i, (ts1, ac1)) = (W_Stamp i, (ts1, ac1))"
    and ts1: "ts1 = upd_task i (\<lambda>t. t\<lparr>t_state := TASK_STATE_RUNNING\<rparr>) ts"
    and ac1: "ac1 = ac\<lparr>a_task_queue := q, a_active_tasks := [i], a_load_percent := load_up (a_load_percent ac)\<rparr>"
  shows "worker_run m2j env (3 + (n + 6)) (W_Lock, (ts, ac)) =
    (W_Loop, (upd_task i (\<lambda>t. t\<lparr>t_complete_jiffies := fst (env (3 + n)), t_state := TASK_STATE_COMPLETE,
                              t_error_code := 0, t_done := True\<rparr>) ts,
              ac\<lparr>a_task_queue := q\<rparr>))"
proof -
  have three: "worker_run m2j env 3 (W_Lock, (ts, ac)) = (W_Start i, (ts1, ac1))"
    unfolding worker_takes_head [OF q i] by (simp add: ts1 ac1 act list_add_tail_def)
  have i1: "i < length ts1" using i by (simp add: ts1)
  have "worker_run m2j env (3 + (n + 6)) (W_Lock, (ts, ac)) =
    worker_run m2j (\<lambda>k. env (3 + (n + k))) 6 (W_Stamp i, (ts1, ac1))"
    by (simp only: worker_run_add three n)
  also have "\<dots> = (W_Loop, (upd_task i (\<lambda>t. t\<lparr>t_complete_jiffies := fst (env (3 + (n + 0))),
      t_state := TASK_STATE_COMPLETE, t_error_code := 0, t_done := True\<rparr>) ts,
      ac\<lparr>a_task_queue := q\<rparr>))"
    unfolding worker_finishes [OF i1]
    using i act load_down_up [OF load] by (simp add: ts1 ac1 upd_task_def list_del_def)
  finally show ?thesis by simp
qed

lemma worker_processes_head:
  assumes q: "a_task_queue ac = i # q" and i: "i < length ts" and act: "a_active_tasks ac = []"
    and load: "a_load_percent ac \<le> 90"
    and clk: "sleeps_advance m2j env (W_Lock, (ts, ac))"
  shows "\<exists>n c. worker_run m2j env n (W_Lock, (ts, ac)) =
    (W_Loop, (upd_task i (\<lambda>t. t\<lparr>t_complete_jiffies := c, t_state := TASK_STATE_COMPLETE,
                              t_error_code := 0, t_done := True\<rparr>) ts,
              ac\<lparr>a_task_queue := q\<rparr>))"
proof -
  let ?ts = "upd_task i (\<lambda>t. t\<lparr>t_state := TASK_STATE_RUNNING\<rparr>) ts"
  let ?ac = "ac\<lparr>a_task_queue := q, a_active_tasks := [i], a_load_percent := load_up (a_load_percent ac)\<rparr>"
  have "worker_run m2j env 3 (W_Lock, (ts, ac)) = (W_Start i, (?ts, ?ac))"
    unfolding worker_takes_head [OF q i] by (simp add: act list_add_tail_def)
  from worker_reaches_stamp [OF sleeps_advance_shift [OF clk this]] obtain n where
    "worker_run m2j (\<lambda>k. env (3 + k)) n (W_Start i, (?ts, ?ac)) = (W_Stamp i, (?ts, ?ac))" by blast
  from worker_pass [OF q i act load this refl refl] show ?thesis by blast
qed

lemma worker_reaches_lock:
  "a_running ac \<noteq> 0 \<Longrightarrow> worker_run m2j env 3 (W_Loop, (ts, ac)) = (W_Lock, (ts, ac))"
  by (simp add: numeral_3_eq_3)

text \<open>A pass in which the timeout loop tests the clock twice: readings 7 and 9 against the start, reading 6.\<close>

lemma two_tests:
  assumes "t_timeout_ms (ts ! i) > 0" and "t_state (ts ! i) = TASK_STATE_RUNNING"
    and "fst (env 1) - fst (env 0) < m2j (t_timeout_ms (ts ! i))" and "\<not> snd (env 2)"
    and "\<not> fst (env 3) - fst (env 0) < m2j (t_timeout_ms (ts ! i))"
  shows "worker_run m2j env 4 (W_Start i, (ts, ac)) = (W_Stamp i, (ts, ac))"
proof -
  have "worker_run m2j env (Suc (Suc (Suc (Suc 0)))) (W_Start i, (ts, ac)) = (W_Stamp i, (ts, ac))"
    using assms by (simp add: numeral_2_eq_2 numeral_3_eq_3)
  moreover have "Suc (Suc (Suc (Suc 0))) = 4" by simp
  ultimately show ?thesis by metis
qed

lemma timed_pass:
  assumes "a_task_queue ac = i # q" and "i < length ts" and "a_active_tasks ac = []" and "a_load_percent ac \<le> 90"
    and "a_running ac \<noteq> 0" and "t_timeout_ms (ts ! i) > 0"
    and "fst (env 7) - fst (env 6) < m2j (t_timeout_ms (ts ! i))" and "\<not> snd (env 8)"
    and "\<not> fst (env 9) - fst (env 6) < m2j (t_timeout_ms (ts ! i))"
  shows "worker_run m2j env 16 (W_Loop, (ts, ac)) =
    (W_Loop, (upd_task i (\<lambda>t. t\<lparr>t_complete_jiffies := fst (env 10), t_state := TASK_STATE_COMPLETE,
       t_error_code := 0, t_done := True\<rparr>) ts, ac\<lparr>a_task_queue := q\<rparr>))"
proof -
  let ?ts = "upd_task i (\<lambda>t. t\<lparr>t_state := TASK_STATE_RUNNING\<rparr>) ts"
  let ?ac = "ac\<lparr>a_task_queue := q, a_active_tasks := [i], a_load_percent := load_up (a_load_percent ac)\<rparr>"
  have "worker_run m2j (\<lambda>k. env (3 + (3 + k))) 4 (W_Start i, (?ts, ?ac)) = (W_Stamp i, (?ts, ?ac))"
    by (rule two_tests) (use assms(2,6-9) in \<open>simp_all add: nth_upd_task\<close>)
  from worker_pass [where env = "\<lambda>k. env (3 + k)", OF assms(1-4) this refl refl]
  have "worker_run m2j env (3 + (3 + (4 + 6))) (W_Loop, (ts, ac)) =
    (W_Loop, (upd_task i (\<lambda>t. t\<lparr>t_complete_jiffies := fst (env (3 + (3 + 4))), t_state := TASK_STATE_COMPLETE,
       t_error_code := 0, t_done := True\<rparr>) ts, ac\<lparr>a_task_queue := q\<rparr>))"
    unfolding worker_run_add [of _ _ 3] worker_reaches_lock [OF assms(5)] .
  then show ?thesis by simp
qed

section \<open>Lemmas on starting and stopping\<close>

abbreviation stopped :: "cortex_forge_accel \<Rightarrow> cortex_forge_accel" where
  "stopped a \<equiv> a\<lparr>a_running := 0, a_worker_thread := NULL\<rparr>"

definition stop_calls :: "cortex_forge_accel list \<Rightarrow> nat \<Rightarrow> kcall list" where
  "stop_calls as i = (if a_worker_thread (as ! i) \<noteq> NULL
     then [Wake_Up i, Kthread_Stop (a_worker_thread (as ! i))] else [])"

definition stop_one :: "nat \<Rightarrow> cortex_forge_accel list \<Rightarrow> cortex_forge_accel list" where
  "stop_one i as = (if a_worker_thread (as ! i) \<noteq> NULL then upd_accel i stopped as else as)"

lemma length_stop_one [simp]: "length (stop_one i as) = length as"
  by (simp add: stop_one_def)

lemma nth_stop_one:
  "i < length as \<Longrightarrow> stop_one i as ! j =
     (if j = i \<and> a_worker_thread (as ! i) \<noteq> NULL then stopped (as ! i) else as ! j)"
  by (simp add: stop_one_def nth_upd_accel)

lemma accel_stop_from_Cons:
  assumes "i < length as"
  shows "accel_stop_from (i # is) as =
    (fst (accel_stop_from is (stop_one i as)), stop_calls as i @ snd (accel_stop_from is (stop_one i as)))"
proof -
  have "upd_accel i (\<lambda>a. a\<lparr>a_worker_thread := NULL\<rparr>) (upd_accel i (\<lambda>a. a\<lparr>a_running := 0\<rparr>) as) =
      upd_accel i stopped as"
    using assms by (simp add: upd_accel_def)
  with assms show ?thesis
    by (simp add: Let_def stop_calls_def stop_one_def nth_upd_accel split: prod.splits)
qed

declare accel_stop_from.simps(2) [simp del]

lemma accel_stop_from_calls:
  "distinct is \<Longrightarrow> \<forall>i \<in> set is. i < length as \<Longrightarrow>
   snd (accel_stop_from is as) = concat (map (stop_calls as) is)"
proof (induction "is" arbitrary: as)
  case Nil
  then show ?case by simp
next
  case (Cons i "is")
  have "snd (accel_stop_from is (stop_one i as)) = concat (map (stop_calls (stop_one i as)) is)"
    by (rule Cons.IH) (use Cons.prems in auto)
  also have "map (stop_calls (stop_one i as)) is = map (stop_calls as) is"
    by (rule map_cong) (use Cons.prems in \<open>auto simp: stop_calls_def nth_stop_one\<close>)
  finally show ?case
    using Cons.prems by (simp add: accel_stop_from_Cons)
qed

lemma accel_stop_from_state:
  "distinct is \<Longrightarrow> \<forall>i \<in> set is. i < length as \<Longrightarrow>
   length (fst (accel_stop_from is as)) = length as \<and>
   (\<forall>j < length as. fst (accel_stop_from is as) ! j =
      (if j \<in> set is \<and> a_worker_thread (as ! j) \<noteq> NULL then stopped (as ! j) else as ! j))"
proof (induction "is" arbitrary: as)
  case Nil
  then show ?case by simp
next
  case (Cons i "is")
  have i: "i < length as" "i \<notin> set is" using Cons.prems by auto
  have IH: "length (fst (accel_stop_from is (stop_one i as))) = length (stop_one i as) \<and>
    (\<forall>j < length (stop_one i as). fst (accel_stop_from is (stop_one i as)) ! j =
      (if j \<in> set is \<and> a_worker_thread (stop_one i as ! j) \<noteq> NULL
       then stopped (stop_one i as ! j) else stop_one i as ! j))"
    by (rule Cons.IH) (use Cons.prems in auto)
  show ?case
  proof (intro conjI allI impI)
    show "length (fst (accel_stop_from (i # is) as)) = length as"
      using IH i by (simp add: accel_stop_from_Cons)
  next
    fix j assume "j < length as"
    with IH have "fst (accel_stop_from is (stop_one i as)) ! j =
      (if j \<in> set is \<and> a_worker_thread (stop_one i as ! j) \<noteq> NULL
       then stopped (stop_one i as ! j) else stop_one i as ! j)"
      by (metis length_stop_one)
    with i show "fst (accel_stop_from (i # is) as) ! j =
      (if j \<in> set (i # is) \<and> a_worker_thread (as ! j) \<noteq> NULL then stopped (as ! j) else as ! j)"
      by (cases "j = i") (simp_all add: accel_stop_from_Cons nth_stop_one)
  qed
qed

end
