(* ===== verification/Chardev.thy ===== *)
theory Chardev
  imports Accel_Manager
begin

text \<open>
  \<^verbatim>\<open>src/chardev.c\<close>: the character device's \<open>open\<close>, \<open>release\<close> and \<open>unlocked_ioctl\<close>. A handler
  takes the user-memory functions, the kernel's \<open>HZ\<close>, the clock, the device and the user
  memory, and returns the C return value with the new device and memory. Log messages are not
  modelled. \<open>dev_inv\<close> is the invariant that every system call keeps.
\<close>

section \<open>Handlers\<close>

record filp =
  private_data :: kptr

text \<open>A device is identified by the number of the object that embeds the opened \<open>cdev\<close>.\<close>

definition cortex_forge_open :: "nat \<Rightarrow> filp \<Rightarrow> int \<times> filp" where
  "cortex_forge_open i_cdev filp = (0, filp\<lparr>private_data := PTR i_cdev\<rparr>)"

definition cortex_forge_release :: "filp \<Rightarrow> int \<times> filp" where
  "cortex_forge_release filp = (0, filp)"

text \<open>The assignments that move a descriptor into the allocated task.\<close>

definition fill_task :: "cortex_forge_task_desc \<Rightarrow> cortex_forge_task \<Rightarrow> cortex_forge_task" where
  "fill_task desc t = t\<lparr>
     t_accel_type := td_accel_type desc,
     t_priority := td_priority desc,
     t_input_addr := td_input_addr desc,
     t_input_size := td_input_size desc,
     t_output_addr := td_output_addr desc,
     t_output_size := td_output_size desc,
     t_timeout_ms := td_timeout_ms desc\<rparr>"

text \<open>The checks on a descriptor, in their order: the error of the first that fails.\<close>

definition check_desc :: "cortex_forge_task_desc \<Rightarrow> errno option" where
  "check_desc desc =
     (if unat (td_accel_type desc) \<ge> NUM_ACCELERATORS then Some EINVAL
      else if td_flags desc \<noteq> 0 then Some EINVAL
      else if td_input_size desc > 64 * 1024 * 1024 then Some E2BIG
      else if td_output_size desc > 64 * 1024 * 1024 then Some E2BIG
      else None)"

definition submit_desc :: "u64 \<Rightarrow> cortex_forge_task_desc \<Rightarrow> cortex_forge_dev \<Rightarrow>
    int \<times> nat \<times> cortex_forge_dev" where
  "submit_desc now desc dev =
     (case task_alloc (tasks dev, free_tasks dev, next_task_id dev) of
        (None, _) \<Rightarrow> (neg_errno ENOMEM, 0, dev)
      | (Some i, (ts, fl, nid)) \<Rightarrow>
          let a = unat (td_accel_type desc);
              ts1 = upd_task i (fill_task desc) ts;
              (ret, (ts2, ac)) = task_submit now i (ts1, accelerators dev ! a);
              dev1 = dev\<lparr>tasks := ts2, free_tasks := fl, next_task_id := nid,
                        accelerators := (accelerators dev)[a := ac]\<rparr>
          in if ret \<noteq> 0 then
               (let (ts3, fl3) = task_free i (tasks dev1, free_tasks dev1)
                in (ret, i, dev1\<lparr>tasks := ts3, free_tasks := fl3\<rparr>))
             else (0, i, dev1))"

definition ioctl_submit_task :: "'m uaccess \<Rightarrow> u64 \<Rightarrow> cortex_forge_dev \<Rightarrow> 'm \<Rightarrow> u64 \<Rightarrow>
    int \<times> cortex_forge_dev \<times> 'm" where
  "ioctl_submit_task ua now dev m uarg =
     (case copy_from_user ua m uarg (sizeof task_desc_decl) of
        None \<Rightarrow> (neg_errno EFAULT, dev, m)
      | Some bs \<Rightarrow>
          let desc = dec_task_desc bs in
          case check_desc desc of
            Some e \<Rightarrow> (neg_errno e, dev, m)
          | None \<Rightarrow>
              let (ret, i, dev1) = submit_desc now desc dev in
              if ret \<noteq> 0 then (ret, dev1, m)
              else
                let desc1 = desc\<lparr>td_task_id := t_id (tasks dev1 ! i)\<rparr>;
                    (m1, ok) = copy_to_user ua m uarg (enc_task_desc desc1)
                in if \<not> ok then (neg_errno EFAULT, dev1, m1) else (0, dev1, m1))"

definition ioctl_query_task :: "'m uaccess \<Rightarrow> u64 \<Rightarrow> cortex_forge_dev \<Rightarrow> 'm \<Rightarrow> u64 \<Rightarrow>
    int \<times> cortex_forge_dev \<times> 'm" where
  "ioctl_query_task ua hz dev m uarg =
     (case copy_from_user ua m uarg (sizeof task_status_decl) of
        None \<Rightarrow> (neg_errno EFAULT, dev, m)
      | Some bs \<Rightarrow>
          let (ret, m1) = task_query ua hz (tasks dev) (ts_task_id (dec_task_status bs)) uarg m
          in (ret, dev, m1))"

definition ioctl_cancel_task :: "'m uaccess \<Rightarrow> cortex_forge_dev \<Rightarrow> 'm \<Rightarrow> u64 \<Rightarrow>
    int \<times> cortex_forge_dev \<times> 'm" where
  "ioctl_cancel_task ua dev m uarg =
     (case copy_from_user ua m uarg 4 of
        None \<Rightarrow> (neg_errno EFAULT, dev, m)
      | Some bs \<Rightarrow>
          let (ret, ts) = task_cancel (tasks dev) (le_get 4 0 bs) in (ret, dev\<lparr>tasks := ts\<rparr>, m))"

definition ioctl_get_accel_info :: "'m uaccess \<Rightarrow> cortex_forge_dev \<Rightarrow> 'm \<Rightarrow> u64 \<Rightarrow>
    int \<times> cortex_forge_dev \<times> 'm" where
  "ioctl_get_accel_info ua dev m uarg =
     (case copy_from_user ua m uarg (sizeof accel_info_decl) of
        None \<Rightarrow> (neg_errno EFAULT, dev, m)
      | Some bs \<Rightarrow>
          let info = dec_accel_info bs in
          if unat (ai_accel_type info) \<ge> NUM_ACCELERATORS then (neg_errno EINVAL, dev, m)
          else
            let accel = accelerators dev ! unat (ai_accel_type info);
                info1 = accel_get_info accel info;
                (m1, ok) = copy_to_user ua m uarg (enc_accel_info info1)
            in if \<not> ok then (neg_errno EFAULT, dev, m1) else (0, dev, m1))"

definition ioctl_set_power :: "'m uaccess \<Rightarrow> cortex_forge_dev \<Rightarrow> 'm \<Rightarrow> u64 \<Rightarrow>
    int \<times> cortex_forge_dev \<times> 'm" where
  "ioctl_set_power ua dev m uarg =
     (case copy_from_user ua m uarg 4 of
        None \<Rightarrow> (neg_errno EFAULT, dev, m)
      | Some bs \<Rightarrow>
          let mode = (le_get 4 0 bs :: u32) in
          if mode > 2 then (neg_errno EINVAL, dev, m) else (0, dev, m))"

definition ioctl_get_version :: "'m uaccess \<Rightarrow> cortex_forge_dev \<Rightarrow> 'm \<Rightarrow> u64 \<Rightarrow>
    int \<times> cortex_forge_dev \<times> 'm" where
  "ioctl_get_version ua dev m uarg =
     (let version = (0x00010000 :: u32);
          (m1, ok) = copy_to_user ua m uarg (bytes4 version)
      in if \<not> ok then (neg_errno EFAULT, dev, m1) else (0, dev, m1))"

definition profile_metrics :: cortex_forge_profile_metrics where
  "profile_metrics = \<lparr>pm_compute_us = 1000, pm_memory_us = 500, pm_storage_us = 200,
     pm_network_us = 300, pm_thermal_celsius = 45, pm_power_mw = 15000, pm_reserved = [0, 0, 0, 0]\<rparr>"

definition ioctl_get_profile :: "'m uaccess \<Rightarrow> cortex_forge_dev \<Rightarrow> 'm \<Rightarrow> u64 \<Rightarrow>
    int \<times> cortex_forge_dev \<times> 'm" where
  "ioctl_get_profile ua dev m uarg =
     (let (m1, ok) = copy_to_user ua m uarg (enc_profile_metrics profile_metrics)
      in if \<not> ok then (neg_errno EFAULT, dev, m1) else (0, dev, m1))"

definition ioctl_set_accel :: "'m uaccess \<Rightarrow> cortex_forge_dev \<Rightarrow> 'm \<Rightarrow> u64 \<Rightarrow>
    int \<times> cortex_forge_dev \<times> 'm" where
  "ioctl_set_accel ua dev m uarg =
     (case copy_from_user ua m uarg 4 of
        None \<Rightarrow> (neg_errno EFAULT, dev, m)
      | Some bs \<Rightarrow>
          let accel = (le_get 4 0 bs :: u32) in
          if accel > 4 then (neg_errno EINVAL, dev, m) else (0, dev, m))"

definition cortex_forge_ioctl :: "'m uaccess \<Rightarrow> u64 \<Rightarrow> u64 \<Rightarrow> cortex_forge_dev \<Rightarrow> 'm \<Rightarrow> u32 \<Rightarrow>
    u64 \<Rightarrow> int \<times> cortex_forge_dev \<times> 'm" where
  "cortex_forge_ioctl ua hz now dev m cmd arg =
     (if cmd = CORTEX_FORGE_IOCTL_SUBMIT_TASK then ioctl_submit_task ua now dev m arg
      else if cmd = CORTEX_FORGE_IOCTL_QUERY_TASK then ioctl_query_task ua hz dev m arg
      else if cmd = CORTEX_FORGE_IOCTL_CANCEL_TASK then ioctl_cancel_task ua dev m arg
      else if cmd = CORTEX_FORGE_IOCTL_GET_ACCEL_INFO then ioctl_get_accel_info ua dev m arg
      else if cmd = CORTEX_FORGE_IOCTL_SET_POWER then ioctl_set_power ua dev m arg
      else if cmd = CORTEX_FORGE_IOCTL_GET_VERSION then ioctl_get_version ua dev m arg
      else if cmd = CORTEX_FORGE_IOCTL_GET_PROFILE then ioctl_get_profile ua dev m arg
      else if cmd = CORTEX_FORGE_IOCTL_SET_ACCEL then ioctl_set_accel ua dev m arg
      else (neg_errno ENOTTY, dev, m))"

lemmas read_only_handlers =
  ioctl_query_task_def ioctl_get_accel_info_def ioctl_set_power_def ioctl_get_version_def
  ioctl_get_profile_def ioctl_set_accel_def

section \<open>The invariant\<close>

text \<open>
  Shape of the arrays; the free list holds exactly the slots in state \<open>FREE\<close>, once each; the
  identifiers of the others are distinct and lie between 1 and the counter, and every
  identifier handed out is one slot gone from the free list; the work queues hold slots in
  use, each on the accelerator the task names.
\<close>

definition pool_inv :: "cortex_forge_task list \<Rightarrow> nat list \<Rightarrow> u32 \<Rightarrow> bool" where
  "pool_inv ts fl nid \<longleftrightarrow>
     length ts = MAX_TASKS \<and> distinct fl \<and> (\<forall>i \<in> set fl. i < MAX_TASKS) \<and>
     (\<forall>i < MAX_TASKS. t_state (ts ! i) = TASK_STATE_FREE \<longleftrightarrow> i \<in> set fl) \<and>
     unat nid + length fl = MAX_TASKS \<and>
     (\<forall>i < MAX_TASKS. i \<notin> set fl \<longrightarrow> 1 \<le> unat (t_id (ts ! i)) \<and> unat (t_id (ts ! i)) \<le> unat nid) \<and>
     (\<forall>i < MAX_TASKS. \<forall>j < MAX_TASKS. i \<notin> set fl \<longrightarrow> j \<notin> set fl \<longrightarrow>
        t_id (ts ! i) = t_id (ts ! j) \<longrightarrow> i = j)"

definition queue_inv :: "cortex_forge_task list \<Rightarrow> nat list \<Rightarrow> nat \<Rightarrow> cortex_forge_accel \<Rightarrow> bool" where
  "queue_inv ts fl a ac \<longleftrightarrow>
     distinct (a_task_queue ac) \<and>
     (\<forall>i \<in> set (a_task_queue ac). i < MAX_TASKS \<and> i \<notin> set fl \<and> unat (t_accel_type (ts ! i)) = a)"

definition dev_inv :: "cortex_forge_dev \<Rightarrow> bool" where
  "dev_inv d \<longleftrightarrow>
     pool_inv (tasks d) (free_tasks d) (next_task_id d) \<and>
     length (accelerators d) = NUM_ACCELERATORS \<and>
     (\<forall>a < NUM_ACCELERATORS. queue_inv (tasks d) (free_tasks d) a (accelerators d ! a))"

lemma NUM_ACCELERATORS_pos [simp]: "0 < NUM_ACCELERATORS"
  by (simp add: NUM_ACCELERATORS_def)

section \<open>Lemmas\<close>

text \<open>Submission in closed form, on each of its two outcomes.\<close>

definition submitted :: "u64 \<Rightarrow> u32 \<Rightarrow> cortex_forge_task_desc \<Rightarrow> cortex_forge_task" where
  "submitted now tid desc =
     (fill_task desc (zero_task\<lparr>t_id := tid\<rparr>))\<lparr>t_state := TASK_STATE_PENDING, t_submit_jiffies := now\<rparr>"

lemma submit_desc_exhausted:
  "free_tasks dev = [] \<Longrightarrow> submit_desc now desc dev = (neg_errno ENOMEM, 0, dev)"
  by (simp add: submit_desc_def task_alloc_def list_empty_def)

lemma submit_desc_ok:
  assumes "free_tasks dev = i # fl" and "i < length (tasks dev)" and "check_desc desc = None"
  shows "submit_desc now desc dev =
    (0, i, dev\<lparr>tasks := (tasks dev)[i := submitted now (next_task_id dev + 1) desc],
              free_tasks := fl,
              next_task_id := next_task_id dev + 1,
              accelerators := upd_accel (unat (td_accel_type desc))
                (\<lambda>ac. ac\<lparr>a_task_queue := a_task_queue ac @ [i]\<rparr>) (accelerators dev)\<rparr>)"
proof -
  have "\<not> NUM_ACCELERATORS \<le> unat (td_accel_type desc)"
    using assms(3) by (auto simp: check_desc_def split: if_splits)
  with assms(1,2) show ?thesis
    by (simp add: submit_desc_def task_alloc_def list_defs Let_def upd_task_def upd_accel_def
        task_submit_def fill_task_def submitted_def zero_task_def)
qed

lemma pool_inv_alloc:
  assumes p: "pool_inv ts (i # fl) nid" and s: "t_id t = nid + 1" "t_state t \<noteq> TASK_STATE_FREE"
  shows "pool_inv (ts[i := t]) fl (nid + 1)"
proof -
  from p have i: "i < MAX_TASKS" "i \<notin> set fl" "length ts = MAX_TASKS" and
    n: "unat nid + Suc (length fl) = MAX_TASKS"
    by (auto simp: pool_inv_def)
  have nid: "unat (nid + 1) = Suc (unat nid)"
    using n by (simp add: unat_word_ariths MAX_TASKS_def)
  have fresh: "t_id (ts ! j) \<noteq> nid + 1" if "j < MAX_TASKS" "j \<noteq> i" "j \<notin> set fl" for j
  proof -
    have "unat (t_id (ts ! j)) \<le> unat nid"
      using p that by (auto simp: pool_inv_def)
    then show ?thesis using nid by (metis Suc_n_not_le_n)
  qed
  have ids: "1 \<le> unat (t_id (ts[i := t] ! j)) \<and> unat (t_id (ts[i := t] ! j)) \<le> unat (nid + 1)"
    if "j < MAX_TASKS" "j \<notin> set fl" for j
  proof (cases "j = i")
    case True
    then show ?thesis using i s nid by simp
  next
    case False
    then have "1 \<le> unat (t_id (ts ! j)) \<and> unat (t_id (ts ! j)) \<le> unat nid"
      using p that by (auto simp: pool_inv_def)
    then show ?thesis using False nid by simp
  qed
  have inj: "j = k" if "j < MAX_TASKS" "k < MAX_TASKS" "j \<notin> set fl" "k \<notin> set fl"
    "t_id (ts[i := t] ! j) = t_id (ts[i := t] ! k)" for j k
  proof (cases "j = i \<or> k = i")
    case True
    then show ?thesis using that fresh i s by (metis nth_list_update_eq nth_list_update_neq)
  next
    case False
    then show ?thesis using that p by (auto simp: pool_inv_def)
  qed
  have st: "t_state (ts[i := t] ! j) = TASK_STATE_FREE \<longleftrightarrow> j \<in> set fl" if "j < MAX_TASKS" for j
    using that p i s(2) by (cases "j = i") (auto simp: pool_inv_def)
  show ?thesis
    unfolding pool_inv_def using p i n nid ids inj st by (auto simp: pool_inv_def)
qed

text \<open>Writes that keep the identifiers, the target and whether a slot is free keep the invariant.\<close>

lemma pool_inv_update:
  assumes "pool_inv ts fl nid" and "t_id t = t_id (ts ! i)"
    and "t_state t = TASK_STATE_FREE \<longleftrightarrow> t_state (ts ! i) = TASK_STATE_FREE"
  shows "pool_inv (ts[i := t]) fl nid"
proof (cases "i < length ts")
  case True
  then have same: "t_id (ts[i := t] ! j) = t_id (ts ! j)"
    "t_state (ts[i := t] ! j) = TASK_STATE_FREE \<longleftrightarrow> t_state (ts ! j) = TASK_STATE_FREE" for j
    using assms(2,3) by (cases "j = i", simp_all)+
  show ?thesis using assms(1) by (simp add: pool_inv_def same)
next
  case False
  then show ?thesis using assms(1) by (simp add: list_update_beyond)
qed

lemma check_desc_NoneD:
  assumes "check_desc desc = None"
  shows "unat (td_accel_type desc) < NUM_ACCELERATORS" and "td_flags desc = 0"
    and "td_input_size desc \<le> 64 * 1024 * 1024" and "td_output_size desc \<le> 64 * 1024 * 1024"
  using assms by (auto simp: check_desc_def not_le not_less split: if_splits)

lemma submitted_fields [simp]:
  "t_id (submitted now tid desc) = tid" "t_state (submitted now tid desc) = TASK_STATE_PENDING"
  "t_accel_type (submitted now tid desc) = td_accel_type desc"
  "t_submit_jiffies (submitted now tid desc) = now"
  "t_error_code (submitted now tid desc) = 0" "t_complete_jiffies (submitted now tid desc) = 0"
  "t_done (submitted now tid desc) = False" "t_timeout_ms (submitted now tid desc) = td_timeout_ms desc"
  by (simp_all add: submitted_def fill_task_def zero_task_def)

lemma dev_inv_lengths [simp]:
  "dev_inv d \<Longrightarrow> length (tasks d) = MAX_TASKS" "dev_inv d \<Longrightarrow> length (accelerators d) = NUM_ACCELERATORS"
  by (simp_all add: dev_inv_def pool_inv_def)

lemma pool_inv_free:
  assumes "pool_inv ts fl nid"
  shows "distinct fl" and "i \<in> set fl \<Longrightarrow> i < MAX_TASKS" and "unat nid + length fl = MAX_TASKS"
  using assms by (simp_all add: pool_inv_def)

lemma dev_inv_pool: "dev_inv d \<Longrightarrow> pool_inv (tasks d) (free_tasks d) (next_task_id d)"
  by (simp add: dev_inv_def)

lemma dev_inv_queue:
  "dev_inv d \<Longrightarrow> a < NUM_ACCELERATORS \<Longrightarrow> queue_inv (tasks d) (free_tasks d) a (accelerators d ! a)"
  by (simp add: dev_inv_def)

lemma dev_inv_free:
  assumes "dev_inv d" and "i \<in> set (free_tasks d)"
  shows "i < MAX_TASKS"
  using pool_inv_free(2) [OF dev_inv_pool [OF assms(1)] assms(2)] .

lemma dev_inv_submit [forge_wf]:
  assumes inv: "dev_inv d" and fl: "free_tasks d = i # fl" and ok: "check_desc desc = None"
  shows "dev_inv (snd (snd (submit_desc now desc d)))"
proof -
  let ?a = "unat (td_accel_type desc)" and ?t = "submitted now (next_task_id d + 1) desc"
  have i: "i < MAX_TASKS" and a: "?a < NUM_ACCELERATORS"
    using dev_inv_free [OF inv] fl check_desc_NoneD [OF ok] by auto
  have pool: "pool_inv ((tasks d)[i := ?t]) fl (next_task_id d + 1)"
    by (rule pool_inv_alloc) (use dev_inv_pool [OF inv] fl in simp_all)
  have old: "queue_inv (tasks d) (i # fl) b (accelerators d ! b)" if "b < NUM_ACCELERATORS" for b
    using dev_inv_queue [OF inv that] fl by simp
  have "i \<notin> set fl" using pool_inv_free(1) [OF dev_inv_pool [OF inv]] fl by simp
  then have "queue_inv ((tasks d)[i := ?t]) fl b
     (upd_accel ?a (\<lambda>ac. ac\<lparr>a_task_queue := a_task_queue ac @ [i]\<rparr>) (accelerators d) ! b)"
    if "b < NUM_ACCELERATORS" for b
    using old [OF that] a i dev_inv_lengths [OF inv]
    by (auto simp: queue_inv_def nth_upd_accel nth_list_update)
  with pool i dev_inv_lengths [OF inv] show ?thesis
    by (simp add: submit_desc_ok [OF fl _ ok] dev_inv_def)
qed

lemma submit_desc_cases:
  assumes inv: "dev_inv d" and ok: "check_desc desc = None"
  obtains "free_tasks d = []" "submit_desc now desc d = (neg_errno ENOMEM, 0, d)"
  | i fl d' where "free_tasks d = i # fl" "i < MAX_TASKS" "submit_desc now desc d = (0, i, d')"
      "dev_inv d'" "free_tasks d' = fl" "next_task_id d' = next_task_id d + 1"
      "tasks d' = (tasks d)[i := submitted now (next_task_id d + 1) desc]"
      "accelerators d' = upd_accel (unat (td_accel_type desc))
         (\<lambda>ac. ac\<lparr>a_task_queue := a_task_queue ac @ [i]\<rparr>) (accelerators d)"
proof (cases "free_tasks d")
  case Nil
  with that(1) submit_desc_exhausted [of d now desc] show thesis by simp
next
  case (Cons i fl)
  have i: "i < MAX_TASKS" using dev_inv_free [OF inv] Cons by simp
  note eq = submit_desc_ok [OF Cons _ ok, unfolded dev_inv_lengths(1) [OF inv], OF i, of now]
  show thesis
    by (rule that(2) [OF Cons i eq]) (use dev_inv_submit [OF inv Cons ok, of now] eq in simp_all)
qed

lemma dev_inv_cancel [forge_wf]:
  assumes inv: "dev_inv d"
  shows "dev_inv (d\<lparr>tasks := snd (task_cancel (tasks d) task_id)\<rparr>)"
proof (cases "task_lookup (tasks d) task_id 0")
  case None
  then show ?thesis using inv by (simp add: task_cancel_def)
next
  case (Some i)
  let ?c = "\<lambda>t. t\<lparr>t_state := TASK_STATE_CANCELLED, t_error_code := word_of_int (neg_errno ECANCELED),
                  t_done := True\<rparr>"
  have pool: "pool_inv ((tasks d)[i := ?c (tasks d ! i)]) (free_tasks d) (next_task_id d)"
    by (rule pool_inv_update)
      (use dev_inv_pool [OF inv] task_lookup_SomeD(3) [OF Some] in simp_all)
  have "t_accel_type ((tasks d)[i := ?c (tasks d ! i)] ! j) = t_accel_type (tasks d ! j)" for j
    by (cases "i < length (tasks d) \<and> j = i") (auto simp: nth_list_update list_update_beyond)
  with pool inv show ?thesis
    by (simp add: task_cancel_def Some upd_task_def dev_inv_def queue_inv_def)
qed

lemma ioctl_submit_task_cases:
  assumes inv: "dev_inv d" and r: "ioctl_submit_task ua now d m arg = (ret, d', m')"
  obtains "ret < 0" "d' = d" "m' = m"
  | bs i where "copy_from_user ua m arg 80 = Some bs" "check_desc (dec_task_desc bs) = None"
      "free_tasks d \<noteq> []" "submit_desc now (dec_task_desc bs) d = (0, i, d')"
      "ret = 0 \<or> ret = neg_errno EFAULT"
proof (cases "copy_from_user ua m arg 80")
  case None
  with r that(1) show thesis by (auto simp: ioctl_submit_task_def)
next
  case (Some bs)
  show thesis
  proof (cases "check_desc (dec_task_desc bs)")
    case (Some e)
    with \<open>copy_from_user ua m arg 80 = Some bs\<close> r that(1) show thesis
      by (auto simp: ioctl_submit_task_def)
  next
    case None
    from inv None show thesis
    proof (cases rule: submit_desc_cases [where now = now])
      case 1
      with Some None r that(1) show thesis by (auto simp: ioctl_submit_task_def)
    next
      case (2 i fl d1)
      have "d' = d1" "ret = 0 \<or> ret = neg_errno EFAULT"
        using Some None 2(3) r by (auto simp: ioctl_submit_task_def Let_def split: prod.splits if_splits)
      with Some None 2 that(2) show thesis by simp
    qed
  qed
qed

lemma ioctl_other_dev:
  assumes "cortex_forge_ioctl ua hz now d m cmd arg = (ret, d', m')"
    and "cmd \<noteq> CORTEX_FORGE_IOCTL_SUBMIT_TASK"
  shows "d' = d \<or> (\<exists>id. d' = d\<lparr>tasks := snd (task_cancel (tasks d) id)\<rparr>)"
proof (cases "cmd = CORTEX_FORGE_IOCTL_CANCEL_TASK")
  case True
  have "cortex_forge_ioctl ua hz now d m cmd arg = ioctl_cancel_task ua d m arg"
    unfolding True by (simp add: cortex_forge_ioctl_def ioctl_values)
  with assms(1) show ?thesis
    by (simp add: ioctl_cancel_task_def split: option.splits prod.splits) (metis snd_conv)
next
  case False
  with assms show ?thesis
    by (auto simp: cortex_forge_ioctl_def read_only_handlers Let_def
        split: if_splits option.splits prod.splits)
qed

end
