(* ===== verification/Module_Main.thy ===== *)
theory Module_Main
  imports Chardev
begin

text \<open>
  \<^verbatim>\<open>src/main.c\<close>: probe, remove, module initialisation and exit. What the kernel answers to each
  call (allocation, mapping, clocks, reset, interrupt, threads, character device) is an
  environment the functions take; what they acquire and release is the list of calls they
  make. \<open>replay\<close> runs such a list against the set of held resources and fails on a release of
  something that is not held, so that balance and absence of misuse are one statement.
\<close>

section \<open>Probe and remove\<close>

record probe_env =
  pe_kzalloc :: bool
  pe_ioremap :: kptr
  pe_clks :: int
  pe_rst :: kptr
  pe_irq :: int
  pe_krun :: "nat \<Rightarrow> kptr"
  pe_chrdev :: int
  pe_cdev_add :: int
  pe_device_create :: "kptr \<Rightarrow> kptr"

definition ACCEL_TYPE_DLA0 :: u32 where "ACCEL_TYPE_DLA0 = 0"
definition ACCEL_TYPE_DLA1 :: u32 where "ACCEL_TYPE_DLA1 = 1"
definition ACCEL_TYPE_PVA0 :: u32 where "ACCEL_TYPE_PVA0 = 2"

text \<open>The address of \<open>cortex_forge_class\<close>.\<close>

definition cortex_forge_class :: kptr where "cortex_forge_class = PTR 0"

text \<open>Locks, task pool and accelerators, before the first kernel resource is asked for.\<close>

definition probe_setup :: "cortex_forge_dev \<Rightarrow> cortex_forge_dev" where
  "probe_setup dev =
     (let dev1 = dev\<lparr>free_tasks := [], next_task_id := 0\<rparr>;
          (ts, fl) = task_pool_init (tasks dev1) (free_tasks dev1);
          dev2 = dev1\<lparr>tasks := ts, free_tasks := fl\<rparr>;
          as1 = upd_accel 0 (\<lambda>a. accel_init a ACCEL_TYPE_DLA0 ''nvdla0'') (accelerators dev2);
          as2 = upd_accel 1 (\<lambda>a. accel_init a ACCEL_TYPE_DLA1 ''nvdla1'') as1;
          as3 = upd_accel 2 (\<lambda>a. accel_init a ACCEL_TYPE_PVA0 ''pva0'') as2
      in dev2\<lparr>accelerators := as3\<rparr>)"

definition err_stop_workers :: "int \<Rightarrow> cortex_forge_dev \<Rightarrow> kcall list \<Rightarrow>
    int \<times> cortex_forge_dev option \<times> kcall list" where
  "err_stop_workers ret dev cs =
     (let (as, cs') = accel_stop_workers (accelerators dev) NUM_ACCELERATORS
      in (ret, Some (dev\<lparr>accelerators := as\<rparr>), cs @ cs'))"

definition probe_chardev :: "probe_env \<Rightarrow> cortex_forge_dev \<Rightarrow> kcall list \<Rightarrow>
    int \<times> cortex_forge_dev option \<times> kcall list" where
  "probe_chardev env dev cs =
     (if pe_chrdev env \<noteq> 0 then err_stop_workers (pe_chrdev env) dev cs
      else
        let cs1 = cs @ [Alloc_Chrdev_Region] in
        if pe_cdev_add env \<noteq> 0 then
          err_stop_workers (pe_cdev_add env) dev (cs1 @ [Unregister_Chrdev_Region])
        else
          let cs2 = cs1 @ [Cdev_Add];
              dev1 = dev\<lparr>dev_dev := pe_device_create env cortex_forge_class\<rparr>;
              cs3 = cs2 @ [Device_Create (dev_dev dev1)]
          in if IS_ERR (dev_dev dev1) then
               err_stop_workers (PTR_ERR (dev_dev dev1)) dev1 (cs3 @ [Cdev_Del, Unregister_Chrdev_Region])
             else (0, Some dev1, cs3))"

definition cortex_forge_probe :: "probe_env \<Rightarrow> int \<times> cortex_forge_dev option \<times> kcall list" where
  "cortex_forge_probe env =
     (if \<not> pe_kzalloc env then (neg_errno ENOMEM, None, [])
      else
        let dev = (probe_setup zero_dev)\<lparr>dev_base := pe_ioremap env\<rparr> in
        if IS_ERR (dev_base dev) then (PTR_ERR (dev_base dev), Some dev, [])
        else
        let dev = dev\<lparr>dev_num_clks := pe_clks env\<rparr> in
        if dev_num_clks dev < 0 then (dev_num_clks dev, Some dev, [])
        else
        let dev = dev\<lparr>dev_rst := pe_rst env\<rparr> in
        if IS_ERR (dev_rst dev) then (PTR_ERR (dev_rst dev), Some dev, [])
        else
        let dev = dev\<lparr>dev_irq := pe_irq env\<rparr> in
        if dev_irq dev < 0 then (dev_irq dev, Some dev, [])
        else
        let (ret, as, cs) = accel_start_workers (pe_krun env) (accelerators dev) NUM_ACCELERATORS;
            dev = dev\<lparr>accelerators := as\<rparr>
        in if ret \<noteq> 0 then (ret, Some dev, cs) else probe_chardev env dev cs)"

definition cortex_forge_remove :: "cortex_forge_dev \<Rightarrow> cortex_forge_dev \<times> kcall list" where
  "cortex_forge_remove dev =
     (let (as, cs) = accel_stop_workers (accelerators dev) NUM_ACCELERATORS
      in (dev\<lparr>accelerators := as\<rparr>, [Device_Destroy, Cdev_Del, Unregister_Chrdev_Region] @ cs))"

text \<open>\<open>creg\<close> and \<open>preg\<close>: what \<open>class_register\<close> and \<open>platform_driver_register\<close> return.\<close>

definition cortex_forge_init :: "int \<Rightarrow> int \<Rightarrow> int \<times> kcall list" where
  "cortex_forge_init creg preg =
     (if creg \<noteq> 0 then (creg, [])
      else if preg \<noteq> 0 then (preg, [Class_Register, Class_Unregister])
      else (preg, [Class_Register, Platform_Driver_Register]))"

definition cortex_forge_exit :: "kcall list" where
  "cortex_forge_exit = [Platform_Driver_Unregister, Class_Unregister]"

section \<open>Replaying kernel calls\<close>

record resources =
  r_workers :: "kptr list"
  r_region :: bool
  r_cdev :: bool
  r_device :: bool
  r_class :: bool
  r_driver :: bool

definition no_resources :: resources where
  "no_resources = \<lparr>r_workers = [], r_region = False, r_cdev = False, r_device = False,
     r_class = False, r_driver = False\<rparr>"

fun replay1 :: "kcall \<Rightarrow> resources \<Rightarrow> resources option" where
  "replay1 (Kthread_Run i (PTR n)) r = Some (r\<lparr>r_workers := r_workers r @ [PTR n]\<rparr>)"
| "replay1 (Kthread_Run i p) r = Some r"
| "replay1 (Wake_Up i) r = Some r"
| "replay1 (Kthread_Stop p) r =
     (if p \<in> set (r_workers r) then Some (r\<lparr>r_workers := remove1 p (r_workers r)\<rparr>) else None)"
| "replay1 Alloc_Chrdev_Region r = (if r_region r then None else Some (r\<lparr>r_region := True\<rparr>))"
| "replay1 Unregister_Chrdev_Region r =
     (if r_region r \<and> \<not> r_cdev r then Some (r\<lparr>r_region := False\<rparr>) else None)"
| "replay1 Cdev_Add r = (if r_region r \<and> \<not> r_cdev r then Some (r\<lparr>r_cdev := True\<rparr>) else None)"
| "replay1 Cdev_Del r = (if r_cdev r \<and> \<not> r_device r then Some (r\<lparr>r_cdev := False\<rparr>) else None)"
| "replay1 (Device_Create p) r =
     (if r_device r \<or> \<not> r_cdev r then None else if IS_ERR p then Some r else Some (r\<lparr>r_device := True\<rparr>))"
| "replay1 Device_Destroy r = (if r_device r then Some (r\<lparr>r_device := False\<rparr>) else None)"
| "replay1 Class_Register r = (if r_class r then None else Some (r\<lparr>r_class := True\<rparr>))"
| "replay1 Class_Unregister r =
     (if r_class r \<and> \<not> r_driver r then Some (r\<lparr>r_class := False\<rparr>) else None)"
| "replay1 Platform_Driver_Register r =
     (if r_driver r then None else Some (r\<lparr>r_driver := True\<rparr>))"
| "replay1 Platform_Driver_Unregister r = (if r_driver r then Some (r\<lparr>r_driver := False\<rparr>) else None)"

fun replay :: "kcall list \<Rightarrow> resources \<Rightarrow> resources option" where
  "replay [] r = Some r"
| "replay (c # cs) r = (case replay1 c r of None \<Rightarrow> None | Some r' \<Rightarrow> replay cs r')"

lemma replay_append:
  "replay (cs @ ds) r = (case replay cs r of None \<Rightarrow> None | Some r' \<Rightarrow> replay ds r')"
  by (induction cs arbitrary: r) (simp_all split: option.splits)

section \<open>Lemmas\<close>

lemma task_pool_init_zero:
  "task_pool_init (replicate MAX_TASKS zero_task) [] = (replicate MAX_TASKS zero_task, [0..<MAX_TASKS])"
  by (simp add: task_pool_init_def task_pool_init_from_eq)
    (rule nth_equalityI; simp add: nth_enumerate_eq zero_task_def)

definition init_accels :: "cortex_forge_accel list" where
  "init_accels = [accel_init zero_accel ACCEL_TYPE_DLA0 ''nvdla0'',
     accel_init zero_accel ACCEL_TYPE_DLA1 ''nvdla1'', accel_init zero_accel ACCEL_TYPE_PVA0 ''pva0'']"

lemma probe_setup_zero:
  "probe_setup zero_dev = zero_dev\<lparr>tasks := replicate MAX_TASKS zero_task,
     free_tasks := [0..<MAX_TASKS], next_task_id := 0, accelerators := init_accels\<rparr>"
  by (simp add: probe_setup_def zero_dev_def task_pool_init_zero upd_accel_def init_accels_def
      NUM_ACCELERATORS_def numeral_eq_Suc)

lemma init_accels_nth:
  "a < NUM_ACCELERATORS \<Longrightarrow> a_task_queue (init_accels ! a) = [] \<and> a_active_tasks (init_accels ! a) = [] \<and>
     a_load_percent (init_accels ! a) = 0 \<and> a_running (init_accels ! a) = 1 \<and>
     a_worker_thread (init_accels ! a) = NULL \<and> a_type (init_accels ! a) = of_nat a"
  by (auto simp: NUM_ACCELERATORS_def init_accels_def accel_init_def less_Suc_eq numeral_eq_Suc
      zero_accel_def ACCEL_TYPE_DLA0_def ACCEL_TYPE_DLA1_def ACCEL_TYPE_PVA0_def)

lemma pool_inv_init: "pool_inv (replicate MAX_TASKS zero_task) [0..<MAX_TASKS] 0"
  by (simp add: pool_inv_def zero_task_def)

lemma dev_inv_setup [forge_wf]: "dev_inv (probe_setup zero_dev)"
  using pool_inv_init init_accels_nth
  by (simp add: dev_inv_def probe_setup_zero queue_inv_def)
    (simp add: init_accels_def NUM_ACCELERATORS_def)

text \<open>Starting and stopping the three workers, and what that does to the held resources.\<close>

definition with_workers :: "(nat \<Rightarrow> kptr) \<Rightarrow> nat \<Rightarrow> cortex_forge_accel list \<Rightarrow> cortex_forge_accel list" where
  "with_workers krun n as = map (\<lambda>(i, a). if i < n then a\<lparr>a_worker_thread := krun i\<rparr> else a) (enumerate 0 as)"

lemma accel_start_ok:
  assumes "length as = NUM_ACCELERATORS" and "\<forall>i < NUM_ACCELERATORS. \<not> IS_ERR (krun i)"
  shows "accel_start_workers krun as NUM_ACCELERATORS =
    (0, with_workers krun NUM_ACCELERATORS as, map (\<lambda>i. Kthread_Run i (krun i)) [0..<NUM_ACCELERATORS])"
proof -
  obtain x y z where as: "as = [x, y, z]"
    using assms(1) by (auto simp: NUM_ACCELERATORS_def dest: length_three)
  have k: "\<not> IS_ERR (krun 0)" "\<not> IS_ERR (krun 1)" "\<not> IS_ERR (krun 2)"
    using assms(2) by (simp_all add: NUM_ACCELERATORS_def)
  show ?thesis
    using k by (simp add: accel_start_workers_def with_workers_def NUM_ACCELERATORS_def as
        accel_start_from.simps upd_accel_def numeral_eq_Suc Let_def)
qed

lemma accel_start_fail:
  assumes "length as = NUM_ACCELERATORS" and "\<forall>a \<in> set as. a_worker_thread a = NULL"
    and "n < NUM_ACCELERATORS" and "IS_ERR (krun n)" and "\<forall>i < n. \<not> IS_ERR (krun i)"
  shows "\<exists>as'. accel_start_workers krun as NUM_ACCELERATORS =
    (PTR_ERR (krun n), as', map (\<lambda>i. Kthread_Run i (krun i)) [0..<Suc n] @
      concat (map (stop_calls (with_workers krun n as)) [0..<n]))"
proof -
  obtain x y z where as: "as = [x, y, z]"
    using assms(1) by (auto simp: NUM_ACCELERATORS_def dest: length_three)
  consider "n = 0" | "n = 1" | "n = 2"
    using assms(3) by (fastforce simp: NUM_ACCELERATORS_def less_Suc_eq numeral_eq_Suc)
  then show ?thesis
  proof cases
    case 1
    then show ?thesis
      using assms by (simp add: accel_start_workers_def NUM_ACCELERATORS_def as
        accel_start_from.simps accel_stop_workers_def Let_def)
  next
    case 2
    then show ?thesis
      using assms by (simp add: accel_start_workers_def NUM_ACCELERATORS_def as with_workers_def
        accel_start_from.simps accel_stop_workers_def accel_stop_from_Cons stop_calls_def upd_accel_def numeral_eq_Suc Let_def)
  next
    case 3
    then have "\<not> IS_ERR (krun 0)" "\<not> IS_ERR (krun 1)" "IS_ERR (krun 2)"
      using assms by simp_all
    with 3 show ?thesis
      using assms(1-3) by (simp add: accel_start_workers_def NUM_ACCELERATORS_def as with_workers_def
        accel_start_from.simps accel_stop_workers_def accel_stop_from_Cons stop_calls_def
        stop_one_def upd_accel_def numeral_eq_Suc Let_def)
  qed
qed

fun is_ptr :: "kptr \<Rightarrow> bool" where
  "is_ptr (PTR n) = True"
| "is_ptr NULL = False"
| "is_ptr (ERR_PTR e) = False"

lemma replay_runs:
  "replay (map (\<lambda>i. Kthread_Run i (krun i)) is) r =
     Some (r\<lparr>r_workers := r_workers r @ filter is_ptr (map krun is)\<rparr>)"
proof (induction "is" arbitrary: r)
  case Nil
  then show ?case by simp
next
  case (Cons i "is")
  then show ?case by (cases "krun i") simp_all
qed

lemma replay_stops:
  "\<forall>i \<in> set is. \<not> IS_ERR (a_worker_thread (as ! i)) \<Longrightarrow>
   r_workers r = filter is_ptr (map (\<lambda>i. a_worker_thread (as ! i)) is) \<Longrightarrow>
   replay (concat (map (stop_calls as) is)) r = Some (r\<lparr>r_workers := []\<rparr>)"
proof (induction "is" arbitrary: r)
  case Nil
  then show ?case by simp
next
  case (Cons i "is")
  then show ?case
    by (cases "a_worker_thread (as ! i)") (simp_all add: stop_calls_def)
qed

lemma nth_with_workers:
  "i < length as \<Longrightarrow> with_workers krun n as ! i = (if i < n then (as ! i)\<lparr>a_worker_thread := krun i\<rparr> else as ! i)"
  by (simp add: with_workers_def nth_enumerate_eq)

lemma length_with_workers [simp]: "length (with_workers krun n as) = length as"
  by (simp add: with_workers_def)

lemma stop_all_calls:
  assumes "length as = NUM_ACCELERATORS" and "\<forall>i < NUM_ACCELERATORS. a_worker_thread (as ! i) = krun i"
    and "\<forall>i < NUM_ACCELERATORS. \<not> IS_ERR (krun i)"
    and "r_workers r = filter is_ptr (map krun [0..<NUM_ACCELERATORS])"
  shows "replay (snd (accel_stop_workers as NUM_ACCELERATORS)) r = Some (r\<lparr>r_workers := []\<rparr>)"
proof -
  have "snd (accel_stop_workers as NUM_ACCELERATORS) = concat (map (stop_calls as) [0..<NUM_ACCELERATORS])"
    unfolding accel_stop_workers_def by (rule accel_stop_from_calls) (use assms(1) in simp_all)
  moreover have ws: "map (\<lambda>i. a_worker_thread (as ! i)) [0..<NUM_ACCELERATORS] = map krun [0..<NUM_ACCELERATORS]"
    using assms(2) by simp
  have "replay (concat (map (stop_calls as) [0..<NUM_ACCELERATORS])) r = Some (r\<lparr>r_workers := []\<rparr>)"
    by (rule replay_stops) (use assms(2,3) in simp, simp only: ws assms(4))
  ultimately show ?thesis by simp
qed

text \<open>The kernel's error pointers carry negative codes.\<close>

definition kernel_errors :: "probe_env \<Rightarrow> bool" where
  "kernel_errors env \<longleftrightarrow>
     (\<forall>e. pe_ioremap env = ERR_PTR e \<longrightarrow> e < 0) \<and> (\<forall>e. pe_rst env = ERR_PTR e \<longrightarrow> e < 0) \<and>
     (\<forall>i e. pe_krun env i = ERR_PTR e \<longrightarrow> e < 0) \<and>
     (\<forall>c e. pe_device_create env c = ERR_PTR e \<longrightarrow> e < 0)"

definition all_resources :: "probe_env \<Rightarrow> resources" where
  "all_resources env = \<lparr>r_workers = filter is_ptr (map (pe_krun env) [0..<NUM_ACCELERATORS]),
     r_region = True, r_cdev = True, r_device = True, r_class = False, r_driver = False\<rparr>"

lemma length_init_accels [simp]: "length init_accels = NUM_ACCELERATORS"
  by (simp add: init_accels_def NUM_ACCELERATORS_def)

abbreviation run_calls :: "probe_env \<Rightarrow> kcall list" where
  "run_calls env \<equiv> map (\<lambda>i. Kthread_Run i (pe_krun env i)) [0..<NUM_ACCELERATORS]"

lemma err_stop_balanced:
  assumes w: "\<forall>i < NUM_ACCELERATORS. \<not> IS_ERR (pe_krun env i)"
    and d: "accelerators d = with_workers (pe_krun env) NUM_ACCELERATORS init_accels"
    and cs0: "replay cs0 (no_resources\<lparr>r_workers := filter is_ptr (map (pe_krun env) [0..<NUM_ACCELERATORS])\<rparr>) =
      Some (no_resources\<lparr>r_workers := filter is_ptr (map (pe_krun env) [0..<NUM_ACCELERATORS])\<rparr>)"
    and e: "err_stop_workers ret d (run_calls env @ cs0) = (ret', d', cs)"
  shows "replay cs no_resources = Some no_resources" and "ret' = ret"
proof -
  let ?r = "no_resources\<lparr>r_workers := filter is_ptr (map (pe_krun env) [0..<NUM_ACCELERATORS])\<rparr>"
  have stop: "replay (snd (accel_stop_workers (accelerators d) NUM_ACCELERATORS)) ?r =
      Some (?r\<lparr>r_workers := []\<rparr>)"
    unfolding d by (rule stop_all_calls) (use w in \<open>simp_all add: nth_with_workers\<close>)
  have cs: "cs = run_calls env @ cs0 @ snd (accel_stop_workers (accelerators d) NUM_ACCELERATORS)"
    and "ret' = ret"
    using e by (auto simp: err_stop_workers_def split: prod.splits)
  then show "ret' = ret" by simp
  have run: "replay (run_calls env) no_resources = Some ?r"
    unfolding replay_runs by (simp add: no_resources_def)
  show "replay cs no_resources = Some no_resources"
    unfolding cs replay_append run option.case cs0 stop by (simp add: no_resources_def)
qed

lemma probe_chardev_balanced:
  assumes k: "kernel_errors env" and w: "\<forall>i < NUM_ACCELERATORS. \<not> IS_ERR (pe_krun env i)"
    and d: "accelerators d = with_workers (pe_krun env) NUM_ACCELERATORS init_accels"
    and p: "probe_chardev env d (run_calls env) = (ret, d', cs)"
  shows "replay cs no_resources = Some (if ret = 0 then all_resources env else no_resources)"
    and "ret = 0 \<Longrightarrow> d' = Some (d\<lparr>dev_dev := pe_device_create env cortex_forge_class\<rparr>)"
proof -
  let ?dv = "pe_device_create env cortex_forge_class"
  consider (region) "pe_chrdev env \<noteq> 0" | (cdev) "pe_chrdev env = 0" "pe_cdev_add env \<noteq> 0"
    | (device) "pe_chrdev env = 0" "pe_cdev_add env = 0" "IS_ERR ?dv"
    | (ok) "pe_chrdev env = 0" "pe_cdev_add env = 0" "\<not> IS_ERR ?dv"
    by blast
  then have "replay cs no_resources = Some (if ret = 0 then all_resources env else no_resources) \<and>
    (ret = 0 \<longrightarrow> d' = Some (d\<lparr>dev_dev := ?dv\<rparr>))"
  proof cases
    case region
    with p have e: "err_stop_workers (pe_chrdev env) d (run_calls env @ []) = (ret, d', cs)"
      by (simp add: probe_chardev_def)
    from err_stop_balanced [OF w d _ e] region show ?thesis by simp
  next
    case cdev
    with p have e: "err_stop_workers (pe_cdev_add env) d
        (run_calls env @ [Alloc_Chrdev_Region, Unregister_Chrdev_Region]) = (ret, d', cs)"
      by (simp add: probe_chardev_def)
    from err_stop_balanced [OF w d _ e] cdev show ?thesis by (simp add: no_resources_def)
  next
    case device
    with p have e: "err_stop_workers (PTR_ERR ?dv) (d\<lparr>dev_dev := ?dv\<rparr>)
        (run_calls env @ [Alloc_Chrdev_Region, Cdev_Add, Device_Create ?dv, Cdev_Del,
          Unregister_Chrdev_Region]) = (ret, d', cs)"
      by (simp add: probe_chardev_def)
    have "accelerators (d\<lparr>dev_dev := ?dv\<rparr>) = with_workers (pe_krun env) NUM_ACCELERATORS init_accels"
      by (simp add: d)
    moreover have "PTR_ERR ?dv \<noteq> 0"
      using device(3) k unfolding IS_ERR_iff kernel_errors_def by fastforce
    ultimately show ?thesis
      using err_stop_balanced [OF w _ _ e] device(3) by (simp add: no_resources_def)
  next
    case ok
    with p have "ret = 0" "d' = Some (d\<lparr>dev_dev := ?dv\<rparr>)"
      "cs = run_calls env @ [Alloc_Chrdev_Region, Cdev_Add, Device_Create ?dv]"
      by (auto simp: probe_chardev_def Let_def)
    moreover have "replay (run_calls env) no_resources =
        Some (no_resources\<lparr>r_workers := filter is_ptr (map (pe_krun env) [0..<NUM_ACCELERATORS])\<rparr>)"
      unfolding replay_runs by (simp add: no_resources_def)
    ultimately show ?thesis
      using ok by (simp add: replay_append all_resources_def no_resources_def)
  qed
  then show "replay cs no_resources = Some (if ret = 0 then all_resources env else no_resources)"
    and "ret = 0 \<Longrightarrow> d' = Some (d\<lparr>dev_dev := ?dv\<rparr>)"
    by simp_all
qed

lemma start_cases:
  obtains (ok) "\<forall>i < NUM_ACCELERATORS. \<not> IS_ERR (krun i)"
  | (fail) n where "n < NUM_ACCELERATORS" "IS_ERR (krun n)" "\<forall>i < n. \<not> IS_ERR (krun i)"
proof (cases "\<exists>n < NUM_ACCELERATORS. IS_ERR (krun n)")
  case True
  then obtain n where n: "n < NUM_ACCELERATORS" "IS_ERR (krun n)" by blast
  define l where "l = (LEAST n. IS_ERR (krun n))"
  have "IS_ERR (krun l)" unfolding l_def by (rule LeastI [of _ n]) (rule n(2))
  moreover have "l \<le> n" unfolding l_def by (rule Least_le) (rule n(2))
  moreover have "\<forall>i < l. \<not> IS_ERR (krun i)" unfolding l_def using not_less_Least by blast
  ultimately show thesis using n(1) by (intro that(2) [of l]) simp_all
qed (use that(1) in blast)

lemma accel_start_fail_balanced:
  assumes "n < NUM_ACCELERATORS" and "IS_ERR (krun n)" and "\<forall>i < n. \<not> IS_ERR (krun i)"
    and "accel_start_workers krun init_accels NUM_ACCELERATORS = (ret, as, cs)"
  shows "ret = PTR_ERR (krun n)" and "replay cs no_resources = Some no_resources"
proof -
  have null: "\<forall>a \<in> set init_accels. a_worker_thread a = NULL"
    by (simp add: init_accels_def accel_init_def zero_accel_def)
  from accel_start_fail [OF length_init_accels null assms(1-3)] assms(4)
  have ret: "ret = PTR_ERR (krun n)" and cs: "cs = map (\<lambda>i. Kthread_Run i (krun i)) [0..<Suc n] @
      concat (map (stop_calls (with_workers krun n init_accels)) [0..<n])"
    by auto
  then show "ret = PTR_ERR (krun n)" by simp
  let ?r = "no_resources\<lparr>r_workers := filter is_ptr (map krun [0..<n])\<rparr>"
  have "\<not> is_ptr (krun n)" using assms(2) by (auto simp: IS_ERR_iff)
  then have run: "replay (map (\<lambda>i. Kthread_Run i (krun i)) [0..<Suc n]) no_resources = Some ?r"
    unfolding replay_runs by (simp add: no_resources_def)
  have ws: "map (\<lambda>i. a_worker_thread (with_workers krun n init_accels ! i)) [0..<n] = map krun [0..<n]"
    using assms(1) by (simp add: nth_with_workers)
  have "replay (concat (map (stop_calls (with_workers krun n init_accels)) [0..<n])) ?r =
      Some (?r\<lparr>r_workers := []\<rparr>)"
    by (rule replay_stops) (use assms(1,3) in \<open>simp add: nth_with_workers\<close>, simp only: ws, simp)
  then show "replay cs no_resources = Some no_resources"
    unfolding cs replay_append run option.case by (simp add: no_resources_def)
qed

text \<open>What probe has made of the device when it reaches the worker threads.\<close>

definition pre_workers :: "probe_env \<Rightarrow> cortex_forge_dev" where
  "pre_workers env = (probe_setup zero_dev)\<lparr>dev_base := pe_ioremap env, dev_num_clks := pe_clks env,
     dev_rst := pe_rst env, dev_irq := pe_irq env\<rparr>"

definition hw_ok :: "probe_env \<Rightarrow> bool" where
  "hw_ok env \<longleftrightarrow> pe_kzalloc env \<and> \<not> IS_ERR (pe_ioremap env) \<and> 0 \<le> pe_clks env \<and>
     \<not> IS_ERR (pe_rst env) \<and> 0 \<le> pe_irq env"

lemma probe_hw_fail:
  assumes "\<not> hw_ok env" and "kernel_errors env" and "cortex_forge_probe env = (ret, dev, cs)"
  shows "ret < 0" and "cs = []"
proof -
  have "ret < 0 \<and> cs = []"
    using assms unfolding hw_ok_def kernel_errors_def cortex_forge_probe_def Let_def
    by (auto simp: IS_ERR_iff split: if_splits)
  then show "ret < 0" and "cs = []" by simp_all
qed

lemma probe_hw_ok:
  assumes "hw_ok env"
  shows "cortex_forge_probe env =
    (let (ret, as, cs) = accel_start_workers (pe_krun env) init_accels NUM_ACCELERATORS;
         dev = (pre_workers env)\<lparr>accelerators := as\<rparr>
     in if ret \<noteq> 0 then (ret, Some dev, cs) else probe_chardev env dev cs)"
  using assms by (simp add: hw_ok_def cortex_forge_probe_def pre_workers_def probe_setup_zero)

lemma probe_outcome:
  assumes k: "kernel_errors env" and p: "cortex_forge_probe env = (ret, dev, cs)"
  shows "replay cs no_resources = Some (if ret = 0 then all_resources env else no_resources)"
    and "ret = 0 \<Longrightarrow> (\<forall>i < NUM_ACCELERATORS. \<not> IS_ERR (pe_krun env i)) \<and>
      dev = Some ((pre_workers env)\<lparr>accelerators := with_workers (pe_krun env) NUM_ACCELERATORS init_accels,
                     dev_dev := pe_device_create env cortex_forge_class\<rparr>)"
proof -
  have "replay cs no_resources = Some (if ret = 0 then all_resources env else no_resources) \<and>
    (ret = 0 \<longrightarrow> (\<forall>i < NUM_ACCELERATORS. \<not> IS_ERR (pe_krun env i)) \<and>
      dev = Some ((pre_workers env)\<lparr>accelerators := with_workers (pe_krun env) NUM_ACCELERATORS init_accels,
                     dev_dev := pe_device_create env cortex_forge_class\<rparr>))"
  proof (cases "hw_ok env")
    case False
    from probe_hw_fail [OF this k p] show ?thesis by simp
  next
    case True
    note eq = probe_hw_ok [OF True]
    show ?thesis
    proof (rule start_cases [of "pe_krun env"])
      assume ok: "\<forall>i < NUM_ACCELERATORS. \<not> IS_ERR (pe_krun env i)"
      with p have "probe_chardev env ((pre_workers env)\<lparr>accelerators :=
          with_workers (pe_krun env) NUM_ACCELERATORS init_accels\<rparr>) (run_calls env) = (ret, dev, cs)"
        by (simp add: eq accel_start_ok)
      from probe_chardev_balanced [OF k ok _ this] ok show ?thesis by simp
    next
      fix n assume n: "n < NUM_ACCELERATORS" "IS_ERR (pe_krun env n)" "\<forall>i < n. \<not> IS_ERR (pe_krun env i)"
      obtain r as c where st: "accel_start_workers (pe_krun env) init_accels NUM_ACCELERATORS = (r, as, c)"
        by (cases "accel_start_workers (pe_krun env) init_accels NUM_ACCELERATORS")
      note bal = accel_start_fail_balanced [OF n st]
      have "PTR_ERR (pe_krun env n) \<noteq> 0"
        using n(2) k unfolding IS_ERR_iff kernel_errors_def by fastforce
      with bal p show ?thesis by (auto simp: eq st)
    qed
  qed
  then show "replay cs no_resources = Some (if ret = 0 then all_resources env else no_resources)"
    and "ret = 0 \<Longrightarrow> (\<forall>i < NUM_ACCELERATORS. \<not> IS_ERR (pe_krun env i)) \<and>
      dev = Some ((pre_workers env)\<lparr>accelerators := with_workers (pe_krun env) NUM_ACCELERATORS init_accels,
                     dev_dev := pe_device_create env cortex_forge_class\<rparr>)"
    by simp_all
qed

section \<open>Properties\<close>

text \<open>Two environments for the examples: every kernel call succeeds; the last thread cannot be made.\<close>

definition good_env :: probe_env where
  "good_env = \<lparr>pe_kzalloc = True, pe_ioremap = PTR 1, pe_clks = 6, pe_rst = PTR 2, pe_irq = 5,
     pe_krun = (\<lambda>i. PTR (10 + i)), pe_chrdev = 0, pe_cdev_add = 0, pe_device_create = (\<lambda>_. PTR 20)\<rparr>"

definition thread_fails_env :: probe_env where
  "thread_fails_env = good_env\<lparr>pe_krun := (\<lambda>i. if i = 2 then ERR_PTR (- 12) else PTR (10 + i))\<rparr>"

lemma good_env_facts [simp]: "kernel_errors good_env" "kernel_errors thread_fails_env"
  by (simp_all add: kernel_errors_def good_env_def thread_fails_env_def)

text \<open>C3. Whatever the kernel answers, probe leaves nothing behind on failure: replaying the calls it
  made never releases something that is not held (no thread is stopped twice or through an error
  pointer, no region or cdev is removed that was not added), and ends with no resource held if
  probe returns an error, and with the workers, the region, the cdev and the device node held if
  it returns 0.\<close>

theorem probe_balanced:
  assumes "kernel_errors env" and "cortex_forge_probe env = (ret, dev, cs)"
  shows "replay cs no_resources = Some (if ret = 0 then all_resources env else no_resources)"
  using probe_outcome(1) [OF assms] .

theorem probe_balanced_witness:
  "\<exists>dev cs. cortex_forge_probe thread_fails_env = (- 12, dev, cs) \<and> cs \<noteq> [] \<and>
     replay cs no_resources = Some no_resources"
proof -
  obtain ret dev cs where p: "cortex_forge_probe thread_fails_env = (ret, dev, cs)"
    by (cases "cortex_forge_probe thread_fails_env")
  have "hw_ok thread_fails_env"
    by (simp add: hw_ok_def thread_fails_env_def good_env_def)
  note eq = probe_hw_ok [OF this]
  obtain r as c where st: "accel_start_workers (pe_krun thread_fails_env) init_accels NUM_ACCELERATORS = (r, as, c)"
    by (cases "accel_start_workers (pe_krun thread_fails_env) init_accels NUM_ACCELERATORS")
  have k: "(2::nat) < NUM_ACCELERATORS" "IS_ERR (pe_krun thread_fails_env 2)"
    "\<forall>i < 2. \<not> IS_ERR (pe_krun thread_fails_env i)"
    by (simp_all add: NUM_ACCELERATORS_def thread_fails_env_def)
  have null: "\<forall>a \<in> set init_accels. a_worker_thread a = NULL"
    by (simp add: init_accels_def accel_init_def zero_accel_def)
  have "r = - 12" using accel_start_fail_balanced(1) [OF k st] by (simp add: thread_fails_env_def)
  moreover have "c \<noteq> []" using accel_start_fail [OF length_init_accels null k] st by auto
  ultimately have "ret = - 12" "cs \<noteq> []" using p by (auto simp: eq st)
  with p probe_balanced [OF _ p] show ?thesis by simp
qed

text \<open>C13. A successful probe yields a device that satisfies the invariant of the system calls, with
  all 256 slots free, no identifier issued, and three running accelerators named \<open>nvdla0\<close>,
  \<open>nvdla1\<close> and \<open>pva0\<close>, each with its own worker, an empty queue and no load.\<close>

theorem probe_establishes_invariant:
  assumes "kernel_errors env" and "cortex_forge_probe env = (0, dev, cs)"
  shows "\<exists>d. dev = Some d \<and> dev_inv d \<and> free_tasks d = [0..<MAX_TASKS] \<and> next_task_id d = 0 \<and>
    map (\<lambda>a. cstr (a_name a)) (accelerators d) = [''nvdla0'', ''nvdla1'', ''pva0''] \<and>
    (\<forall>i < NUM_ACCELERATORS. a_worker_thread (accelerators d ! i) = pe_krun env i \<and>
       a_running (accelerators d ! i) = 1 \<and> a_task_queue (accelerators d ! i) = [] \<and>
       a_active_tasks (accelerators d ! i) = [] \<and> a_load_percent (accelerators d ! i) = 0)"
proof -
  define d where "d = (pre_workers env)\<lparr>accelerators := with_workers (pe_krun env) NUM_ACCELERATORS init_accels,
      dev_dev := pe_device_create env cortex_forge_class\<rparr>"
  have "dev = Some d" using probe_outcome(2) [OF assms] by (simp add: d_def)
  moreover have acc: "i < NUM_ACCELERATORS \<Longrightarrow>
      accelerators d ! i = (init_accels ! i)\<lparr>a_worker_thread := pe_krun env i\<rparr>" for i
    by (simp add: d_def nth_with_workers)
  have pool: "tasks d = replicate MAX_TASKS zero_task" "free_tasks d = [0..<MAX_TASKS]" "next_task_id d = 0"
    by (simp_all add: d_def pre_workers_def probe_setup_zero)
  moreover have "length (accelerators d) = NUM_ACCELERATORS" by (simp add: d_def)
  then have "dev_inv d"
    using pool_inv_init acc init_accels_nth by (simp add: dev_inv_def pool queue_inv_def)
  moreover have "map (\<lambda>a. cstr (a_name a)) (accelerators d) = [''nvdla0'', ''nvdla1'', ''pva0'']"
    by (simp add: d_def with_workers_def init_accels_def accel_init_def zero_accel_def strncpy_def
        cstr_def numeral_eq_Suc)
  ultimately show ?thesis using acc init_accels_nth by simp
qed

lemma good_env_probe: "\<exists>dev cs. cortex_forge_probe good_env = (0, dev, cs)"
proof -
  have "hw_ok good_env" and w: "\<forall>i < NUM_ACCELERATORS. \<not> IS_ERR (pe_krun good_env i)"
    by (simp_all add: hw_ok_def good_env_def)
  then show ?thesis
    by (simp add: probe_hw_ok accel_start_ok)
      (simp add: probe_chardev_def Let_def good_env_def)
qed

theorem probe_establishes_invariant_witness:
  "\<exists>dev cs d. cortex_forge_probe good_env = (0, dev, cs) \<and> dev = Some d \<and> dev_inv d \<and>
     free_tasks d = [0..<MAX_TASKS]"
proof -
  obtain dev cs where p: "cortex_forge_probe good_env = (0, dev, cs)"
    using good_env_probe by blast
  from probe_establishes_invariant [OF _ p] p show ?thesis by auto
qed

text \<open>C14. Remove undoes probe: the calls of a successful probe followed by those of remove replay
  without misuse and leave nothing held, and every worker has been told to stop.\<close>

theorem remove_undoes_probe:
  assumes "kernel_errors env" and "cortex_forge_probe env = (0, Some d, cs)"
    and "cortex_forge_remove d = (d', cs')"
  shows "replay (cs @ cs') no_resources = Some no_resources \<and>
    (\<forall>i < NUM_ACCELERATORS. pe_krun env i \<noteq> NULL \<longrightarrow>
       a_running (accelerators d' ! i) = 0 \<and> a_worker_thread (accelerators d' ! i) = NULL)"
proof -
  let ?as = "with_workers (pe_krun env) NUM_ACCELERATORS init_accels"
  have w: "\<forall>i < NUM_ACCELERATORS. \<not> IS_ERR (pe_krun env i)" and acc: "accelerators d = ?as"
    using probe_outcome(2) [OF assms(1,2)] by simp_all
  have r: "replay cs no_resources = Some (all_resources env)"
    using probe_outcome(1) [OF assms(1,2)] by simp
  have cs': "cs' = [Device_Destroy, Cdev_Del, Unregister_Chrdev_Region] @
      snd (accel_stop_workers ?as NUM_ACCELERATORS)"
    and d': "accelerators d' = fst (accel_stop_workers ?as NUM_ACCELERATORS)"
    using assms(3) by (auto simp: cortex_forge_remove_def acc split: prod.splits)
  let ?r = "no_resources\<lparr>r_workers := filter is_ptr (map (pe_krun env) [0..<NUM_ACCELERATORS])\<rparr>"
  have "replay [Device_Destroy, Cdev_Del, Unregister_Chrdev_Region] (all_resources env) = Some ?r"
    by (simp add: all_resources_def no_resources_def)
  moreover have "replay (snd (accel_stop_workers ?as NUM_ACCELERATORS)) ?r = Some (?r\<lparr>r_workers := []\<rparr>)"
    by (rule stop_all_calls) (use w in \<open>simp_all add: nth_with_workers\<close>)
  ultimately have "replay (cs @ cs') no_resources = Some no_resources"
    unfolding cs' by (simp only: replay_append r option.case) (simp add: no_resources_def)
  moreover have "\<forall>i < length ?as. fst (accel_stop_workers ?as NUM_ACCELERATORS) ! i =
      (if i \<in> set [0..<NUM_ACCELERATORS] \<and> a_worker_thread (?as ! i) \<noteq> NULL then stopped (?as ! i) else ?as ! i)"
    unfolding accel_stop_workers_def
    by (rule accel_stop_from_state [THEN conjunct2]) simp_all
  ultimately show ?thesis by (simp add: d' nth_with_workers)
qed

theorem remove_undoes_probe_witness:
  "\<exists>d cs d' cs'. cortex_forge_probe good_env = (0, Some d, cs) \<and> cortex_forge_remove d = (d', cs') \<and>
     replay (cs @ cs') no_resources = Some no_resources \<and> a_running (accelerators d' ! 0) = 0"
proof -
  obtain dev cs where "cortex_forge_probe good_env = (0, dev, cs)"
    using good_env_probe by blast
  then obtain d where p: "cortex_forge_probe good_env = (0, Some d, cs)"
    using probe_outcome(2) [of good_env 0 dev cs] by auto
  obtain d' cs' where r: "cortex_forge_remove d = (d', cs')"
    by (cases "cortex_forge_remove d")
  have "pe_krun good_env 0 \<noteq> NULL" by (simp add: good_env_def)
  with remove_undoes_probe [OF _ p r] p r show ?thesis by auto
qed

text \<open>Module initialisation is all or nothing, and exit undoes it: if either registration fails
  nothing stays registered and the error is returned; otherwise the class and the driver are
  registered, and the calls of exit leave nothing.\<close>

lemma module_init_exit_balanced:
  "cortex_forge_init creg preg = (ret, cs) \<longrightarrow>
     (ret = 0 \<longleftrightarrow> creg = 0 \<and> preg = 0) \<and>
     replay cs no_resources =
       Some (if ret = 0 then no_resources\<lparr>r_class := True, r_driver := True\<rparr> else no_resources) \<and>
     (ret = 0 \<longrightarrow> replay (cs @ cortex_forge_exit) no_resources = Some no_resources)"
  by (auto simp: cortex_forge_init_def cortex_forge_exit_def no_resources_def split: if_splits)

end
