(* ===== verification/Transition_Systems.thy ===== *)
theory Transition_Systems
  imports Forge_Prelude
begin

text \<open>
  Reachability in a transition system, and the two proof principles the concurrency results
  rest on: an invariant that the steps preserve, and a forward simulation that lets a detailed
  system inherit what is known of an abstract one.
\<close>

inductive reach :: "('s \<Rightarrow> bool) \<Rightarrow> ('s \<Rightarrow> 's \<Rightarrow> bool) \<Rightarrow> 's \<Rightarrow> bool" for init step where
  reach_init: "init s \<Longrightarrow> reach init step s"
| reach_step: "reach init step s \<Longrightarrow> step s s' \<Longrightarrow> reach init step s'"

inductive steps :: "('s \<Rightarrow> 's \<Rightarrow> bool) \<Rightarrow> 's \<Rightarrow> 's \<Rightarrow> bool" for step where
  steps_refl: "steps step s s"
| steps_step: "steps step s s' \<Longrightarrow> step s' s'' \<Longrightarrow> steps step s s''"

lemma reach_steps: "steps step s s' \<Longrightarrow> reach init step s \<Longrightarrow> reach init step s'"
  by (induction rule: steps.induct) (auto intro: reach_step)

lemma steps_trans: "steps step s' s'' \<Longrightarrow> steps step s s' \<Longrightarrow> steps step s s''"
  by (induction rule: steps.induct) (auto intro: steps.intros)

locale invariant_system =
  fixes init :: "'s \<Rightarrow> bool" and step :: "'s \<Rightarrow> 's \<Rightarrow> bool" and inv :: "'s \<Rightarrow> bool"
  assumes inv_init: "init s \<Longrightarrow> inv s"
    and inv_step: "inv s \<Longrightarrow> step s s' \<Longrightarrow> inv s'"
begin

lemma inv_reach: "reach init step s \<Longrightarrow> inv s"
  by (induction rule: reach.induct) (auto intro: inv_init inv_step)

lemma inv_steps: "steps step s s' \<Longrightarrow> inv s \<Longrightarrow> inv s'"
  by (induction rule: steps.induct) (auto intro: inv_step)

end

text \<open>
  \<open>R\<close> relates a detailed state to an abstract one; a detailed step is matched by an abstract
  step or by none. What relates to a reachable detailed state is reachable, and a path is
  matched by a path.
\<close>

locale forward_simulation =
  fixes cinit :: "'c \<Rightarrow> bool" and cstep :: "'c \<Rightarrow> 'c \<Rightarrow> bool"
    and ainit :: "'a \<Rightarrow> bool" and astep :: "'a \<Rightarrow> 'a \<Rightarrow> bool"
    and R :: "'c \<Rightarrow> 'a \<Rightarrow> bool"
  assumes sim_init: "cinit c \<Longrightarrow> \<exists>a. ainit a \<and> R c a"
    and sim_step: "R c a \<Longrightarrow> cstep c c' \<Longrightarrow> \<exists>a'. (a' = a \<or> astep a a') \<and> R c' a'"
begin

lemma sim_reach: "reach cinit cstep c \<Longrightarrow> \<exists>a. reach ainit astep a \<and> R c a"
proof (induction rule: reach.induct)
  case (reach_init c)
  with sim_init show ?case by (blast intro: reach.reach_init)
next
  case (reach_step c c')
  then obtain a where "reach ainit astep a" "R c a" by blast
  with sim_step [OF _ reach_step.hyps(2)] show ?case by (blast intro: reach.reach_step)
qed

lemma sim_steps: "steps cstep c c' \<Longrightarrow> R c a \<Longrightarrow> \<exists>a'. steps astep a a' \<and> R c' a'"
proof (induction rule: steps.induct)
  case (steps_refl c)
  then show ?case by (blast intro: steps.steps_refl)
next
  case (steps_step c c' c'')
  then obtain a' where "steps astep a a'" "R c' a'" by blast
  with sim_step [OF _ steps_step.hyps(2)] show ?case by (blast intro: steps.steps_step)
qed

end

sublocale forward_simulation \<subseteq> invariant_system cinit cstep "\<lambda>c. \<exists>a. R c a"
  using sim_init sim_step by unfold_locales blast+

end
