(* ===== verification/Worker_System.thy ===== *)
theory Worker_System
  imports Module_Main Transition_Systems
begin

text \<open>
  The running driver: three worker threads (\<^verbatim>\<open>src/accel_manager.c\<close>), any number of threads in
  the \<open>ioctl\<close> system call (\<^verbatim>\<open>src/chardev.c\<close> and \<^verbatim>\<open>src/task_manager.c\<close>) and the thread that
  stops the workers, interleaved. A step is one access to shared memory; a critical section
  under \<open>task_lock\<close> or an accelerator's mutex is one step, and so is a group of accesses to
  memory no other thread uses.
\<close>

section \<open>A thread in the ioctl system call\<close>

text \<open>
  Where a system call is. \<open>U_Alloc\<close> to \<open>U_CopyOut\<close>: \<open>SUBMIT_TASK\<close> with a descriptor that has been
  read and checked; \<open>U_CScan\<close> to \<open>U_CDone\<close>: \<open>CANCEL_TASK\<close>, with the identifier and the index of
  the loop, where the loop's guard is two reads; \<open>U_QScan\<close> to \<open>U_QCopyOut\<close>: \<open>QUERY_TASK\<close>, with the
  status filled so far, and at \<open>U_QExec\<close> the completion time already read. \<open>U_Ret\<close> is the return from the system call.
\<close>

datatype user_pc =
    U_Alloc cortex_forge_task_desc
  | U_Fill nat cortex_forge_task_desc
  | U_Check nat cortex_forge_task_desc
  | U_Pending nat cortex_forge_task_desc
  | U_Stamp nat cortex_forge_task_desc
  | U_Enqueue nat cortex_forge_task_desc
  | U_Undo nat int
  | U_Reply nat cortex_forge_task_desc
  | U_CopyOut cortex_forge_task_desc
  | U_CScan u32 nat
  | U_CTest u32 nat
  | U_CState u32 nat
  | U_CError u32 nat
  | U_CDone u32 nat
  | U_QScan u32 nat
  | U_QTest u32 nat
  | U_QId nat
  | U_QStatus nat cortex_forge_task_status
  | U_QComplete nat cortex_forge_task_status
  | U_QExec nat u64 cortex_forge_task_status
  | U_QError nat cortex_forge_task_status
  | U_QCopyOut cortex_forge_task_status
  | U_Ret int

fun ioctl_thread :: "u64 \<Rightarrow> u64 \<Rightarrow> user_pc \<Rightarrow> cortex_forge_dev \<Rightarrow> user_pc \<times> cortex_forge_dev" where
  "ioctl_thread hz now (U_Alloc desc) d =
     (case task_alloc (tasks d, free_tasks d, next_task_id d) of
        (None, _) \<Rightarrow> (U_Ret (neg_errno ENOMEM), d)
      | (Some i, (ts, fl, nid)) \<Rightarrow>
          (U_Fill i desc, d\<lparr>tasks := ts, free_tasks := fl, next_task_id := nid\<rparr>))"
| "ioctl_thread hz now (U_Fill i desc) d =
     (U_Check i desc, d\<lparr>tasks := upd_task i (fill_task desc) (tasks d)\<rparr>)"
| "ioctl_thread hz now (U_Check i desc) d =
     ((if unat (t_accel_type (tasks d ! i)) \<ge> NUM_ACCELERATORS then U_Undo i (neg_errno EINVAL)
       else U_Pending i desc), d)"
| "ioctl_thread hz now (U_Pending i desc) d =
     (U_Stamp i desc, d\<lparr>tasks := upd_task i (\<lambda>t. t\<lparr>t_state := TASK_STATE_PENDING\<rparr>) (tasks d)\<rparr>)"
| "ioctl_thread hz now (U_Stamp i desc) d =
     (U_Enqueue i desc, d\<lparr>tasks := upd_task i (\<lambda>t. t\<lparr>t_submit_jiffies := now\<rparr>) (tasks d)\<rparr>)"
| "ioctl_thread hz now (U_Enqueue i desc) d =
     (U_Reply i desc, d\<lparr>accelerators := upd_accel (unat (td_accel_type desc))
        (\<lambda>ac. ac\<lparr>a_task_queue := list_add_tail i (a_task_queue ac)\<rparr>) (accelerators d)\<rparr>)"
| "ioctl_thread hz now (U_Undo i ret) d =
     (let (ts, fl) = task_free i (tasks d, free_tasks d) in (U_Ret ret, d\<lparr>tasks := ts, free_tasks := fl\<rparr>))"
| "ioctl_thread hz now (U_Reply i desc) d = (U_CopyOut (desc\<lparr>td_task_id := t_id (tasks d ! i)\<rparr>), d)"
| "ioctl_thread hz now (U_CScan tid i) d =
     ((if i < MAX_TASKS then (if t_id (tasks d ! i) = tid then U_CTest tid i else U_CScan tid (Suc i))
       else U_Ret (neg_errno ENOENT)), d)"
| "ioctl_thread hz now (U_CTest tid i) d =
     ((if t_state (tasks d ! i) \<noteq> TASK_STATE_FREE then U_CState tid i else U_CScan tid (Suc i)), d)"
| "ioctl_thread hz now (U_CState tid i) d =
     (U_CError tid i, d\<lparr>tasks := upd_task i (\<lambda>t. t\<lparr>t_state := TASK_STATE_CANCELLED\<rparr>) (tasks d)\<rparr>)"
| "ioctl_thread hz now (U_CError tid i) d =
     (U_CDone tid i,
      d\<lparr>tasks := upd_task i (\<lambda>t. t\<lparr>t_error_code := word_of_int (neg_errno ECANCELED)\<rparr>) (tasks d)\<rparr>)"
| "ioctl_thread hz now (U_CDone tid i) d =
     (U_Ret 0, d\<lparr>tasks := upd_task i (\<lambda>t. t\<lparr>t_done := True\<rparr>) (tasks d)\<rparr>)"
| "ioctl_thread hz now (U_QScan tid i) d =
     ((if i < MAX_TASKS then (if t_id (tasks d ! i) = tid then U_QTest tid i else U_QScan tid (Suc i))
       else U_Ret (neg_errno ENOENT)), d)"
| "ioctl_thread hz now (U_QTest tid i) d =
     ((if t_state (tasks d ! i) \<noteq> TASK_STATE_FREE then U_QId i else U_QScan tid (Suc i)), d)"
| "ioctl_thread hz now (U_QId i) d =
     (U_QStatus i \<lparr>ts_task_id = t_id (tasks d ! i), ts_status = 0, ts_exec_usec = 0, ts_error_code = 0,
        ts_reserved = [0, 0, 0]\<rparr>, d)"
| "ioctl_thread hz now (U_QStatus i st) d =
     (U_QComplete i (st\<lparr>ts_status := task_state_val (t_state (tasks d ! i))\<rparr>), d)"
| "ioctl_thread hz now (U_QComplete i st) d = (U_QExec i (t_complete_jiffies (tasks d ! i)) st, d)"
| "ioctl_thread hz now (U_QExec i completed st) d =
     (U_QError i (st\<lparr>ts_exec_usec := (completed - t_submit_jiffies (tasks d ! i)) * 1000000 div hz\<rparr>), d)"
| "ioctl_thread hz now (U_QError i st) d =
     (U_QCopyOut (st\<lparr>ts_error_code := t_error_code (tasks d ! i)\<rparr>), d)"
| "ioctl_thread hz now (U_CopyOut desc) d = (U_CopyOut desc, d)"
| "ioctl_thread hz now (U_QCopyOut st) d = (U_QCopyOut st, d)"
| "ioctl_thread hz now (U_Ret r) d = (U_Ret r, d)"

section \<open>The thread that stops the workers\<close>

text \<open>
  \<open>accel_stop_workers\<close> in remove, one accelerator after the other. \<open>kthread_stop\<close> sets the
  thread's stop flag and then waits until the thread function has returned.
\<close>

datatype stop_pc =
    S_Idle
  | S_Test nat
  | S_Flag nat
  | S_Stop nat
  | S_Join nat
  | S_Done

fun stop_thread :: "(nat \<Rightarrow> worker_pc) \<Rightarrow> stop_pc \<Rightarrow> (nat \<Rightarrow> bool) \<times> cortex_forge_accel list \<Rightarrow>
    (stop_pc \<times> (nat \<Rightarrow> bool) \<times> cortex_forge_accel list) option" where
  "stop_thread wk (S_Test a) (stop, as) =
     Some (if a < NUM_ACCELERATORS then
             (if a_worker_thread (as ! a) \<noteq> NULL then S_Flag a else S_Test (Suc a))
           else S_Done, stop, as)"
| "stop_thread wk (S_Flag a) (stop, as) =
     Some (S_Stop a, stop, upd_accel a (\<lambda>ac. ac\<lparr>a_running := 0\<rparr>) as)"
| "stop_thread wk (S_Stop a) (stop, as) = Some (S_Join a, stop(a := True), as)"
| "stop_thread wk (S_Join a) (stop, as) =
     (if wk a = W_Exit then
        Some (S_Test (Suc a), stop, upd_accel a (\<lambda>ac. ac\<lparr>a_worker_thread := NULL\<rparr>) as)
      else None)"
| "stop_thread wk S_Idle (stop, as) = None"
| "stop_thread wk S_Done (stop, as) = None"

section \<open>The system\<close>

record forge_sys =
  s_dev :: cortex_forge_dev
  s_wk :: "nat \<Rightarrow> worker_pc"
  s_ut :: "nat \<Rightarrow> user_pc"
  s_sp :: stop_pc
  s_stop :: "nat \<Rightarrow> bool"
  s_now :: u64

definition worker_move :: "(u32 \<Rightarrow> u64) \<Rightarrow> nat \<Rightarrow> forge_sys \<Rightarrow> forge_sys" where
  "worker_move m2j a s =
     (let (pc, (ts, ac)) = accel_worker_thread m2j (s_now s) (s_stop s a) (s_wk s a)
            (tasks (s_dev s), accelerators (s_dev s) ! a)
      in s\<lparr>s_wk := (s_wk s)(a := pc),
           s_dev := (s_dev s)\<lparr>tasks := ts, accelerators := (accelerators (s_dev s))[a := ac]\<rparr>\<rparr>)"

definition user_move :: "u64 \<Rightarrow> nat \<Rightarrow> forge_sys \<Rightarrow> forge_sys" where
  "user_move hz u s =
     (let (pc, d) = ioctl_thread hz (s_now s) (s_ut s u) (s_dev s)
      in s\<lparr>s_ut := (s_ut s)(u := pc), s_dev := d\<rparr>)"

text \<open>The system calls a thread may make next: the points at which they enter shared memory.\<close>

definition call_entry :: "user_pc \<Rightarrow> bool" where
  "call_entry pc \<longleftrightarrow>
     (case pc of U_Alloc desc \<Rightarrow> check_desc desc = None | U_CScan tid i \<Rightarrow> i = 0 | U_QScan tid i \<Rightarrow> i = 0
      | _ \<Rightarrow> False)"

text \<open>Copying the result to user memory succeeds or faults.\<close>

definition copies_out :: "user_pc \<Rightarrow> bool" where
  "copies_out pc \<longleftrightarrow> (case pc of U_CopyOut _ \<Rightarrow> True | U_QCopyOut _ \<Rightarrow> True | _ \<Rightarrow> False)"

inductive sys_step :: "(u32 \<Rightarrow> u64) \<Rightarrow> u64 \<Rightarrow> forge_sys \<Rightarrow> forge_sys \<Rightarrow> bool" for m2j hz where
  step_clock: "sys_step m2j hz s (s\<lparr>s_now := t\<rparr>)"
| step_worker: "a < NUM_ACCELERATORS \<Longrightarrow> sys_step m2j hz s (worker_move m2j a s)"
| step_call: "s_ut s u = U_Ret r \<Longrightarrow> call_entry pc \<Longrightarrow> sys_step m2j hz s (s\<lparr>s_ut := (s_ut s)(u := pc)\<rparr>)"
| step_user: "sys_step m2j hz s (user_move hz u s)"
| step_copy: "copies_out (s_ut s u) \<Longrightarrow> r \<in> {0, neg_errno EFAULT} \<Longrightarrow>
    sys_step m2j hz s (s\<lparr>s_ut := (s_ut s)(u := U_Ret r)\<rparr>)"
| step_remove: "s_sp s = S_Idle \<Longrightarrow> sys_step m2j hz s (s\<lparr>s_sp := S_Test 0\<rparr>)"
| step_stop: "stop_thread (s_wk s) (s_sp s) (s_stop s, accelerators (s_dev s)) = Some (pc, st, as) \<Longrightarrow>
    sys_step m2j hz s (s\<lparr>s_sp := pc, s_stop := st, s_dev := (s_dev s)\<lparr>accelerators := as\<rparr>\<rparr>)"

text \<open>The driver as a successful probe leaves it.\<close>

definition boot :: "cortex_forge_dev \<Rightarrow> u64 \<Rightarrow> forge_sys" where
  "boot d now = \<lparr>s_dev = d, s_wk = (\<lambda>_. W_Loop), s_ut = (\<lambda>_. U_Ret 0), s_sp = S_Idle,
     s_stop = (\<lambda>_. False), s_now = now\<rparr>"

definition sys_init :: "forge_sys \<Rightarrow> bool" where
  "sys_init s \<longleftrightarrow> (\<exists>env d cs now. kernel_errors env \<and> cortex_forge_probe env = (0, Some d, cs) \<and> s = boot d now)"

abbreviation running_system :: "(u32 \<Rightarrow> u64) \<Rightarrow> u64 \<Rightarrow> forge_sys \<Rightarrow> bool" where
  "running_system m2j hz \<equiv> reach sys_init (sys_step m2j hz)"

section \<open>The life of a slot\<close>

text \<open>
  The abstract machine: where each slot of the pool is. A free slot is claimed by the thread
  that submits a task, put on the queue of an accelerator, taken by its worker, and retired when
  the worker is done with it. There is no other move.
\<close>

datatype place =
    P_Free
  | P_Held nat
  | P_Queued nat
  | P_Active nat
  | P_Retired

definition life_init :: "(nat \<Rightarrow> place) \<Rightarrow> bool" where
  "life_init loc \<longleftrightarrow> (\<forall>i < MAX_TASKS. loc i = P_Free)"

inductive life_step :: "(nat \<Rightarrow> place) \<Rightarrow> (nat \<Rightarrow> place) \<Rightarrow> bool" where
  life_claim: "i < MAX_TASKS \<Longrightarrow> loc i = P_Free \<Longrightarrow> life_step loc (loc(i := P_Held u))"
| life_enqueue: "i < MAX_TASKS \<Longrightarrow> loc i = P_Held u \<Longrightarrow> a < NUM_ACCELERATORS \<Longrightarrow>
    life_step loc (loc(i := P_Queued a))"
| life_dispatch: "i < MAX_TASKS \<Longrightarrow> loc i = P_Queued a \<Longrightarrow> life_step loc (loc(i := P_Active a))"
| life_retire: "i < MAX_TASKS \<Longrightarrow> loc i = P_Active a \<Longrightarrow> life_step loc (loc(i := P_Retired))"

fun life_rank :: "place \<Rightarrow> nat" where
  "life_rank P_Free = 0"
| "life_rank (P_Held u) = 1"
| "life_rank (P_Queued a) = 2"
| "life_rank (P_Active a) = 3"
| "life_rank P_Retired = 4"

lemma life_step_rank: "life_step loc loc' \<Longrightarrow> life_rank (loc i) \<le> life_rank (loc' i)"
  by (induction rule: life_step.induct) auto

lemma life_steps_rank: "steps life_step loc loc' \<Longrightarrow> life_rank (loc i) \<le> life_rank (loc' i)"
proof (induction rule: steps.induct)
  case (steps_step loc loc' loc'')
  with life_step_rank [OF steps_step.hyps(2), of i] show ?case by simp
qed simp

lemma life_step_stays:
  "life_step loc loc' \<Longrightarrow> loc i \<in> {P_Queued a, P_Active a, P_Retired} \<Longrightarrow> loc' i \<in> {P_Queued a, P_Active a, P_Retired}"
  by (induction rule: life_step.induct) auto

lemma life_steps_stays:
  "steps life_step loc loc' \<Longrightarrow> loc i \<in> {P_Queued a, P_Active a, P_Retired} \<Longrightarrow> loc' i \<in> {P_Queued a, P_Active a, P_Retired}"
proof (induction rule: steps.induct)
  case (steps_step loc loc' loc'')
  then show ?case using life_step_stays by blast
qed simp

section \<open>Where the slots are in the running driver\<close>

text \<open>The slot a thread of each kind has in its hands, and the states a task may then be in.\<close>

fun holder :: "user_pc \<Rightarrow> nat option" where
  "holder (U_Fill i desc) = Some i"
| "holder (U_Check i desc) = Some i"
| "holder (U_Pending i desc) = Some i"
| "holder (U_Stamp i desc) = Some i"
| "holder (U_Enqueue i desc) = Some i"
| "holder (U_Undo i r) = Some i"
| "holder _ = None"

fun working :: "worker_pc \<Rightarrow> nat option" where
  "working (W_SetRunning i) = Some i"
| "working (W_LoadUp i) = Some i"
| "working (W_Start i) = Some i"
| "working (W_Spin i timeout start) = Some i"
| "working (W_Msleep i timeout start) = Some i"
| "working (W_Sleep10 i) = Some i"
| "working (W_Stamp i) = Some i"
| "working (W_SetComplete i) = Some i"
| "working (W_ClearError i) = Some i"
| "working (W_LoadDown i) = Some i"
| "working (W_CompleteAll i) = Some i"
| "working (W_Unlink i) = Some i"
| "working _ = None"

text \<open>The slots at each place, read off the lists and the threads; retired slots are in none.\<close>

fun occupants :: "nat list \<Rightarrow> (nat \<Rightarrow> nat list) \<Rightarrow> (nat \<Rightarrow> nat option) \<Rightarrow> (nat \<Rightarrow> nat option) \<Rightarrow>
    place \<Rightarrow> nat set" where
  "occupants fl q w h P_Free = set fl"
| "occupants fl q w h (P_Held u) = set_option (h u)"
| "occupants fl q w h (P_Queued a) = (if a < NUM_ACCELERATORS then set (q a) else {})"
| "occupants fl q w h (P_Active a) = (if a < NUM_ACCELERATORS then set_option (w a) else {})"
| "occupants fl q w h P_Retired = {}"

definition located :: "nat list \<Rightarrow> (nat \<Rightarrow> nat list) \<Rightarrow> (nat \<Rightarrow> nat option) \<Rightarrow> (nat \<Rightarrow> nat option) \<Rightarrow>
    (nat \<Rightarrow> place) \<Rightarrow> bool" where
  "located fl q w h loc \<longleftrightarrow>
     distinct fl \<and> (\<forall>a < NUM_ACCELERATORS. distinct (q a)) \<and>
     (\<forall>p. p \<noteq> P_Retired \<longrightarrow> occupants fl q w h p = {i. i < MAX_TASKS \<and> loc i = p})"

lemma located_at:
  assumes "located fl q w h loc" and "i \<in> occupants fl q w h p"
  shows "i < MAX_TASKS" and "loc i = p"
proof -
  have "p \<noteq> P_Retired" using assms(2) by auto
  with assms show "i < MAX_TASKS" and "loc i = p" by (auto simp: located_def)
qed

lemma located_iff:
  assumes "located fl q w h loc" and "i < MAX_TASKS" and "p \<noteq> P_Retired"
  shows "loc i = p \<longleftrightarrow> i \<in> occupants fl q w h p"
  using assms by (auto simp: located_def)

lemma located_move:
  assumes l: "located fl q w h loc" and i: "i \<in> occupants fl q w h p0" and "p0 \<noteq> p1"
    and d: "distinct fl'" "\<forall>a < NUM_ACCELERATORS. distinct (q' a)"
    and o: "\<And>p. p \<noteq> P_Retired \<Longrightarrow> occupants fl' q' w' h' p =
      (if p = p0 then occupants fl q w h p - {i} else if p = p1 then insert i (occupants fl q w h p)
       else occupants fl q w h p)"
  shows "located fl' q' w' h' (loc(i := p1))"
  unfolding located_def
proof (intro conjI allI impI)
  fix p assume p: "p \<noteq> P_Retired"
  have "occupants fl q w h p = {i. i < MAX_TASKS \<and> loc i = p}"
    using l p by (simp add: located_def)
  with located_at [OF l i] \<open>p0 \<noteq> p1\<close> show "occupants fl' q' w' h' p = {j. j < MAX_TASKS \<and> (loc(i := p1)) j = p}"
    unfolding o [OF p] by (auto split: if_splits)
qed (use d in auto)

lemma located_claim:
  assumes l: "located (i # fl) q w h loc" and "h u = None"
  shows "located fl q w (h(u := Some i)) (loc(i := P_Held u))"
proof (rule located_move [OF l, of i P_Free])
  show "occupants fl q w (h(u := Some i)) p =
      (if p = P_Free then occupants (i # fl) q w h p - {i}
       else if p = P_Held u then insert i (occupants (i # fl) q w h p) else occupants (i # fl) q w h p)" for p
    using l assms(2) by (cases p) (auto simp: located_def)
qed (use l in \<open>auto simp: located_def\<close>)

lemma located_enqueue:
  assumes l: "located fl q w h loc" and h: "h u = Some i" and a: "a < NUM_ACCELERATORS"
  shows "located fl (q(a := q a @ [i])) w (h(u := None)) (loc(i := P_Queued a))"
proof (rule located_move [OF l, of i "P_Held u"])
  have "i \<notin> occupants fl q w h (P_Queued a)"
    using located_at(2) [OF l, of i "P_Held u"] located_at(2) [OF l, of i "P_Queued a"] h by auto
  then show "\<forall>b < NUM_ACCELERATORS. distinct ((q(a := q a @ [i])) b)"
    using l a by (auto simp: located_def)
  show "occupants fl (q(a := q a @ [i])) w (h(u := None)) p =
      (if p = P_Held u then occupants fl q w h p - {i}
       else if p = P_Queued a then insert i (occupants fl q w h p) else occupants fl q w h p)" for p
    using h a by (cases p) auto
qed (use l h in \<open>auto simp: located_def\<close>)

lemma located_dispatch:
  assumes l: "located fl q w h loc" and q: "q a = i # r" and "w a = None" and a: "a < NUM_ACCELERATORS"
  shows "located fl (q(a := r)) (w(a := Some i)) h (loc(i := P_Active a))"
proof (rule located_move [OF l, of i "P_Queued a"])
  have d: "distinct (i # r)" using l q a unfolding located_def by metis
  then show "\<forall>b < NUM_ACCELERATORS. distinct ((q(a := r)) b)"
    using l by (auto simp: located_def)
  show "occupants fl (q(a := r)) (w(a := Some i)) h p =
      (if p = P_Queued a then occupants fl q w h p - {i}
       else if p = P_Active a then insert i (occupants fl q w h p) else occupants fl q w h p)" for p
    using d q assms(3) a by (cases p) auto
qed (use l q a in \<open>auto simp: located_def\<close>)

lemma located_retire:
  assumes l: "located fl q w h loc" and w: "w a = Some i" and a: "a < NUM_ACCELERATORS"
  shows "located fl q (w(a := None)) h (loc(i := P_Retired))"
proof (rule located_move [OF l, of i "P_Active a"])
  show "occupants fl q (w(a := None)) h p =
      (if p = P_Active a then occupants fl q w h p - {i}
       else if p = P_Retired then insert i (occupants fl q w h p) else occupants fl q w h p)"
    if "p \<noteq> P_Retired" for p
    using w a that by (cases p) auto
qed (use l w a in \<open>auto simp: located_def\<close>)

section \<open>The simulation relation\<close>

fun user_states :: "user_pc \<Rightarrow> task_state set" where
  "user_states (U_Stamp i desc) = {TASK_STATE_PENDING, TASK_STATE_CANCELLED}"
| "user_states (U_Enqueue i desc) = {TASK_STATE_PENDING, TASK_STATE_CANCELLED}"
| "user_states _ = {TASK_STATE_FREE}"

fun worker_states :: "worker_pc \<Rightarrow> task_state set" where
  "worker_states (W_SetRunning i) = {TASK_STATE_PENDING, TASK_STATE_CANCELLED}"
| "worker_states (W_ClearError i) = {TASK_STATE_COMPLETE, TASK_STATE_CANCELLED}"
| "worker_states (W_LoadDown i) = {TASK_STATE_COMPLETE, TASK_STATE_CANCELLED}"
| "worker_states (W_CompleteAll i) = {TASK_STATE_COMPLETE, TASK_STATE_CANCELLED}"
| "worker_states (W_Unlink i) = {TASK_STATE_COMPLETE, TASK_STATE_CANCELLED}"
| "worker_states _ = {TASK_STATE_RUNNING, TASK_STATE_CANCELLED}"

fun place_states :: "(nat \<Rightarrow> worker_pc) \<Rightarrow> (nat \<Rightarrow> user_pc) \<Rightarrow> place \<Rightarrow> task_state set" where
  "place_states wk ut P_Free = {TASK_STATE_FREE}"
| "place_states wk ut (P_Held u) = user_states (ut u)"
| "place_states wk ut (P_Queued a) = {TASK_STATE_PENDING, TASK_STATE_CANCELLED}"
| "place_states wk ut (P_Active a) = worker_states (wk a)"
| "place_states wk ut P_Retired = {TASK_STATE_COMPLETE, TASK_STATE_CANCELLED}"

text \<open>The load a worker accounts for while it is between its two updates.\<close>

fun worker_load :: "worker_pc \<Rightarrow> u32" where
  "worker_load (W_Start i) = 10"
| "worker_load (W_Spin i timeout start) = 10"
| "worker_load (W_Msleep i timeout start) = 10"
| "worker_load (W_Sleep10 i) = 10"
| "worker_load (W_Stamp i) = 10"
| "worker_load (W_SetComplete i) = 10"
| "worker_load (W_ClearError i) = 10"
| "worker_load (W_LoadDown i) = 10"
| "worker_load _ = 0"

text \<open>What a system call knows at each of its points.\<close>

fun user_ok :: "cortex_forge_task list \<Rightarrow> (nat \<Rightarrow> place) \<Rightarrow> user_pc \<Rightarrow> bool" where
  "user_ok ts loc (U_Alloc desc) = (check_desc desc = None)"
| "user_ok ts loc (U_Fill i desc) = (check_desc desc = None)"
| "user_ok ts loc (U_Check i desc) = (check_desc desc = None \<and> t_accel_type (ts ! i) = td_accel_type desc)"
| "user_ok ts loc (U_Pending i desc) = (check_desc desc = None \<and> t_accel_type (ts ! i) = td_accel_type desc)"
| "user_ok ts loc (U_Stamp i desc) = (check_desc desc = None \<and> t_accel_type (ts ! i) = td_accel_type desc)"
| "user_ok ts loc (U_Enqueue i desc) = (check_desc desc = None \<and> t_accel_type (ts ! i) = td_accel_type desc)"
| "user_ok ts loc (U_Undo i r) = False"
| "user_ok ts loc (U_Reply i desc) = (i < MAX_TASKS \<and> loc i \<noteq> P_Free)"
| "user_ok ts loc (U_CTest tid i) = (i < MAX_TASKS \<and> (tid \<noteq> 0 \<longrightarrow> t_id (ts ! i) = tid))"
| "user_ok ts loc (U_CState tid i) =
     (i < MAX_TASKS \<and> t_state (ts ! i) \<noteq> TASK_STATE_FREE \<and> (tid \<noteq> 0 \<longrightarrow> t_id (ts ! i) = tid))"
| "user_ok ts loc (U_CError tid i) =
     (i < MAX_TASKS \<and> t_state (ts ! i) \<noteq> TASK_STATE_FREE \<and> (tid \<noteq> 0 \<longrightarrow> t_id (ts ! i) = tid))"
| "user_ok ts loc (U_CDone tid i) =
     (i < MAX_TASKS \<and> t_state (ts ! i) \<noteq> TASK_STATE_FREE \<and> (tid \<noteq> 0 \<longrightarrow> t_id (ts ! i) = tid))"
| "user_ok ts loc _ = True"

abbreviation queues :: "cortex_forge_accel list \<Rightarrow> nat \<Rightarrow> nat list" where
  "queues as \<equiv> (\<lambda>a. a_task_queue (as ! a))"

definition pool_ok :: "cortex_forge_task list \<Rightarrow> nat list \<Rightarrow> u32 \<Rightarrow> (nat \<Rightarrow> place) \<Rightarrow> bool" where
  "pool_ok ts fl nid loc \<longleftrightarrow> unat nid + length fl = MAX_TASKS \<and>
     (\<forall>i < MAX_TASKS. if loc i = P_Free then t_id (ts ! i) = 0
        else 1 \<le> unat (t_id (ts ! i)) \<and> unat (t_id (ts ! i)) \<le> unat nid) \<and>
     (\<forall>i < MAX_TASKS. \<forall>j < MAX_TASKS. loc i \<noteq> P_Free \<longrightarrow> t_id (ts ! i) = t_id (ts ! j) \<longrightarrow> i = j)"

definition slots_ok :: "cortex_forge_task list \<Rightarrow> (nat \<Rightarrow> worker_pc) \<Rightarrow> (nat \<Rightarrow> user_pc) \<Rightarrow>
    (nat \<Rightarrow> place) \<Rightarrow> bool" where
  "slots_ok ts wk ut loc \<longleftrightarrow> (\<forall>i < MAX_TASKS.
     t_state (ts ! i) \<in> place_states wk ut (loc i) \<and>
     (\<forall>a. loc i = P_Queued a \<or> loc i = P_Active a \<longrightarrow> unat (t_accel_type (ts ! i)) = a) \<and>
     (loc i = P_Retired \<or> (\<exists>a. loc i = P_Active a \<and> wk a = W_Unlink i) \<longrightarrow> t_done (ts ! i)))"

definition accels_ok :: "cortex_forge_accel list \<Rightarrow> (nat \<Rightarrow> worker_pc) \<Rightarrow> bool" where
  "accels_ok as wk \<longleftrightarrow> (\<forall>a < NUM_ACCELERATORS.
     a_active_tasks (as ! a) = (case working (wk a) of None \<Rightarrow> [] | Some i \<Rightarrow> [i]) \<and>
     a_load_percent (as ! a) = worker_load (wk a))"

definition sim_parts :: "cortex_forge_task list \<Rightarrow> nat list \<Rightarrow> u32 \<Rightarrow> cortex_forge_accel list \<Rightarrow>
    (nat \<Rightarrow> worker_pc) \<Rightarrow> (nat \<Rightarrow> user_pc) \<Rightarrow> (nat \<Rightarrow> place) \<Rightarrow> bool" where
  "sim_parts ts fl nid as wk ut loc \<longleftrightarrow> length ts = MAX_TASKS \<and> length as = NUM_ACCELERATORS \<and>
     located fl (queues as) (\<lambda>a. working (wk a)) (\<lambda>u. holder (ut u)) loc \<and>
     pool_ok ts fl nid loc \<and> slots_ok ts wk ut loc \<and> accels_ok as wk \<and> (\<forall>u. user_ok ts loc (ut u))"

definition sim_rel :: "forge_sys \<Rightarrow> (nat \<Rightarrow> place) \<Rightarrow> bool" where
  "sim_rel s loc \<longleftrightarrow> sim_parts (tasks (s_dev s)) (free_tasks (s_dev s)) (next_task_id (s_dev s))
     (accelerators (s_dev s)) (s_wk s) (s_ut s) loc"

lemma sim_partsD:
  assumes "sim_parts ts fl nid as wk ut loc"
  shows "length ts = MAX_TASKS" and "length as = NUM_ACCELERATORS"
    and "located fl (queues as) (\<lambda>a. working (wk a)) (\<lambda>u. holder (ut u)) loc"
    and "pool_ok ts fl nid loc" and "slots_ok ts wk ut loc" and "accels_ok as wk"
    and "user_ok ts loc (ut u)"
  using assms by (simp_all add: sim_parts_def)

lemma sim_rel_init:
  assumes "sys_init s"
  shows "\<exists>loc. life_init loc \<and> sim_rel s loc"
proof -
  from assms obtain env d cs now where k: "kernel_errors env" "cortex_forge_probe env = (0, Some d, cs)"
    and s: "s = boot d now"
    by (auto simp: sys_init_def)
  note d = probe_outcome(2) [OF k refl]
  have acc: "a < NUM_ACCELERATORS \<Longrightarrow>
      accelerators d ! a = (init_accels ! a)\<lparr>a_worker_thread := pe_krun env a\<rparr>" for a
    using d by (simp add: nth_with_workers)
  have pool: "tasks d = replicate MAX_TASKS zero_task" "free_tasks d = [0..<MAX_TASKS]" "next_task_id d = 0"
    "length (accelerators d) = NUM_ACCELERATORS"
    using d by (simp_all add: pre_workers_def probe_setup_zero)
  have "occupants [0..<MAX_TASKS] (queues (accelerators d)) (\<lambda>a. None) (\<lambda>u. None) p = {i. i < MAX_TASKS \<and> P_Free = p}" for p
    using acc init_accels_nth by (cases p) auto
  then have "located [0..<MAX_TASKS] (queues (accelerators d)) (\<lambda>a. None) (\<lambda>u. None) (\<lambda>_. P_Free)"
    using acc init_accels_nth by (simp add: located_def)
  moreover have "life_init (\<lambda>_. P_Free)" by (simp add: life_init_def)
  ultimately show ?thesis
    using acc init_accels_nth
    by (intro exI [of _ "\<lambda>_. P_Free"])
      (simp add: s boot_def sim_rel_def sim_parts_def pool pool_ok_def slots_ok_def accels_ok_def zero_task_def)
qed

subsection \<open>Frame lemmas\<close>

text \<open>
  A write to a slot that keeps the identifier and the target and does not free it is harmless
  to the pool and to every system call; so is moving a slot that is not free.
\<close>

definition harmless :: "(cortex_forge_task \<Rightarrow> cortex_forge_task) \<Rightarrow> cortex_forge_task \<Rightarrow> bool" where
  "harmless f t \<longleftrightarrow> t_id (f t) = t_id t \<and> t_accel_type (f t) = t_accel_type t \<and>
     (t_state t \<noteq> TASK_STATE_FREE \<longrightarrow> t_state (f t) \<noteq> TASK_STATE_FREE)"

lemma upd_task_ident [simp]: "upd_task i (\<lambda>t. t) ts = ts"
  by (simp add: upd_task_def)

lemma user_ok_upd:
  "user_ok ts loc pc \<Longrightarrow> i < length ts \<Longrightarrow> harmless f (ts ! i) \<Longrightarrow> user_ok (upd_task i f ts) loc pc"
  by (cases pc) (auto simp: nth_upd_task harmless_def)

lemma user_ok_loc: "user_ok ts loc pc \<Longrightarrow> p \<noteq> P_Free \<Longrightarrow> user_ok ts (loc(i := p)) pc"
  by (cases pc) auto

lemma pool_ok_upd:
  "pool_ok ts fl nid loc \<Longrightarrow> i < length ts \<Longrightarrow> t_id (f (ts ! i)) = t_id (ts ! i) \<Longrightarrow>
   pool_ok (upd_task i f ts) fl nid loc"
proof -
  assume "i < length ts" "t_id (f (ts ! i)) = t_id (ts ! i)"
  then have "t_id (upd_task i f ts ! j) = t_id (ts ! j)" for j by (simp add: nth_upd_task)
  then show "pool_ok ts fl nid loc \<Longrightarrow> pool_ok (upd_task i f ts) fl nid loc"
    unfolding pool_ok_def by metis
qed

lemma pool_ok_loc:
  assumes "pool_ok ts fl nid loc" and "loc i \<noteq> P_Free" and "p \<noteq> P_Free"
  shows "pool_ok ts fl nid (loc(i := p))"
proof -
  have "(loc(i := p)) j = P_Free \<longleftrightarrow> loc j = P_Free" for j
    using assms(2,3) by simp
  with assms(1) show ?thesis unfolding pool_ok_def by presburger
qed

lemma working_upd: "(\<lambda>b. working ((wk(a := pc)) b)) = (\<lambda>b. working (wk b))(a := working pc)"
  by auto

lemma working_None_load: "working pc = None \<Longrightarrow> worker_load pc = 0"
  by (cases pc) simp_all

lemma holder_upd: "(\<lambda>b. holder ((ut(u := pc)) b)) = (\<lambda>b. holder (ut b))(u := holder pc)"
  by auto

lemma queues_upd:
  "a < length as \<Longrightarrow> (\<lambda>b. a_task_queue (as[a := ac] ! b)) = (\<lambda>b. a_task_queue (as ! b))(a := a_task_queue ac)"
  by (auto simp: nth_list_update)

lemma accels_ok_worker:
  assumes "accels_ok as wk" and "a < length as"
    and "a_active_tasks ac = (case working pc of None \<Rightarrow> [] | Some i \<Rightarrow> [i])"
    and "a_load_percent ac = worker_load pc"
  shows "accels_ok (as[a := ac]) (wk(a := pc))"
  using assms by (auto simp: accels_ok_def nth_list_update)

lemma place_states_other: "loc i \<noteq> P_Active a \<Longrightarrow> place_states (wk(a := pc)) ut (loc i) = place_states wk ut (loc i)"
  by (cases "loc i") auto

lemma place_states_other_user:
  "loc i \<noteq> P_Held u \<Longrightarrow> place_states wk (ut(u := pc)) (loc i) = place_states wk ut (loc i)"
  by (cases "loc i") auto

lemma slots_okD:
  assumes "slots_ok ts wk ut loc" and "i < MAX_TASKS"
  shows "t_state (ts ! i) \<in> place_states wk ut (loc i)"
    and "loc i = P_Queued a \<or> loc i = P_Active a \<Longrightarrow> unat (t_accel_type (ts ! i)) = a"
    and "loc i = P_Retired \<or> (\<exists>a. loc i = P_Active a \<and> wk a = W_Unlink i) \<Longrightarrow> t_done (ts ! i)"
  using assms by (auto simp: slots_ok_def)

lemma slots_ok_worker:
  assumes s: "slots_ok ts wk ut loc" and len: "length ts = MAX_TASKS" and "i < MAX_TASKS"
    and loc: "\<And>j. j < MAX_TASKS \<Longrightarrow> loc j = P_Active a \<longleftrightarrow> j = i"
    and f: "t_state (f (ts ! i)) \<in> worker_states pc" "t_accel_type (f (ts ! i)) = t_accel_type (ts ! i)"
      "pc = W_Unlink i \<Longrightarrow> t_done (f (ts ! i))"
  shows "slots_ok (upd_task i f ts) (wk(a := pc)) ut loc"
  unfolding slots_ok_def
proof (intro allI impI)
  fix j assume j: "j < MAX_TASKS"
  note old = s [unfolded slots_ok_def, rule_format, OF j]
  show "t_state (upd_task i f ts ! j) \<in> place_states (wk(a := pc)) ut (loc j) \<and>
     (\<forall>b. loc j = P_Queued b \<or> loc j = P_Active b \<longrightarrow> unat (t_accel_type (upd_task i f ts ! j)) = b) \<and>
     (loc j = P_Retired \<or> (\<exists>b. loc j = P_Active b \<and> (wk(a := pc)) b = W_Unlink j) \<longrightarrow> t_done (upd_task i f ts ! j))"
  proof (cases "j = i")
    case True
    with old f loc [OF j] len \<open>i < MAX_TASKS\<close> show ?thesis by (auto simp: nth_upd_task)
  next
    case False
    with old loc [OF j] len \<open>i < MAX_TASKS\<close> show ?thesis
      by (auto simp: nth_upd_task place_states_other)
  qed
qed

subsection \<open>Steps of a worker\<close>

text \<open>A worker that stays with its slot: writes to the task, to the load, or to its locals.\<close>

lemma sim_worker_slot:
  assumes r: "sim_parts ts fl nid as wk ut loc" and a: "a < NUM_ACCELERATORS"
    and w: "working (wk a) = Some i" "working pc = Some i"
    and f: "harmless f (ts ! i)" "t_state (f (ts ! i)) \<in> worker_states pc"
      "pc = W_Unlink i \<Longrightarrow> t_done (f (ts ! i))"
    and ac: "a_task_queue ac = a_task_queue (as ! a)" "a_active_tasks ac = a_active_tasks (as ! a)"
      "a_load_percent ac = worker_load pc"
  shows "sim_parts (upd_task i f ts) fl nid (as[a := ac]) (wk(a := pc)) ut loc"
proof -
  note R = sim_partsD [OF r]
  have i: "i < MAX_TASKS" using located_at(1) [OF R(3), of i "P_Active a"] w(1) a by simp
  have loc: "loc j = P_Active a \<longleftrightarrow> j = i" if "j < MAX_TASKS" for j
    using located_iff [OF R(3) that, of "P_Active a"] w(1) a by auto
  have "located fl (queues (as[a := ac])) (\<lambda>b. working ((wk(a := pc)) b)) (\<lambda>u. holder (ut u)) loc"
    using R(3) a w ac(1) R(2) by (simp add: working_upd queues_upd fun_upd_idem del: fun_upd_apply)
  moreover have "slots_ok (upd_task i f ts) (wk(a := pc)) ut loc"
    by (rule slots_ok_worker [OF R(5) R(1) i loc]) (use f in \<open>auto simp: harmless_def\<close>)
  moreover have "accels_ok (as[a := ac]) (wk(a := pc))"
    by (rule accels_ok_worker [OF R(6)]) (use a w ac R(2) R(6) in \<open>auto simp: accels_ok_def\<close>)
  moreover have "pool_ok (upd_task i f ts) fl nid loc"
    by (rule pool_ok_upd [OF R(4)]) (use i R(1) f(1) in \<open>auto simp: harmless_def\<close>)
  moreover have "user_ok (upd_task i f ts) loc (ut u)" for u
    using user_ok_upd [OF R(7), of i f] i R(1) f(1) by simp
  ultimately show ?thesis using R(1,2) by (simp add: sim_parts_def)
qed

text \<open>A worker without a slot.\<close>

lemma sim_worker_idle:
  assumes r: "sim_parts ts fl nid as wk ut loc" and a: "a < NUM_ACCELERATORS"
    and w: "working (wk a) = None" "working pc = None"
  shows "sim_parts ts fl nid as (wk(a := pc)) ut loc"
proof -
  note R = sim_partsD [OF r]
  have loc: "loc j \<noteq> P_Active a" if "j < MAX_TASKS" for j
    using located_iff [OF R(3) that, of "P_Active a"] w(1) a by auto
  have "located fl (queues as) (\<lambda>b. working ((wk(a := pc)) b)) (\<lambda>u. holder (ut u)) loc"
    using R(3) w by (simp add: working_upd fun_upd_idem del: fun_upd_apply)
  moreover have "slots_ok ts (wk(a := pc)) ut loc"
    using R(5) loc by (auto simp: slots_ok_def place_states_other)
  moreover have "accels_ok as (wk(a := pc))"
    using R(6) w by (auto simp: accels_ok_def working_None_load)
  ultimately show ?thesis using R by (simp add: sim_parts_def)
qed

lemma sim_worker_takes:
  assumes r: "sim_parts ts fl nid as wk ut loc" and a: "a < NUM_ACCELERATORS"
    and w: "wk a = W_Lock" and q: "a_task_queue (as ! a) = i # rest"
    and ac: "ac = (as ! a)\<lparr>a_task_queue := rest, a_active_tasks := a_active_tasks (as ! a) @ [i]\<rparr>"
  shows "i < MAX_TASKS" and "loc i = P_Queued a"
    and "sim_parts ts fl nid (as[a := ac]) (wk(a := W_SetRunning i)) ut (loc(i := P_Active a))"
proof -
  note R = sim_partsD [OF r]
  show i: "i < MAX_TASKS" and q_i: "loc i = P_Queued a"
    using located_at [OF R(3), of i "P_Queued a"] q a by simp_all
  have loc: "loc j \<noteq> P_Active a" if "j < MAX_TASKS" for j
    using located_iff [OF R(3) that, of "P_Active a"] w a by auto
  have "located fl ((queues as)(a := rest)) ((\<lambda>b. working (wk b))(a := Some i)) (\<lambda>u. holder (ut u)) (loc(i := P_Active a))"
    by (rule located_dispatch [OF R(3)]) (use q w a in simp_all)
  then have "located fl (queues (as[a := ac])) (\<lambda>b. working ((wk(a := W_SetRunning i)) b)) (\<lambda>u. holder (ut u)) (loc(i := P_Active a))"
    using a R(2) by (simp add: working_upd queues_upd ac del: fun_upd_apply)
  moreover have "slots_ok ts (wk(a := W_SetRunning i)) ut (loc(i := P_Active a))"
    using R(5) loc i q_i by (auto simp: slots_ok_def place_states_other)
  moreover have "accels_ok (as[a := ac]) (wk(a := W_SetRunning i))"
    by (rule accels_ok_worker [OF R(6)]) (use R(2,6) a w in \<open>auto simp: accels_ok_def ac\<close>)
  moreover have "pool_ok ts fl nid (loc(i := P_Active a))"
    by (rule pool_ok_loc [OF R(4)]) (use q_i in simp_all)
  ultimately show "sim_parts ts fl nid (as[a := ac]) (wk(a := W_SetRunning i)) ut (loc(i := P_Active a))"
    using R user_ok_loc [OF R(7)] by (simp add: sim_parts_def)
qed

lemma sim_worker_retires:
  assumes r: "sim_parts ts fl nid as wk ut loc" and a: "a < NUM_ACCELERATORS"
    and w: "wk a = W_Unlink i"
    and ac: "ac = (as ! a)\<lparr>a_active_tasks := list_del i (a_active_tasks (as ! a))\<rparr>"
  shows "i < MAX_TASKS" and "loc i = P_Active a"
    and "sim_parts ts fl nid (as[a := ac]) (wk(a := W_Loop)) ut (loc(i := P_Retired))"
proof -
  note R = sim_partsD [OF r]
  show i: "i < MAX_TASKS" and q_i: "loc i = P_Active a"
    using located_at [OF R(3), of i "P_Active a"] w a by simp_all
  have loc: "loc j = P_Active a \<longleftrightarrow> j = i" if "j < MAX_TASKS" for j
    using located_iff [OF R(3) that, of "P_Active a"] w a by auto
  have "located fl (queues as) ((\<lambda>b. working (wk b))(a := None)) (\<lambda>u. holder (ut u)) (loc(i := P_Retired))"
    by (rule located_retire [OF R(3)]) (use w a in simp_all)
  then have "located fl (queues (as[a := ac])) (\<lambda>b. working ((wk(a := W_Loop)) b)) (\<lambda>u. holder (ut u)) (loc(i := P_Retired))"
    using a R(2) by (simp add: working_upd queues_upd ac fun_upd_idem del: fun_upd_apply)
  moreover have "t_state (ts ! i) = TASK_STATE_COMPLETE \<or> t_state (ts ! i) = TASK_STATE_CANCELLED" "t_done (ts ! i)"
    using slots_okD(1,3) [OF R(5) i] q_i w by auto
  then have "slots_ok ts (wk(a := W_Loop)) ut (loc(i := P_Retired))"
    using R(5) loc w by (auto simp: slots_ok_def place_states_other)
  moreover have "accels_ok (as[a := ac]) (wk(a := W_Loop))"
    by (rule accels_ok_worker [OF R(6)]) (use R(2,6) a w in \<open>auto simp: accels_ok_def ac list_del_def\<close>)
  moreover have "pool_ok ts fl nid (loc(i := P_Retired))"
    by (rule pool_ok_loc [OF R(4)]) (use q_i in simp_all)
  ultimately show "sim_parts ts fl nid (as[a := ac]) (wk(a := W_Loop)) ut (loc(i := P_Retired))"
    using R user_ok_loc [OF R(7)] by (simp add: sim_parts_def)
qed

lemma sim_worker_move:
  assumes r: "sim_rel s loc" and a: "a < NUM_ACCELERATORS"
  shows "\<exists>loc'. (loc' = loc \<or> life_step loc loc') \<and> sim_rel (worker_move m2j a s) loc'"
proof -
  let ?ts = "tasks (s_dev s)" and ?as = "accelerators (s_dev s)"
  note P = r [unfolded sim_rel_def]
  note R = sim_partsD [OF P]
  note slot = sim_worker_slot [OF P a] and idle = sim_worker_idle [OF P a]
  have keep: "?as[a := ?as ! a] = ?as" by simp
  have act: "a_load_percent (?as ! a) = worker_load (s_wk s a)"
    using R(6) a by (simp add: accels_ok_def)
  have st: "t_state (?ts ! i) \<in> worker_states (s_wk s a)" if "working (s_wk s a) = Some i" for i
    using located_at [OF R(3), of i "P_Active a"] slots_okD(1) [OF R(5), of i] that a by auto
  have stay: "sim_rel (worker_move m2j a s) loc \<Longrightarrow> ?thesis" by blast
  show ?thesis
  proof (cases "s_wk s a")
    case W_Loop
    with idle [of W_Wait] idle [of W_Exit] show ?thesis
      by (intro stay) (simp add: worker_move_def sim_rel_def)
  next
    case W_Wait
    with idle [of W_Recheck] show ?thesis by (intro stay) (simp add: worker_move_def sim_rel_def)
  next
    case W_Recheck
    with idle [of W_Lock] idle [of W_Exit] show ?thesis
      by (intro stay) (simp add: worker_move_def sim_rel_def)
  next
    case W_Exit
    with idle [of W_Exit] show ?thesis by (intro stay) (simp add: worker_move_def sim_rel_def)
  next
    case W_Lock
    show ?thesis
    proof (cases "a_task_queue (?as ! a)")
      case Nil
      with W_Lock idle [of W_Loop] show ?thesis
        by (intro stay) (simp add: worker_move_def sim_rel_def list_defs)
    next
      case (Cons i rest)
      note t = sim_worker_takes [OF P a W_Lock Cons refl]
      have "life_step loc (loc(i := P_Active a))" using t(1,2) by (rule life_dispatch)
      moreover have "sim_rel (worker_move m2j a s) (loc(i := P_Active a))"
        using t(3) W_Lock Cons by (simp add: worker_move_def sim_rel_def list_defs)
      ultimately show ?thesis by blast
    qed
  next
    case (W_SetRunning i)
    with slot [of i "W_LoadUp i" "\<lambda>t. t\<lparr>t_state := TASK_STATE_RUNNING\<rparr>" "?as ! a"] act show ?thesis
      by (intro stay) (simp add: worker_move_def sim_rel_def harmless_def)
  next
    case (W_LoadUp i)
    with slot [of i "W_Start i" "\<lambda>t. t" "(?as ! a)\<lparr>a_load_percent := load_up (a_load_percent (?as ! a))\<rparr>"]
      act st [of i] show ?thesis
      by (intro stay) (simp add: worker_move_def sim_rel_def harmless_def)
  next
    case (W_Start i)
    with slot [of i "W_Spin i (m2j (t_timeout_ms (?ts ! i))) (s_now s)" "\<lambda>t. t" "?as ! a"]
      slot [of i "W_Sleep10 i" "\<lambda>t. t" "?as ! a"] act st [of i] show ?thesis
      by (intro stay) (simp add: worker_move_def sim_rel_def harmless_def)
  next
    case (W_Spin i timeout start)
    with slot [of i "W_Msleep i timeout start" "\<lambda>t. t" "?as ! a"] slot [of i "W_Stamp i" "\<lambda>t. t" "?as ! a"]
      act st [of i] show ?thesis
      by (intro stay) (simp add: worker_move_def sim_rel_def harmless_def)
  next
    case (W_Msleep i timeout start)
    with slot [of i "W_Spin i timeout start" "\<lambda>t. t" "?as ! a"] slot [of i "W_Stamp i" "\<lambda>t. t" "?as ! a"]
      act st [of i] show ?thesis
      by (intro stay) (simp add: worker_move_def sim_rel_def harmless_def)
  next
    case (W_Sleep10 i)
    with slot [of i "W_Stamp i" "\<lambda>t. t" "?as ! a"] act st [of i] show ?thesis
      by (intro stay) (simp add: worker_move_def sim_rel_def harmless_def)
  next
    case (W_Stamp i)
    with slot [of i "W_SetComplete i" "\<lambda>t. t\<lparr>t_complete_jiffies := s_now s\<rparr>" "?as ! a"] act st [of i]
    show ?thesis by (intro stay) (simp add: worker_move_def sim_rel_def harmless_def)
  next
    case (W_SetComplete i)
    with slot [of i "W_ClearError i" "\<lambda>t. t\<lparr>t_state := TASK_STATE_COMPLETE\<rparr>" "?as ! a"] act show ?thesis
      by (intro stay) (simp add: worker_move_def sim_rel_def harmless_def)
  next
    case (W_ClearError i)
    with slot [of i "W_LoadDown i" "\<lambda>t. t\<lparr>t_error_code := 0\<rparr>" "?as ! a"] act st [of i] show ?thesis
      by (intro stay) (simp add: worker_move_def sim_rel_def harmless_def)
  next
    case (W_LoadDown i)
    with slot [of i "W_CompleteAll i" "\<lambda>t. t" "(?as ! a)\<lparr>a_load_percent := load_down (a_load_percent (?as ! a))\<rparr>"]
      act st [of i] show ?thesis
      by (intro stay) (simp add: worker_move_def sim_rel_def harmless_def)
  next
    case (W_CompleteAll i)
    with slot [of i "W_Unlink i" "\<lambda>t. t\<lparr>t_done := True\<rparr>" "?as ! a"] act st [of i] show ?thesis
      by (intro stay) (simp add: worker_move_def sim_rel_def harmless_def)
  next
    case (W_Unlink i)
    note t = sim_worker_retires [OF P a W_Unlink refl]
    have "life_step loc (loc(i := P_Retired))" using t(1,2) by (rule life_retire)
    moreover have "sim_rel (worker_move m2j a s) (loc(i := P_Retired))"
      using t(3) W_Unlink by (simp add: worker_move_def sim_rel_def)
    ultimately show ?thesis by blast
  qed
qed

subsection \<open>Steps of a system call\<close>

text \<open>A write to a slot that stays where it is, by a thread that keeps what it holds.\<close>

lemma sim_user_write:
  assumes r: "sim_parts ts fl nid as wk ut loc" and i: "i < MAX_TASKS"
    and h: "holder pc = holder (ut u)" "holder (ut u) = Some i \<or> holder (ut u) = None"
    and f: "t_id (f (ts ! i)) = t_id (ts ! i)" "t_state (f (ts ! i)) \<in> place_states wk (ut(u := pc)) (loc i)"
      "t_accel_type (f (ts ! i)) = t_accel_type (ts ! i) \<or> loc i = P_Held u"
      "t_done (ts ! i) \<longrightarrow> t_done (f (ts ! i))"
    and ok: "\<And>v. v \<noteq> u \<Longrightarrow> user_ok (upd_task i f ts) loc (ut v)" "user_ok (upd_task i f ts) loc pc"
  shows "sim_parts (upd_task i f ts) fl nid as wk (ut(u := pc)) loc"
proof -
  note R = sim_partsD [OF r]
  have held: "loc j = P_Held u \<longrightarrow> j = i" if "j < MAX_TASKS" for j
    using located_iff [OF R(3) that, of "P_Held u"] h(2) by auto
  have "located fl (queues as) (\<lambda>a. working (wk a)) (\<lambda>v. holder ((ut(u := pc)) v)) loc"
    using R(3) h(1) by (simp add: holder_upd fun_upd_idem del: fun_upd_apply)
  moreover have "pool_ok (upd_task i f ts) fl nid loc"
    by (rule pool_ok_upd [OF R(4)]) (use i R(1) f(1) in auto)
  moreover have "slots_ok (upd_task i f ts) wk (ut(u := pc)) loc"
    unfolding slots_ok_def
  proof (intro allI impI)
    fix j assume j: "j < MAX_TASKS"
    note old = R(5) [unfolded slots_ok_def, rule_format, OF j]
    show "t_state (upd_task i f ts ! j) \<in> place_states wk (ut(u := pc)) (loc j) \<and>
      (\<forall>b. loc j = P_Queued b \<or> loc j = P_Active b \<longrightarrow> unat (t_accel_type (upd_task i f ts ! j)) = b) \<and>
      (loc j = P_Retired \<or> (\<exists>b. loc j = P_Active b \<and> wk b = W_Unlink j) \<longrightarrow> t_done (upd_task i f ts ! j))"
    proof (cases "j = i")
      case True
      with old f i R(1) show ?thesis by (auto simp: nth_upd_task)
    next
      case False
      with old held [OF j] i R(1) show ?thesis by (auto simp: nth_upd_task place_states_other_user)
    qed
  qed
  moreover have "user_ok (upd_task i f ts) loc ((ut(u := pc)) v)" for v
    using ok by simp
  ultimately show ?thesis using R(1,2,6) by (simp add: sim_parts_def)
qed

lemma sim_user_pure:
  assumes r: "sim_parts ts fl nid as wk ut loc"
    and h: "holder pc = holder (ut u)" "holder pc = None \<or> user_states pc = user_states (ut u)"
    and ok: "user_ok ts loc pc"
  shows "sim_parts ts fl nid as wk (ut(u := pc)) loc"
proof -
  note R = sim_partsD [OF r]
  have held: "loc j = P_Held u \<longrightarrow> user_states pc = user_states (ut u)" if "j < MAX_TASKS" for j
    using located_iff [OF R(3) that, of "P_Held u"] h by auto
  have "located fl (queues as) (\<lambda>a. working (wk a)) (\<lambda>v. holder ((ut(u := pc)) v)) loc"
    using R(3) h(1) by (simp add: holder_upd fun_upd_idem del: fun_upd_apply)
  moreover have "place_states wk (ut(u := pc)) (loc j) = place_states wk ut (loc j)" if "j < MAX_TASKS" for j
    using held [OF that] by (cases "loc j") auto
  with R(5) have "slots_ok ts wk (ut(u := pc)) loc" by (simp add: slots_ok_def)
  ultimately show ?thesis using R ok by (simp add: sim_parts_def)
qed

text \<open>A cancellation writes to a slot wherever it is; every place but those of free slots allows it.\<close>

lemma not_free_allows_cancel:
  "st \<in> place_states wk ut p \<Longrightarrow> st \<noteq> TASK_STATE_FREE \<Longrightarrow> TASK_STATE_CANCELLED \<in> place_states wk ut p"
proof (cases p)
  case (P_Held u)
  then show "st \<in> place_states wk ut p \<Longrightarrow> st \<noteq> TASK_STATE_FREE \<Longrightarrow> ?thesis" by (cases "ut u") auto
next
  case (P_Active a)
  then show "st \<in> place_states wk ut p \<Longrightarrow> st \<noteq> TASK_STATE_FREE \<Longrightarrow> ?thesis" by (cases "wk a") auto
qed auto

lemma sim_user_cancel_write:
  assumes r: "sim_parts ts fl nid as wk ut loc" and i: "i < MAX_TASKS"
    and h: "holder pc = None" "holder (ut u) = None"
    and f: "harmless f (ts ! i)" "t_state (f (ts ! i)) \<in> {t_state (ts ! i), TASK_STATE_CANCELLED}"
      "t_done (ts ! i) \<longrightarrow> t_done (f (ts ! i))"
    and nf: "t_state (ts ! i) \<noteq> TASK_STATE_FREE" and ok: "user_ok (upd_task i f ts) loc pc"
  shows "sim_parts (upd_task i f ts) fl nid as wk (ut(u := pc)) loc"
proof (rule sim_user_write [OF r i])
  note R = sim_partsD [OF r]
  have "loc i \<noteq> P_Held u" using located_iff [OF R(3) i, of "P_Held u"] h(2) by simp
  then show "t_state (f (ts ! i)) \<in> place_states wk (ut(u := pc)) (loc i)"
    using slots_okD(1) [OF R(5) i] not_free_allows_cancel [OF _ nf] f(2)
    by (auto simp: place_states_other_user)
  show "user_ok (upd_task i f ts) loc (ut v)" for v
    using user_ok_upd [OF R(7) _ f(1)] i R(1) by simp
qed (use h f ok in \<open>auto simp: harmless_def\<close>)

lemma pool_ok_claim:
  assumes p: "pool_ok ts (i # fl) nid loc" and i: "i < MAX_TASKS" "loc i = P_Free" "length ts = MAX_TASKS"
    and t: "t_id (f (ts ! i)) = nid + 1" and q: "q \<noteq> P_Free"
  shows "pool_ok (upd_task i f ts) fl (nid + 1) (loc(i := q))"
proof -
  have n: "unat nid + Suc (length fl) = MAX_TASKS"
    using p by (simp add: pool_ok_def)
  have nid: "unat (nid + 1) = Suc (unat nid)"
    using n by (simp add: unat_word_ariths MAX_TASKS_def)
  have old: "if loc j = P_Free then t_id (ts ! j) = 0
      else 1 \<le> unat (t_id (ts ! j)) \<and> unat (t_id (ts ! j)) \<le> unat nid" if "j < MAX_TASKS" for j
    using p that unfolding pool_ok_def by blast
  then have fresh: "t_id (ts ! j) \<noteq> nid + 1" if "j < MAX_TASKS" for j
    using that nid by (metis Suc_n_not_le_n nat.distinct(1) unat_0)
  have inj: "j = k" if "j < MAX_TASKS" "k < MAX_TASKS" "(loc(i := q)) j \<noteq> P_Free"
    "t_id (upd_task i f ts ! j) = t_id (upd_task i f ts ! k)" for j k
  proof (cases "j = i \<or> k = i")
    case True
    have "t_id (upd_task i f ts ! k) = (if k = i then nid + 1 else t_id (ts ! k))" for k
      using i t by (simp add: nth_upd_task)
    with True that fresh show ?thesis by metis
  next
    case False
    then have "loc j \<noteq> P_Free" "t_id (ts ! j) = t_id (ts ! k)"
      using that i by (auto simp: nth_upd_task)
    then show ?thesis using that(1,2) p unfolding pool_ok_def by blast
  qed
  have rng: "if (loc(i := q)) j = P_Free then t_id (upd_task i f ts ! j) = 0
      else 1 \<le> unat (t_id (upd_task i f ts ! j)) \<and> unat (t_id (upd_task i f ts ! j)) \<le> unat (nid + 1)"
    if "j < MAX_TASKS" for j
  proof (cases "j = i")
    case True
    then show ?thesis using i t q nid by (simp add: nth_upd_task)
  next
    case False
    then have "upd_task i f ts ! j = ts ! j" "(loc(i := q)) j = loc j"
      using i by (simp_all add: nth_upd_task)
    then show ?thesis using old [OF that] nid by (cases "loc j = P_Free") simp_all
  qed
  have "unat (nid + 1) + length fl = MAX_TASKS" using n nid by simp
  then show ?thesis unfolding pool_ok_def using rng inj by blast
qed

lemma user_ok_claim:
  assumes ok: "user_ok ts loc pc" and i: "i < length ts" "loc i = P_Free" "t_id (ts ! i) = 0"
    "t_state (ts ! i) = TASK_STATE_FREE" and h: "holder pc \<noteq> Some i" and q: "q \<noteq> P_Free"
  shows "user_ok (upd_task i f ts) (loc(i := q)) pc"
  using assms by (cases pc) (auto simp: nth_upd_task)

lemma sim_user_claim:
  assumes r: "sim_parts ts (i # fl) nid as wk ut loc" and u: "ut u = U_Alloc desc"
    and f: "f = (\<lambda>_. zero_task\<lparr>t_done := False, t_id := nid + 1\<rparr>)"
  shows "i < MAX_TASKS" and "loc i = P_Free"
    and "sim_parts (upd_task i f ts) fl (nid + 1) as wk (ut(u := U_Fill i desc)) (loc(i := P_Held u))"
proof -
  note R = sim_partsD [OF r]
  show i: "i < MAX_TASKS" and l: "loc i = P_Free"
    using located_at [OF R(3), of i P_Free] by simp_all
  have z: "t_id (ts ! i) = 0" "t_state (ts ! i) = TASK_STATE_FREE"
    using R(4) i l slots_okD(1) [OF R(5) i] by (simp_all add: pool_ok_def)
  have none: "loc j \<noteq> P_Held u" if "j < MAX_TASKS" for j
    using located_iff [OF R(3) that, of "P_Held u"] u by simp
  have "located fl (queues as) (\<lambda>a. working (wk a)) ((\<lambda>v. holder (ut v))(u := Some i)) (loc(i := P_Held u))"
    by (rule located_claim [OF R(3)]) (simp add: u)
  then have "located fl (queues as) (\<lambda>a. working (wk a)) (\<lambda>v. holder ((ut(u := U_Fill i desc)) v)) (loc(i := P_Held u))"
    by (simp add: holder_upd del: fun_upd_apply)
  moreover have "pool_ok (upd_task i f ts) fl (nid + 1) (loc(i := P_Held u))"
    by (rule pool_ok_claim [OF R(4) i l R(1)]) (simp_all add: f)
  moreover have "slots_ok (upd_task i f ts) wk (ut(u := U_Fill i desc)) (loc(i := P_Held u))"
    using R(5) none i R(1) by (auto simp: slots_ok_def nth_upd_task place_states_other_user f zero_task_def)
  moreover have "user_ok (upd_task i f ts) (loc(i := P_Held u)) ((ut(u := U_Fill i desc)) v)" for v
  proof (cases "v = u")
    case True
    then show ?thesis using R(7) [of u] u by simp
  next
    case False
    have "holder (ut v) \<noteq> Some i"
      using located_at(2) [OF R(3), of i "P_Held v"] l by auto
    with False user_ok_claim [OF R(7) _ l z] i R(1) show ?thesis by simp
  qed
  ultimately show "sim_parts (upd_task i f ts) fl (nid + 1) as wk (ut(u := U_Fill i desc)) (loc(i := P_Held u))"
    using R(1,2,6) by (simp add: sim_parts_def)
qed

text \<open>The writes of the submitting thread to the slot it holds.\<close>

lemma user_ok_held:
  assumes "user_ok ts loc pc" and "i < length ts" and "holder pc \<noteq> Some i"
    and "t_id (f (ts ! i)) = t_id (ts ! i)"
    and "t_state (ts ! i) \<noteq> TASK_STATE_FREE \<longrightarrow> t_state (f (ts ! i)) \<noteq> TASK_STATE_FREE"
  shows "user_ok (upd_task i f ts) loc pc"
  using assms by (cases pc) (auto simp: nth_upd_task)

lemma sim_user_held:
  assumes r: "sim_parts ts fl nid as wk ut loc"
    and h: "holder (ut u) = Some i" "holder pc = Some i"
    and f: "t_id (f (ts ! i)) = t_id (ts ! i)" "t_state (f (ts ! i)) \<in> user_states pc"
      "t_done (ts ! i) \<longrightarrow> t_done (f (ts ! i))"
      "t_state (ts ! i) \<noteq> TASK_STATE_FREE \<longrightarrow> t_state (f (ts ! i)) \<noteq> TASK_STATE_FREE"
    and ok: "user_ok (upd_task i f ts) loc pc"
  shows "sim_parts (upd_task i f ts) fl nid as wk (ut(u := pc)) loc"
proof -
  note R = sim_partsD [OF r]
  have i: "i < MAX_TASKS" and l: "loc i = P_Held u"
    using located_at [OF R(3), of i "P_Held u"] h by simp_all
  show ?thesis
  proof (rule sim_user_write [OF r i])
    fix v assume "v \<noteq> u"
    then have "holder (ut v) \<noteq> Some i"
      using located_at(2) [OF R(3), of i "P_Held v"] l by auto
    with i R(1) f show "user_ok (upd_task i f ts) loc (ut v)"
      by (intro user_ok_held [OF R(7)]) simp_all
  qed (use h f l ok in auto)
qed

lemma sim_user_enqueue:
  assumes r: "sim_parts ts fl nid as wk ut loc" and u: "ut u = U_Enqueue i desc"
    and a: "a = unat (td_accel_type desc)"
  shows "i < MAX_TASKS" and "loc i = P_Held u" and "a < NUM_ACCELERATORS"
    and "sim_parts ts fl nid (upd_accel a (\<lambda>ac. ac\<lparr>a_task_queue := a_task_queue ac @ [i]\<rparr>) as) wk
      (ut(u := U_Reply i desc)) (loc(i := P_Queued a))"
proof -
  note R = sim_partsD [OF r]
  show i: "i < MAX_TASKS" and l: "loc i = P_Held u"
    using located_at [OF R(3), of i "P_Held u"] u by simp_all
  have ok: "check_desc desc = None" "t_accel_type (ts ! i) = td_accel_type desc"
    using R(7) [of u] u by simp_all
  show aN: "a < NUM_ACCELERATORS" using check_desc_NoneD(1) [OF ok(1)] a by simp
  have none: "loc j = P_Held u \<longleftrightarrow> j = i" if "j < MAX_TASKS" for j
    using located_iff [OF R(3) that, of "P_Held u"] u by auto
  let ?as = "upd_accel a (\<lambda>ac. ac\<lparr>a_task_queue := a_task_queue ac @ [i]\<rparr>) as"
  have "located fl ((queues as)(a := queues as a @ [i])) (\<lambda>a. working (wk a))
      ((\<lambda>v. holder (ut v))(u := None)) (loc(i := P_Queued a))"
    by (rule located_enqueue [OF R(3)]) (use u aN in simp_all)
  then have "located fl (queues ?as) (\<lambda>a. working (wk a)) (\<lambda>v. holder ((ut(u := U_Reply i desc)) v)) (loc(i := P_Queued a))"
    using aN R(2) by (simp add: holder_upd queues_upd upd_accel_def del: fun_upd_apply)
  moreover have "t_state (ts ! i) = TASK_STATE_PENDING \<or> t_state (ts ! i) = TASK_STATE_CANCELLED"
    using slots_okD(1) [OF R(5) i] l u by auto
  then have "slots_ok ts wk (ut(u := U_Reply i desc)) (loc(i := P_Queued a))"
    using R(5) none ok a by (auto simp: slots_ok_def place_states_other_user)
  moreover have "accels_ok ?as wk"
    using R(2,6) aN by (auto simp: accels_ok_def nth_upd_accel)
  moreover have "pool_ok ts fl nid (loc(i := P_Queued a))"
    by (rule pool_ok_loc [OF R(4)]) (use l in simp_all)
  moreover have "user_ok ts (loc(i := P_Queued a)) ((ut(u := U_Reply i desc)) v)" for v
    using user_ok_loc [OF R(7) [of v], of "P_Queued a" i] i by simp
  ultimately show "sim_parts ts fl nid ?as wk (ut(u := U_Reply i desc)) (loc(i := P_Queued a))"
    using R(1,2) by (simp add: sim_parts_def)
qed

lemma sim_user_move:
  assumes r: "sim_rel s loc"
  shows "\<exists>loc'. (loc' = loc \<or> life_step loc loc') \<and> sim_rel (user_move hz u s) loc'"
proof -
  let ?ts = "tasks (s_dev s)"
  note P = r [unfolded sim_rel_def]
  note R = sim_partsD [OF P]
  note pure = sim_user_pure [OF P, where u = u] and held = sim_user_held [OF P, where u = u]
    and cancel = sim_user_cancel_write [OF P, where u = u] and ok = R(7) [of u]
  have stay: "sim_rel (user_move hz u s) loc \<Longrightarrow> ?thesis" by blast
  have at: "i < length ?ts" if "holder (s_ut s u) = Some i" for i
    using located_at(1) [OF R(3), of i "P_Held u"] that R(1) by simp
  have st: "t_state (?ts ! i) \<in> user_states (s_ut s u)" if "holder (s_ut s u) = Some i" for i
    using located_at [OF R(3), of i "P_Held u"] slots_okD(1) [OF R(5), of i] that by auto
  show ?thesis
  proof (cases "s_ut s u")
    case (U_Alloc desc)
    show ?thesis
    proof (cases "free_tasks (s_dev s)")
      case Nil
      with U_Alloc pure [of "U_Ret (neg_errno ENOMEM)"] show ?thesis
        by (intro stay) (simp add: user_move_def sim_rel_def task_alloc_def list_defs)
    next
      case (Cons i fl)
      note t = sim_user_claim [OF P [unfolded Cons] U_Alloc refl]
      have "life_step loc (loc(i := P_Held u))" using t(1,2) by (rule life_claim)
      moreover have "sim_rel (user_move hz u s) (loc(i := P_Held u))"
        using t(3) U_Alloc Cons by (simp add: user_move_def sim_rel_def task_alloc_def list_defs Let_def)
      ultimately show ?thesis by blast
    qed
  next
    case (U_Fill i desc)
    with held [of i "U_Check i desc" "fill_task desc"] at [of i] st [of i] ok show ?thesis
      by (intro stay) (simp add: user_move_def sim_rel_def fill_task_def nth_upd_task)
  next
    case (U_Check i desc)
    with pure [of "U_Pending i desc"] ok check_desc_NoneD(1) [of desc] show ?thesis
      by (intro stay) (simp add: user_move_def sim_rel_def)
  next
    case (U_Pending i desc)
    with held [of i "U_Stamp i desc" "\<lambda>t. t\<lparr>t_state := TASK_STATE_PENDING\<rparr>"] at [of i] ok show ?thesis
      by (intro stay) (simp add: user_move_def sim_rel_def nth_upd_task)
  next
    case (U_Stamp i desc)
    with held [of i "U_Enqueue i desc" "\<lambda>t. t\<lparr>t_submit_jiffies := s_now s\<rparr>"] at [of i] st [of i] ok show ?thesis
      by (intro stay) (simp add: user_move_def sim_rel_def nth_upd_task)
  next
    case (U_Enqueue i desc)
    note t = sim_user_enqueue [OF P U_Enqueue refl]
    have "life_step loc (loc(i := P_Queued (unat (td_accel_type desc))))" using t(1,2,3) by (rule life_enqueue)
    moreover have "sim_rel (user_move hz u s) (loc(i := P_Queued (unat (td_accel_type desc))))"
      using t(4) U_Enqueue by (simp add: user_move_def sim_rel_def list_add_tail_def)
    ultimately show ?thesis by blast
  next
    case (U_Undo i ret)
    with ok show ?thesis by simp
  next
    case (U_CScan tid i)
    with pure [of "U_CTest tid i"] pure [of "U_CScan tid (Suc i)"] pure [of "U_Ret (neg_errno ENOENT)"]
    show ?thesis by (intro stay) (simp add: user_move_def sim_rel_def)
  next
    case (U_CTest tid i)
    with pure [of "U_CState tid i"] pure [of "U_CScan tid (Suc i)"] ok show ?thesis
      by (intro stay) (simp add: user_move_def sim_rel_def)
  next
    case (U_CState tid i)
    with cancel [of i "U_CError tid i" "\<lambda>t. t\<lparr>t_state := TASK_STATE_CANCELLED\<rparr>"] ok R(1) show ?thesis
      by (intro stay) (simp add: user_move_def sim_rel_def harmless_def nth_upd_task)
  next
    case (U_CError tid i)
    with cancel [of i "U_CDone tid i" "\<lambda>t. t\<lparr>t_error_code := word_of_int (neg_errno ECANCELED)\<rparr>"] ok R(1)
    show ?thesis by (intro stay) (simp add: user_move_def sim_rel_def harmless_def nth_upd_task)
  next
    case (U_CDone tid i)
    with cancel [of i "U_Ret 0" "\<lambda>t. t\<lparr>t_done := True\<rparr>"] ok R(1) show ?thesis
      by (intro stay) (simp add: user_move_def sim_rel_def harmless_def nth_upd_task)
  next
    case (U_Reply i desc)
    with pure [of "U_CopyOut (desc\<lparr>td_task_id := t_id (?ts ! i)\<rparr>)"] show ?thesis
      by (intro stay) (simp add: user_move_def sim_rel_def)
  next
    case (U_QScan tid i)
    with pure [of "U_QTest tid i"] pure [of "U_QScan tid (Suc i)"] pure [of "U_Ret (neg_errno ENOENT)"]
    show ?thesis by (intro stay) (simp add: user_move_def sim_rel_def)
  next
    case (U_QTest tid i)
    with pure [of "U_QId i"] pure [of "U_QScan tid (Suc i)"] show ?thesis
      by (intro stay) (simp add: user_move_def sim_rel_def)
  next
    case (U_QId i)
    with pure [of "fst (ioctl_thread hz (s_now s) (U_QId i) (s_dev s))"] show ?thesis
      by (intro stay) (simp add: user_move_def sim_rel_def)
  next
    case (U_QStatus i st)
    with pure [of "fst (ioctl_thread hz (s_now s) (U_QStatus i st) (s_dev s))"] show ?thesis
      by (intro stay) (simp add: user_move_def sim_rel_def)
  next
    case (U_QComplete i st)
    with pure [of "fst (ioctl_thread hz (s_now s) (U_QComplete i st) (s_dev s))"] show ?thesis
      by (intro stay) (simp add: user_move_def sim_rel_def)
  next
    case (U_QExec i completed st)
    with pure [of "fst (ioctl_thread hz (s_now s) (U_QExec i completed st) (s_dev s))"] show ?thesis
      by (intro stay) (simp add: user_move_def sim_rel_def)
  next
    case (U_QError i st)
    with pure [of "fst (ioctl_thread hz (s_now s) (U_QError i st) (s_dev s))"] show ?thesis
      by (intro stay) (simp add: user_move_def sim_rel_def)
  next
    case (U_CopyOut desc)
    with P show ?thesis by (intro stay) (simp add: user_move_def sim_rel_def fun_upd_idem)
  next
    case (U_QCopyOut st)
    with P show ?thesis by (intro stay) (simp add: user_move_def sim_rel_def fun_upd_idem)
  next
    case (U_Ret ret)
    with P show ?thesis by (intro stay) (simp add: user_move_def sim_rel_def fun_upd_idem)
  qed
qed

subsection \<open>The simulation\<close>

lemma sim_parts_accel:
  assumes r: "sim_parts ts fl nid as wk ut loc"
    and f: "\<And>ac. a_task_queue (f ac) = a_task_queue ac" "\<And>ac. a_active_tasks (f ac) = a_active_tasks ac"
      "\<And>ac. a_load_percent (f ac) = a_load_percent ac"
  shows "sim_parts ts fl nid (upd_accel a f as) wk ut loc"
proof (cases "a < length as")
  case True
  then have "queues (upd_accel a f as) = queues as"
    "\<And>b. a_active_tasks (upd_accel a f as ! b) = a_active_tasks (as ! b)"
    "\<And>b. a_load_percent (upd_accel a f as ! b) = a_load_percent (as ! b)"
    using f by (simp_all add: nth_upd_accel fun_eq_iff)
  with r show ?thesis by (simp add: sim_parts_def accels_ok_def)
next
  case False
  with r show ?thesis by (simp add: upd_accel_def list_update_beyond)
qed

lemma stop_thread_accel:
  assumes "stop_thread wk pc (stop, as) = Some (pc', stop', as')"
  shows "as' = as \<or> (\<exists>a. as' = upd_accel a (\<lambda>ac. ac\<lparr>a_running := 0\<rparr>) as) \<or>
    (\<exists>a. as' = upd_accel a (\<lambda>ac. ac\<lparr>a_worker_thread := NULL\<rparr>) as)"
  using assms by (cases pc) (auto split: if_splits)

lemma sim_stop:
  assumes r: "sim_parts ts fl nid as wk ut loc"
    and s: "stop_thread wk pc (stop, as) = Some (pc', stop', as')"
  shows "sim_parts ts fl nid as' wk ut loc"
  using stop_thread_accel [OF s] sim_parts_accel [OF r] r by auto

lemma sim_sys_step:
  assumes "sim_rel s loc" and "sys_step m2j hz s s'"
  shows "\<exists>loc'. (loc' = loc \<or> life_step loc loc') \<and> sim_rel s' loc'"
  using assms(2,1)
proof (induction rule: sys_step.induct)
  case (step_clock s t)
  then have "sim_rel (s\<lparr>s_now := t\<rparr>) loc" by (simp add: sim_rel_def)
  then show ?case by blast
next
  case (step_worker a s)
  then show ?case using sim_worker_move by blast
next
  case (step_call s u r pc)
  from step_call(2) have "holder pc = None" "user_ok (tasks (s_dev s)) loc pc"
    by (auto simp: call_entry_def split: user_pc.splits)
  with step_call have "sim_rel (s\<lparr>s_ut := (s_ut s)(u := pc)\<rparr>) loc"
    by (auto simp: sim_rel_def intro!: sim_user_pure)
  then show ?case by blast
next
  case (step_user s u)
  then show ?case using sim_user_move by blast
next
  case (step_copy s u r)
  then have "holder (s_ut s u) = None"
    by (auto simp: copies_out_def split: user_pc.splits)
  with step_copy have "sim_rel (s\<lparr>s_ut := (s_ut s)(u := U_Ret r)\<rparr>) loc"
    by (auto simp: sim_rel_def intro!: sim_user_pure)
  then show ?case by blast
next
  case (step_remove s)
  then have "sim_rel (s\<lparr>s_sp := S_Test 0\<rparr>) loc" by (simp add: sim_rel_def)
  then show ?case by blast
next
  case (step_stop s pc st as)
  then have "sim_rel (s\<lparr>s_sp := pc, s_stop := st, s_dev := (s_dev s)\<lparr>accelerators := as\<rparr>\<rparr>) loc"
    using sim_stop [OF _ step_stop(1)] by (simp add: sim_rel_def)
  then show ?case by blast
qed

interpretation life: forward_simulation sys_init "sys_step m2j hz" life_init life_step sim_rel
  for m2j hz
  using sim_rel_init sim_sys_step by unfold_locales blast+

lemma running_sim:
  assumes "running_system m2j hz s"
  obtains loc where "reach life_init life_step loc" and "sim_rel s loc"
  using life.sim_reach [OF assms] by blast

end
