(* ===== verification/Ioctl_Spec.thy ===== *)
theory Ioctl_Spec
  imports Module_Main
begin

text \<open>
  What the system calls of \<^verbatim>\<open>src/chardev.c\<close> promise. The first part is an abstract
  specification, a table of tasks indexed by identifier with one queue of identifiers per
  accelerator, and the refinement of the submit, cancel and query operations to it. The second
  part states the behaviour of each command on its branches, the invariant, and the capacity
  of the pool over whole runs of system calls.
\<close>

section \<open>The specification: a table of tasks\<close>

record ticket_spec =
  sp_issued :: nat
  sp_table :: "u32 \<Rightarrow> cortex_forge_task option"
  sp_queues :: "u32 list list"

definition spec_submit :: "u64 \<Rightarrow> cortex_forge_task_desc \<Rightarrow> ticket_spec \<Rightarrow> int \<times> ticket_spec" where
  "spec_submit now desc s =
     (if sp_issued s \<ge> MAX_TASKS then (neg_errno ENOMEM, s)
      else let tid = of_nat (Suc (sp_issued s)); a = unat (td_accel_type desc)
           in (0, s\<lparr>sp_issued := Suc (sp_issued s),
                    sp_table := (sp_table s)(tid \<mapsto> submitted now tid desc),
                    sp_queues := (sp_queues s)[a := sp_queues s ! a @ [tid]]\<rparr>))"

definition spec_cancel :: "u32 \<Rightarrow> ticket_spec \<Rightarrow> int \<times> ticket_spec" where
  "spec_cancel tid s =
     (case sp_table s tid of
        None \<Rightarrow> (neg_errno ENOENT, s)
      | Some t \<Rightarrow> (0, s\<lparr>sp_table := (sp_table s)(tid \<mapsto>
          t\<lparr>t_state := TASK_STATE_CANCELLED, t_error_code := word_of_int (neg_errno ECANCELED),
            t_done := True\<rparr>)\<rparr>))"

definition abs_table :: "cortex_forge_task list \<Rightarrow> u32 \<Rightarrow> cortex_forge_task option" where
  "abs_table ts tid = map_option (\<lambda>i. ts ! i) (task_lookup ts tid 0)"

definition abs_queue :: "cortex_forge_task list \<Rightarrow> cortex_forge_accel \<Rightarrow> u32 list" where
  "abs_queue ts ac = map (\<lambda>i. t_id (ts ! i)) (a_task_queue ac)"

definition abs_dev :: "cortex_forge_dev \<Rightarrow> ticket_spec" where
  "abs_dev d = \<lparr>sp_issued = unat (next_task_id d), sp_table = abs_table (tasks d),
     sp_queues = map (abs_queue (tasks d)) (accelerators d)\<rparr>"

lemma pool_inv_matches:
  assumes "pool_inv ts fl nid" and "i < MAX_TASKS"
  shows "task_matches tid (ts ! i) \<longleftrightarrow> i \<notin> set fl \<and> t_id (ts ! i) = tid"
  using assms by (auto simp: task_matches_def pool_inv_def)

lemma pool_inv_id_inj:
  assumes "pool_inv ts fl nid" and "i < MAX_TASKS" "j < MAX_TASKS" "i \<notin> set fl" "j \<notin> set fl"
    and "t_id (ts ! i) = t_id (ts ! j)"
  shows "i = j"
  using assms unfolding pool_inv_def by blast

lemma pool_inv_lookup:
  assumes p: "pool_inv ts fl nid"
  shows "task_lookup ts tid 0 = Some i \<longleftrightarrow> i < MAX_TASKS \<and> i \<notin> set fl \<and> t_id (ts ! i) = tid"
proof
  assume l: "task_lookup ts tid 0 = Some i"
  then show "i < MAX_TASKS \<and> i \<notin> set fl \<and> t_id (ts ! i) = tid"
    using task_lookup_SomeD(1-3) [OF l] pool_inv_matches [OF p] by (metis task_matches_def)
next
  assume i: "i < MAX_TASKS \<and> i \<notin> set fl \<and> t_id (ts ! i) = tid"
  show "task_lookup ts tid 0 = Some i"
  proof (rule task_lookup_unique)
    show "\<forall>j < MAX_TASKS. task_matches tid (ts ! j) \<longrightarrow> j = i"
      using i pool_inv_matches [OF p] pool_inv_id_inj [OF p] by metis
  qed (use i pool_inv_matches [OF p] in auto)
qed

lemma abs_table_Some:
  assumes "pool_inv ts fl nid"
  shows "abs_table ts tid = Some t \<longleftrightarrow> (\<exists>i < MAX_TASKS. i \<notin> set fl \<and> t_id (ts ! i) = tid \<and> t = ts ! i)"
  using pool_inv_lookup [OF assms] by (auto simp: abs_table_def)

text \<open>A table is determined by its entries.\<close>

lemma table_eqI: "(\<And>tid t. f tid = Some t \<longleftrightarrow> g tid = Some t) \<Longrightarrow> f = (g :: 'k \<Rightarrow> 'v option)"
  by (metis ext not_Some_eq)

lemma abs_table_alloc:
  assumes p: "pool_inv ts (i # fl) nid" and t: "t_id t = nid + 1" "t_state t \<noteq> TASK_STATE_FREE"
  shows "abs_table (ts[i := t]) = (abs_table ts)(nid + 1 \<mapsto> t)"
proof (rule table_eqI)
  fix tid v
  note p' = pool_inv_alloc [OF p t]
  have i: "i < MAX_TASKS" "i \<notin> set fl" "length ts = MAX_TASKS" and
    n: "unat nid + Suc (length fl) = MAX_TASKS"
    using p by (auto simp: pool_inv_def)
  have "unat (nid + 1) = Suc (unat nid)"
    using n by (simp add: unat_word_ariths MAX_TASKS_def)
  then have fresh: "t_id (ts ! j) \<noteq> nid + 1" if "j < MAX_TASKS" "j \<notin> set (i # fl)" for j
    using that p unfolding pool_inv_def by (metis Suc_n_not_le_n)
  show "abs_table (ts[i := t]) tid = Some v \<longleftrightarrow> ((abs_table ts)(nid + 1 \<mapsto> t)) tid = Some v"
  proof (cases "tid = nid + 1")
    case True
    then show ?thesis
      unfolding abs_table_Some [OF p'] using i t fresh
      by (auto simp: nth_list_update split: if_splits)
  next
    case False
    then show ?thesis
      unfolding fun_upd_other [OF False] abs_table_Some [OF p'] abs_table_Some [OF p]
      using i t by (auto simp: nth_list_update split: if_splits)
  qed
qed

lemma abs_queue_other:
  assumes "i \<notin> set (a_task_queue ac)"
  shows "abs_queue (ts[i := t]) ac = abs_queue ts ac"
  using assms unfolding abs_queue_def by (intro map_cong refl) (metis nth_list_update_neq)

lemma queue_inv_not_free:
  "queue_inv ts fl a ac \<Longrightarrow> i \<in> set fl \<Longrightarrow> i \<notin> set (a_task_queue ac)"
  by (auto simp: queue_inv_def)

lemma dev_inv_issued: "dev_inv d \<Longrightarrow> unat (next_task_id d) \<ge> MAX_TASKS \<longleftrightarrow> free_tasks d = []"
  using pool_inv_free(3) [OF dev_inv_pool, of d] by (cases "free_tasks d") auto

text \<open>The device after probe, and a descriptor and a user memory that hold it, for the examples.\<close>

abbreviation fresh_dev :: cortex_forge_dev where
  "fresh_dev \<equiv> probe_setup zero_dev"

definition sample_desc :: cortex_forge_task_desc where
  "sample_desc = \<lparr>td_task_id = 0, td_accel_type = 1, td_priority = 128, td_input_size = 4096,
     td_output_size = 4096, td_pad = 0, td_input_addr = 0x10000, td_output_addr = 0x20000,
     td_timeout_ms = 5, td_flags = 0, td_reserved = [0, 0, 0, 0]\<rparr>"

lemma sample_desc_ok [simp]: "check_desc sample_desc = None" "wf_task_desc sample_desc"
  by (simp_all add: check_desc_def sample_desc_def wf_task_desc_def NUM_ACCELERATORS_def)

lemma upt_MAX_TASKS: "[0..<MAX_TASKS] = 0 # [1..<MAX_TASKS]"
  by (simp add: upt_conv_Cons)

lemma fresh_dev_facts [simp]:
  "dev_inv fresh_dev" "free_tasks fresh_dev = 0 # [1..<MAX_TASKS]" "next_task_id fresh_dev = 0"
  "tasks fresh_dev = replicate MAX_TASKS zero_task" "accelerators fresh_dev = init_accels"
  by (rule dev_inv_setup) (simp_all add: probe_setup_zero upt_MAX_TASKS)

text \<open>C1. Submitting refines the specification: the task gets the next identifier, is entered in
  the table as pending with the descriptor's fields, and goes to the tail of the queue of the
  accelerator it names; with 256 identifiers issued the call fails with \<open>-ENOMEM\<close> and nothing
  changes.\<close>

theorem submit_refines_spec:
  assumes inv: "dev_inv d" and ok: "check_desc desc = None"
    and s: "submit_desc now desc d = (ret, i, d')"
  shows "spec_submit now desc (abs_dev d) = (ret, abs_dev d')"
  using inv ok
proof (cases rule: submit_desc_cases [where now = now])
  case 1
  then have "MAX_TASKS \<le> unat (next_task_id d)" using dev_inv_issued [OF inv] by simp
  with 1 s show ?thesis by (simp add: spec_submit_def abs_dev_def)
next
  case (2 j fl d1)
  let ?a = "unat (td_accel_type desc)" and ?tid = "next_task_id d + 1"
  let ?t = "submitted now ?tid desc"
  have p: "pool_inv (tasks d) (j # fl) (next_task_id d)"
    using dev_inv_pool [OF inv] 2(1) by simp
  have d1: "d' = d1" "ret = 0" using s 2(3) by simp_all
  have n: "unat ?tid = Suc (unat (next_task_id d))" "\<not> MAX_TASKS \<le> unat (next_task_id d)"
    using pool_inv_free(3) [OF p] by (simp_all add: unat_word_ariths MAX_TASKS_def)
  have tid: "of_nat (Suc (unat (next_task_id d))) = ?tid"
    by (simp add: add.commute)
  have a: "?a < length (accelerators d)"
    using check_desc_NoneD(1) [OF ok] dev_inv_lengths(2) [OF inv] by simp
  have jq: "j \<notin> set (a_task_queue (accelerators d ! b))" if "b < NUM_ACCELERATORS" for b
    using queue_inv_not_free [OF dev_inv_queue [OF inv that]] 2(1) by simp
  have jt: "j < length (tasks d)" using 2(2) dev_inv_lengths(1) [OF inv] by simp
  have q: "map (abs_queue (tasks d1)) (accelerators d1) =
    (map (abs_queue (tasks d)) (accelerators d))[?a := map (abs_queue (tasks d)) (accelerators d) ! ?a @ [?tid]]"
    (is "?l = ?r")
  proof (rule nth_equalityI)
    show "length ?l = length ?r" by (simp add: 2(8))
  next
    fix b assume "b < length ?l"
    then have b: "b < length (accelerators d)" by (simp add: 2(8))
    then have jb: "j \<notin> set (a_task_queue (accelerators d ! b))"
      using jq dev_inv_lengths(2) [OF inv] by simp
    have old: "abs_queue (tasks d1) (accelerators d ! b) = abs_queue (tasks d) (accelerators d ! b)"
      unfolding 2(7) by (rule abs_queue_other [OF jb])
    show "?l ! b = ?r ! b"
    proof (cases "b = ?a")
      case True
      then show ?thesis
        using a b old jt by (simp add: 2(8) nth_upd_accel abs_queue_def 2(7))
    next
      case False
      then show ?thesis using a b old by (simp add: 2(8) nth_upd_accel)
    qed
  qed
  have t: "abs_table (tasks d1) = (abs_table (tasks d))(?tid \<mapsto> ?t)"
    unfolding 2(7) by (rule abs_table_alloc [OF p]) simp_all
  show ?thesis
    using n a by (simp add: spec_submit_def abs_dev_def d1 2(6) t q Let_def tid flip: of_nat_Suc)
qed

theorem submit_refines_spec_witness:
  "\<exists>ret i d'. submit_desc 7 sample_desc fresh_dev = (ret, i, d') \<and>
     spec_submit 7 sample_desc (abs_dev fresh_dev) = (ret, abs_dev d') \<and> ret = 0 \<and>
     sp_queues (abs_dev d') ! 1 = [1]"
proof -
  obtain ret i d' where s: "submit_desc 7 sample_desc fresh_dev = (ret, i, d')"
    by (cases "submit_desc 7 sample_desc fresh_dev")
  have r: "spec_submit 7 sample_desc (abs_dev fresh_dev) = (ret, abs_dev d')"
    by (rule submit_refines_spec [OF _ _ s]) simp_all
  have "sp_queues (abs_dev fresh_dev) = [[], [], []]"
    by (simp add: abs_dev_def init_accels_def abs_queue_def accel_init_def)
  with r have "ret = 0 \<and> sp_queues (abs_dev d') ! 1 = [1]"
    by (auto simp: spec_submit_def abs_dev_def [of fresh_dev] Let_def MAX_TASKS_def sample_desc_def
        dest!: sym [of _ "abs_dev d'"])
  with s r show ?thesis by blast
qed

lemma abs_table_update:
  assumes p: "pool_inv ts fl nid" and i: "i < MAX_TASKS" "i \<notin> set fl"
    and t: "t_id t = t_id (ts ! i)" "t_state t \<noteq> TASK_STATE_FREE"
  shows "abs_table (ts[i := t]) = (abs_table ts)(t_id (ts ! i) \<mapsto> t)"
proof (rule table_eqI)
  fix tid v
  have st: "t_state (ts ! i) \<noteq> TASK_STATE_FREE" using p i by (simp add: pool_inv_def)
  have p': "pool_inv (ts[i := t]) fl nid"
    by (rule pool_inv_update [OF p t(1)]) (use t(2) st in simp)
  have len: "length ts = MAX_TASKS" using p by (simp add: pool_inv_def)
  have only: "j = i" if "j < MAX_TASKS" "j \<notin> set fl" "t_id (ts ! j) = t_id (ts ! i)" for j
    using pool_inv_id_inj [OF p that(1) i(1) that(2) i(2) that(3)] .
  show "abs_table (ts[i := t]) tid = Some v \<longleftrightarrow> ((abs_table ts)(t_id (ts ! i) \<mapsto> t)) tid = Some v"
  proof (cases "tid = t_id (ts ! i)")
    case True
    then show ?thesis
      unfolding abs_table_Some [OF p'] using i t len only
      by (auto simp: nth_list_update split: if_splits)
  next
    case False
    then show ?thesis
      unfolding fun_upd_other [OF False] abs_table_Some [OF p'] abs_table_Some [OF p]
      using i t len by (auto simp: nth_list_update split: if_splits)
  qed
qed

lemma cancel_abs:
  assumes inv: "dev_inv d" and c: "task_cancel (tasks d) tid = (ret, ts')"
  shows "spec_cancel tid (abs_dev d) = (ret, abs_dev (d\<lparr>tasks := ts'\<rparr>))"
proof (cases "task_lookup (tasks d) tid 0")
  case None
  then have "abs_table (tasks d) tid = None" by (simp add: abs_table_def)
  with None c show ?thesis
    by (simp add: spec_cancel_def abs_dev_def task_cancel_def)
next
  case (Some i)
  note p = dev_inv_pool [OF inv]
  have i: "i < MAX_TASKS" "i \<notin> set (free_tasks d)" "t_id (tasks d ! i) = tid"
    using Some by (simp_all add: pool_inv_lookup [OF p])
  let ?t = "(tasks d ! i)\<lparr>t_state := TASK_STATE_CANCELLED,
     t_error_code := word_of_int (neg_errno ECANCELED), t_done := True\<rparr>"
  have ts': "ts' = (tasks d)[i := ?t]" and ret: "ret = 0"
    using c by (simp_all add: task_cancel_def Some upd_task_def)
  have t: "abs_table ts' = (abs_table (tasks d))(tid \<mapsto> ?t)"
    unfolding ts' i(3) [symmetric] by (rule abs_table_update [OF p i(1,2)]) simp_all
  have "t_id (ts' ! j) = t_id (tasks d ! j)" for j
    using i(1) dev_inv_lengths(1) [OF inv] by (simp add: ts' nth_list_update)
  then have q: "abs_queue ts' = abs_queue (tasks d)"
    by (simp add: abs_queue_def fun_eq_iff)
  have "abs_table (tasks d) tid = Some (tasks d ! i)"
    by (simp add: abs_table_def Some)
  then show ?thesis
    by (simp add: spec_cancel_def abs_dev_def ret t q)
qed

text \<open>C5. Cancelling refines the specification: the entry of the identifier becomes cancelled with
  error \<open>-ECANCELED\<close> and its completion signalled, every other entry and every queue stays; an
  unknown identifier gives \<open>-ENOENT\<close>.\<close>

theorem cancel_refines_spec:
  assumes "dev_inv d" and "task_cancel (tasks d) tid = (ret, ts')"
  shows "spec_cancel tid (abs_dev d) = (ret, abs_dev (d\<lparr>tasks := ts'\<rparr>))"
  using assms by (rule cancel_abs)

theorem cancel_refines_spec_witness:
  "\<exists>d ts'. dev_inv d \<and> task_cancel (tasks d) 1 = (0, ts') \<and>
     spec_cancel 1 (abs_dev d) = (0, abs_dev (d\<lparr>tasks := ts'\<rparr>))"
proof -
  obtain ret i d where "submit_desc 7 sample_desc fresh_dev = (ret, i, d)"
    by (cases "submit_desc 7 sample_desc fresh_dev")
  with submit_desc_cases [of fresh_dev sample_desc 7] have inv: "dev_inv d"
    and t: "tasks d = (replicate MAX_TASKS zero_task)[0 := submitted 7 1 sample_desc]"
    by (auto elim!: submit_desc_cases [of fresh_dev sample_desc 7])
  have l: "task_lookup (tasks d) 1 0 = Some 0"
    by (simp add: task_lookup.simps t task_matches_def)
  obtain r ts' where c: "task_cancel (tasks d) 1 = (r, ts')"
    by (cases "task_cancel (tasks d) 1")
  with l have "r = 0" by (simp add: task_cancel_def)
  with inv c cancel_refines_spec [OF inv c] show ?thesis by blast
qed

section \<open>Dispatch and the invariant\<close>

definition ioctl_commands :: "u32 list" where
  "ioctl_commands = [CORTEX_FORGE_IOCTL_SUBMIT_TASK, CORTEX_FORGE_IOCTL_QUERY_TASK,
     CORTEX_FORGE_IOCTL_CANCEL_TASK, CORTEX_FORGE_IOCTL_GET_ACCEL_INFO,
     CORTEX_FORGE_IOCTL_SET_POWER, CORTEX_FORGE_IOCTL_GET_VERSION,
     CORTEX_FORGE_IOCTL_GET_PROFILE, CORTEX_FORGE_IOCTL_SET_ACCEL]"

lemma ioctl_dispatch:
  "cortex_forge_ioctl ua hz now d m CORTEX_FORGE_IOCTL_SUBMIT_TASK arg = ioctl_submit_task ua now d m arg"
  "cortex_forge_ioctl ua hz now d m CORTEX_FORGE_IOCTL_QUERY_TASK arg = ioctl_query_task ua hz d m arg"
  "cortex_forge_ioctl ua hz now d m CORTEX_FORGE_IOCTL_CANCEL_TASK arg = ioctl_cancel_task ua d m arg"
  "cortex_forge_ioctl ua hz now d m CORTEX_FORGE_IOCTL_GET_ACCEL_INFO arg = ioctl_get_accel_info ua d m arg"
  "cortex_forge_ioctl ua hz now d m CORTEX_FORGE_IOCTL_SET_POWER arg = ioctl_set_power ua d m arg"
  "cortex_forge_ioctl ua hz now d m CORTEX_FORGE_IOCTL_GET_VERSION arg = ioctl_get_version ua d m arg"
  "cortex_forge_ioctl ua hz now d m CORTEX_FORGE_IOCTL_GET_PROFILE arg = ioctl_get_profile ua d m arg"
  "cortex_forge_ioctl ua hz now d m CORTEX_FORGE_IOCTL_SET_ACCEL arg = ioctl_set_accel ua d m arg"
  by (simp_all add: cortex_forge_ioctl_def ioctl_values)

text \<open>Bounds the submit path enforces on every task in use.\<close>

definition live_bounds :: "cortex_forge_dev \<Rightarrow> bool" where
  "live_bounds d \<longleftrightarrow> (\<forall>i < MAX_TASKS. t_state (tasks d ! i) \<noteq> TASK_STATE_FREE \<longrightarrow>
     unat (t_accel_type (tasks d ! i)) < NUM_ACCELERATORS \<and>
     t_input_size (tasks d ! i) \<le> 64 * 1024 * 1024 \<and> t_output_size (tasks d ! i) \<le> 64 * 1024 * 1024)"

lemma live_bounds_cancel:
  assumes "live_bounds d" and "length (tasks d) = MAX_TASKS"
  shows "live_bounds (d\<lparr>tasks := snd (task_cancel (tasks d) tid)\<rparr>)"
proof (cases "task_lookup (tasks d) tid 0")
  case None
  then show ?thesis using assms by (simp add: task_cancel_def live_bounds_def)
next
  case (Some i)
  then show ?thesis
    using assms task_lookup_SomeD(1,3) [OF Some]
    by (simp add: task_cancel_def live_bounds_def nth_upd_task)
qed

lemma live_bounds_submit:
  assumes "live_bounds d" and inv: "dev_inv d" and ok: "check_desc desc = None"
    and s: "submit_desc now desc d = (ret, i, d')"
  shows "live_bounds d'"
  using inv ok
proof (cases rule: submit_desc_cases [where now = now])
  case 1
  with s assms(1) show ?thesis by simp
next
  case (2 j fl d1)
  then have "tasks d' = (tasks d)[j := submitted now (next_task_id d + 1) desc]"
    using s by simp
  moreover have "t_input_size (submitted now tid desc) = td_input_size desc"
    "t_output_size (submitted now tid desc) = td_output_size desc" for tid
    by (simp_all add: submitted_def fill_task_def)
  ultimately show ?thesis
    using assms(1) check_desc_NoneD [OF ok] dev_inv_lengths(1) [OF inv] 2(2)
    by (simp add: live_bounds_def nth_list_update)
qed

lemma ioctl_keeps_inv:
  assumes inv: "dev_inv d" and b: "live_bounds d"
    and r: "cortex_forge_ioctl ua hz now d m cmd arg = (ret, d', m')"
  shows "dev_inv d' \<and> live_bounds d'"
proof (cases "cmd = CORTEX_FORGE_IOCTL_SUBMIT_TASK")
  case True
  with r have s: "ioctl_submit_task ua now d m arg = (ret, d', m')"
    by (simp add: ioctl_dispatch)
  show ?thesis
    using inv s
  proof (cases rule: ioctl_submit_task_cases)
    case 1
    with inv b show ?thesis by simp
  next
    case (2 bs i)
    obtain j fl where fl: "free_tasks d = j # fl" using 2(3) by (cases "free_tasks d") auto
    show ?thesis
      using dev_inv_submit [OF inv fl 2(2), of now] live_bounds_submit [OF b inv 2(2) 2(4)] 2(4)
      by simp
  qed
next
  case False
  then show ?thesis
    using ioctl_other_dev [OF r] dev_inv_cancel [OF inv] live_bounds_cancel [OF b] inv b by auto
qed

text \<open>C4. Every system call, whatever its command, arguments and user memory and whatever copy
  faults occur, keeps the device's invariant (free list, states, identifiers and queues agree)
  and the bounds on the tasks in use (a real accelerator, buffers of at most 64 MiB).\<close>

theorem ioctl_preserves_invariant:
  assumes inv: "dev_inv d" and b: "live_bounds d"
    and r: "cortex_forge_ioctl ua hz now d m cmd arg = (ret, d', m')"
  shows "dev_inv d' \<and> live_bounds d'"
  using assms by (rule ioctl_keeps_inv)

theorem ioctl_preserves_invariant_witness:
  "\<exists>ret d' m'. cortex_forge_ioctl flat_uaccess 250 7 fresh_dev (um_holding 0x1000 (enc_task_desc sample_desc))
       CORTEX_FORGE_IOCTL_SUBMIT_TASK 0x1000 = (ret, d', m') \<and> dev_inv d' \<and> live_bounds d'"
proof -
  let ?m = "um_holding 0x1000 (enc_task_desc sample_desc)"
  obtain ret d' m' where r: "cortex_forge_ioctl flat_uaccess 250 7 fresh_dev ?m
      CORTEX_FORGE_IOCTL_SUBMIT_TASK 0x1000 = (ret, d', m')"
    by (cases "cortex_forge_ioctl flat_uaccess 250 7 fresh_dev ?m CORTEX_FORGE_IOCTL_SUBMIT_TASK 0x1000")
  have "live_bounds fresh_dev" by (simp add: live_bounds_def zero_task_def)
  from ioctl_preserves_invariant [OF _ this r] r show ?thesis by auto
qed

text \<open>The eight command numbers are pairwise different, so no case shadows another, and any
  other number is refused with \<open>-ENOTTY\<close> without touching the device or user memory.\<close>

lemma ioctl_unknown_command:
  "distinct ioctl_commands \<and>
   (cmd \<notin> set ioctl_commands \<longrightarrow>
      cortex_forge_ioctl ua hz now d m cmd arg = (neg_errno ENOTTY, d, m))"
  by (simp add: ioctl_commands_def ioctl_values cortex_forge_ioctl_def)

section \<open>Submission\<close>

text \<open>C20. A submission with a valid descriptor and a free slot takes the first free slot and no
  other: it leaves the free list, every other slot keeps its contents, the slot goes to the tail
  of the queue of the accelerator named (the other queues stay), and the identifier, the next of
  the counter, belongs to no task in use. The result is 0, and the descriptor written back
  differs from the one read in the identifier only; if writing it back faults the result is
  \<open>-EFAULT\<close> although the task has been queued.\<close>

theorem submit_effect:
  assumes inv: "dev_inv d" and bs: "copy_from_user ua m arg 80 = Some bs"
    and ok: "check_desc (dec_task_desc bs) = None" and fl: "free_tasks d = i # fl"
    and out: "copy_to_user ua m arg (enc_task_desc ((dec_task_desc bs)\<lparr>td_task_id := next_task_id d + 1\<rparr>)) =
      (m', copied)"
  shows "\<exists>d'. cortex_forge_ioctl ua hz now d m CORTEX_FORGE_IOCTL_SUBMIT_TASK arg =
      (if copied then 0 else neg_errno EFAULT, d', m') \<and>
    free_tasks d' = fl \<and> next_task_id d' = next_task_id d + 1 \<and>
    tasks d' ! i = submitted now (next_task_id d + 1) (dec_task_desc bs) \<and>
    (\<forall>j. j \<noteq> i \<longrightarrow> tasks d' ! j = tasks d ! j) \<and>
    (\<forall>a < NUM_ACCELERATORS. a_task_queue (accelerators d' ! a) = a_task_queue (accelerators d ! a) @
       (if a = unat (td_accel_type (dec_task_desc bs)) then [i] else [])) \<and>
    (\<forall>j < MAX_TASKS. j \<notin> set (free_tasks d) \<longrightarrow> t_id (tasks d ! j) \<noteq> next_task_id d + 1)"
proof -
  let ?desc = "dec_task_desc bs"
  from inv ok obtain d' where s: "submit_desc now ?desc d = (0, i, d')" "i < MAX_TASKS"
    "free_tasks d' = fl" "next_task_id d' = next_task_id d + 1"
    "tasks d' = (tasks d)[i := submitted now (next_task_id d + 1) ?desc]"
    "accelerators d' = upd_accel (unat (td_accel_type ?desc))
       (\<lambda>ac. ac\<lparr>a_task_queue := a_task_queue ac @ [i]\<rparr>) (accelerators d)"
    by (rule submit_desc_cases [where now = now]) (use fl in auto)
  have i: "tasks d' ! i = submitted now (next_task_id d + 1) ?desc"
    using s dev_inv_lengths(1) [OF inv] by simp
  have "cortex_forge_ioctl ua hz now d m CORTEX_FORGE_IOCTL_SUBMIT_TASK arg =
      (if copied then 0 else neg_errno EFAULT, d', m')"
    by (simp add: ioctl_dispatch ioctl_submit_task_def bs ok s(1) i out)
  moreover have "a_task_queue (accelerators d' ! a) = a_task_queue (accelerators d ! a) @
      (if a = unat (td_accel_type ?desc) then [i] else [])" if "a < NUM_ACCELERATORS" for a
    using that check_desc_NoneD(1) [OF ok] dev_inv_lengths(2) [OF inv] by (simp add: s(6) nth_upd_accel)
  moreover have "t_id (tasks d ! j) \<noteq> next_task_id d + 1" if "j < MAX_TASKS" "j \<notin> set (free_tasks d)" for j
  proof -
    note p = dev_inv_pool [OF inv]
    have "unat (t_id (tasks d ! j)) \<le> unat (next_task_id d)"
      using p that by (simp add: pool_inv_def)
    moreover have "unat (next_task_id d + 1) = Suc (unat (next_task_id d))"
      using pool_inv_free(3) [OF p] fl by (simp add: unat_word_ariths MAX_TASKS_def)
    ultimately show ?thesis by (metis Suc_n_not_le_n)
  qed
  ultimately show ?thesis using s(3-5) i by auto
qed

lemma sample_read:
  "copy_from_user flat_uaccess (um_holding a (enc_task_desc sample_desc)) a 80 =
     Some (enc_task_desc sample_desc)"
proof -
  have l: "length (enc_task_desc sample_desc) = 80"
    by (rule desc_wire.enc_length) simp
  have "length (enc_task_desc sample_desc) < 2 ^ 64" unfolding l by simp
  from um_holding_read [OF this, of a] show ?thesis unfolding l .
qed

lemma sample_decode [simp]: "dec_task_desc (enc_task_desc sample_desc) = sample_desc"
  by (rule desc_wire.dec_enc) simp

theorem submit_effect_witness:
  "\<exists>d' m'. cortex_forge_ioctl flat_uaccess 250 7 fresh_dev (um_holding 0x1000 (enc_task_desc sample_desc))
       CORTEX_FORGE_IOCTL_SUBMIT_TASK 0x1000 = (0, d', m') \<and>
     tasks d' ! 0 = submitted 7 1 sample_desc \<and> a_task_queue (accelerators d' ! 1) = [0]"
proof -
  let ?m = "um_holding 0x1000 (enc_task_desc sample_desc)"
  let ?out = "enc_task_desc ((dec_task_desc (enc_task_desc sample_desc))\<lparr>td_task_id := next_task_id fresh_dev + 1\<rparr>)"
  have "copy_to_user flat_uaccess ?m 0x1000 ?out = (um_store ?m 0x1000 ?out, True)"
    by (rule um_holding_write)
  moreover have "(1::nat) < NUM_ACCELERATORS" "unat (td_accel_type sample_desc) = 1"
    "a_task_queue (init_accels ! 1) = []"
    by (simp_all add: NUM_ACCELERATORS_def sample_desc_def init_accels_def accel_init_def)
  ultimately show ?thesis
    using submit_effect [where d = fresh_dev and ua = flat_uaccess and m = ?m and arg = "0x1000"
        and bs = "enc_task_desc sample_desc" and i = "0" and fl = "[1..<MAX_TASKS]"
        and m' = "um_store ?m 0x1000 ?out" and copied = "True" and hz = "250" and now = "7"]
    by (auto simp: sample_read)
qed





section \<open>Capacity\<close>

text \<open>
  A run of system calls: each call comes with the clock, the caller's memory, the command and
  its argument; the device is carried from one to the next. Each gives its result and the memory it
  leaves the caller.
\<close>

fun ioctl_run :: "'m uaccess \<Rightarrow> u64 \<Rightarrow> (u64 \<times> 'm \<times> u32 \<times> u64) list \<Rightarrow> cortex_forge_dev \<Rightarrow>
    (int \<times> 'm) list \<times> cortex_forge_dev" where
  "ioctl_run ua hz [] d = ([], d)"
| "ioctl_run ua hz ((now, m, cmd, arg) # cs) d =
     (let (ret, d1, m1) = cortex_forge_ioctl ua hz now d m cmd arg; (rs, d2) = ioctl_run ua hz cs d1
      in ((ret, m1) # rs, d2))"

definition accepted_submit :: "(u64 \<times> 'm \<times> u32 \<times> u64) \<times> int \<times> 'm \<Rightarrow> bool" where
  "accepted_submit = (\<lambda>((now, m, cmd, arg), ret, m1). cmd = CORTEX_FORGE_IOCTL_SUBMIT_TASK \<and> ret = 0)"

lemma ioctl_free_tasks:
  assumes inv: "dev_inv d" and r: "cortex_forge_ioctl ua hz now d m cmd arg = (ret, d', m')"
  shows "(if cmd = CORTEX_FORGE_IOCTL_SUBMIT_TASK \<and> ret = 0 then 1 else 0) + length (free_tasks d')
    \<le> length (free_tasks d)"
proof (cases "cmd = CORTEX_FORGE_IOCTL_SUBMIT_TASK")
  case True
  with r have s: "ioctl_submit_task ua now d m arg = (ret, d', m')"
    by (simp add: ioctl_dispatch)
  show ?thesis
    using inv s
  proof (cases rule: ioctl_submit_task_cases)
    case 1
    then show ?thesis by simp
  next
    case (2 bs i)
    from inv 2(2) show ?thesis
      by (rule submit_desc_cases [where now = now]) (use 2 in auto)
  qed
next
  case False
  then show ?thesis using ioctl_other_dev [OF r] by auto
qed

lemma ioctl_frees_none:
  assumes inv: "dev_inv d" and r: "cortex_forge_ioctl ua hz now d m cmd arg = (ret, d', m')"
  shows "set (free_tasks d') \<subseteq> set (free_tasks d)"
proof (cases "cmd = CORTEX_FORGE_IOCTL_SUBMIT_TASK")
  case True
  with r have "ioctl_submit_task ua now d m arg = (ret, d', m')"
    by (simp add: ioctl_dispatch)
  with inv show ?thesis
  proof (cases rule: ioctl_submit_task_cases)
    case (2 bs i)
    from inv 2(2) show ?thesis
      by (rule submit_desc_cases [where now = now]) (use 2 in auto)
  qed simp
next
  case False
  then show ?thesis using ioctl_other_dev [OF r] by auto
qed

lemma ioctl_keeps_dev_inv:
  assumes inv: "dev_inv d" and r: "cortex_forge_ioctl ua hz now d m cmd arg = (ret, d', m')"
  shows "dev_inv d'"
proof (cases "cmd = CORTEX_FORGE_IOCTL_SUBMIT_TASK")
  case True
  with r have "ioctl_submit_task ua now d m arg = (ret, d', m')"
    by (simp add: ioctl_dispatch)
  with inv show ?thesis
  proof (cases rule: ioctl_submit_task_cases)
    case 1
    with inv show ?thesis by simp
  next
    case (2 bs i)
    from inv 2(2) show ?thesis
      by (rule submit_desc_cases [where now = now]) (use 2 in auto)
  qed
next
  case False
  then show ?thesis
    using ioctl_other_dev [OF r] dev_inv_cancel [OF inv] inv by auto
qed

lemma fst_ioctl_run_Cons:
  assumes "cortex_forge_ioctl ua hz now d m cmd arg = (ret, d1, m1)"
  shows "fst (ioctl_run ua hz ((now, m, cmd, arg) # cs) d) = (ret, m1) # fst (ioctl_run ua hz cs d1)"
  by (cases "ioctl_run ua hz cs d1") (simp add: assms)

text \<open>Slots are never given back: over any run of system calls, mixed in any way, the
  submissions accepted are at most as many as the slots that were free at the start. After
  probe that is 256 for the lifetime of the device, however many tasks have completed or been
  cancelled meanwhile.\<close>

lemma submissions_bounded_forever:
  assumes "dev_inv d" and "ioctl_run ua hz cs d = (rets, d')"
  shows "length (filter accepted_submit (zip cs rets)) + length (free_tasks d') \<le> length (free_tasks d)"
  using assms
proof (induction cs arbitrary: d rets)
  case Nil
  then show ?case by simp
next
  case (Cons c cs)
  obtain now m cmd arg where c: "c = (now, m, cmd, arg)" by (cases c)
  obtain ret d1 m1 where i: "cortex_forge_ioctl ua hz now d m cmd arg = (ret, d1, m1)"
    by (cases "cortex_forge_ioctl ua hz now d m cmd arg")
  obtain rets1 d2 where r: "ioctl_run ua hz cs d1 = (rets1, d2)"
    by (cases "ioctl_run ua hz cs d1")
  have eq: "rets = (ret, m1) # rets1" "d' = d2" using Cons.prems(2) by (simp_all add: c i r)
  have "length (filter accepted_submit (zip cs rets1)) + length (free_tasks d') \<le> length (free_tasks d1)"
    using Cons.IH [OF ioctl_keeps_dev_inv [OF Cons.prems(1) i]] r eq by simp
  moreover have "accepted_submit (c, ret, m1) \<longleftrightarrow> cmd = CORTEX_FORGE_IOCTL_SUBMIT_TASK \<and> ret = 0"
    by (simp add: accepted_submit_def c)
  ultimately show ?case
    using ioctl_free_tasks [OF Cons.prems(1) i]
    by (cases "accepted_submit (c, ret, m1)") (simp_all add: eq)
qed






section \<open>Query\<close>

text \<open>The code the user interface gives a state.\<close>

fun uapi_status :: "task_state \<Rightarrow> u32 option" where
  "uapi_status TASK_STATE_FREE = None"
| "uapi_status TASK_STATE_PENDING = Some CORTEX_FORGE_TASK_PENDING"
| "uapi_status TASK_STATE_RUNNING = Some CORTEX_FORGE_TASK_RUNNING"
| "uapi_status TASK_STATE_COMPLETE = Some CORTEX_FORGE_TASK_COMPLETE"
| "uapi_status TASK_STATE_FAILED = Some CORTEX_FORGE_TASK_FAILED"
| "uapi_status TASK_STATE_CANCELLED = Some CORTEX_FORGE_TASK_CANCELLED"

lemma task_state_val_uapi: "uapi_status s = Some c \<Longrightarrow> task_state_val s = c + 1"
  by (cases s) (auto simp: uapi_task_codes)

lemma query_live:
  assumes ua: "user_access ua" and inv: "dev_inv d" and i: "i < MAX_TASKS" "i \<notin> set (free_tasks d)"
    and bs: "copy_from_user ua m arg 32 = Some bs" "ts_task_id (dec_task_status bs) = t_id (tasks d ! i)"
    and r: "cortex_forge_ioctl ua hz now d m CORTEX_FORGE_IOCTL_QUERY_TASK arg = (ret, d', m')"
  shows "d' = d" and "ret = 0 \<or> ret = neg_errno EFAULT"
    and "ret = 0 \<Longrightarrow> copy_from_user ua m' arg 32 = Some (enc_task_status (query_status hz (tasks d ! i)))"
proof -
  let ?st = "query_status hz (tasks d ! i)"
  have l: "task_lookup (tasks d) (t_id (tasks d ! i)) 0 = Some i"
    using i pool_inv_lookup [OF dev_inv_pool [OF inv]] by simp
  have len: "length (enc_task_status ?st) = 32"
    by (rule status_wire.enc_length) simp
  obtain m1 ok where c: "copy_to_user ua m arg (enc_task_status ?st) = (m1, ok)"
    by (cases "copy_to_user ua m arg (enc_task_status ?st)")
  have eq: "(ret, d', m') = (if ok then 0 else neg_errno EFAULT, d, m1)"
    using r by (simp add: ioctl_dispatch ioctl_query_task_def bs task_query_def l c split: if_splits)
  then show "d' = d" and "ret = 0 \<or> ret = neg_errno EFAULT" by (auto split: if_splits)
  assume "ret = 0"
  with eq have "copy_to_user ua m arg (enc_task_status ?st) = (m', True)"
    by (simp add: c split: if_splits)
  from user_access.to_from [OF ua this] show "copy_from_user ua m' arg 32 = Some (enc_task_status ?st)"
    by (simp add: len)
qed

text \<open>C23. Query of a task in use reports that task: it changes nothing in the device, and what the
  process finds in its memory after a result of 0 is the task's identifier, its error code, the
  microseconds between its two time stamps (64-bit arithmetic, wrapping), and a status that is
  one more than the code the user interface documents for the state of the task, because the
  kernel's enumeration has \<open>TASK_STATE_FREE\<close> at 0.\<close>

theorem query_reports_shifted_status:
  assumes "user_access ua" and "dev_inv d" and "i < MAX_TASKS" and "i \<notin> set (free_tasks d)"
    and "copy_from_user ua m arg 32 = Some bs" and "ts_task_id (dec_task_status bs) = t_id (tasks d ! i)"
    and "cortex_forge_ioctl ua hz now d m CORTEX_FORGE_IOCTL_QUERY_TASK arg = (0, d', m')"
  shows "d' = d \<and> (\<exists>out c. copy_from_user ua m' arg 32 = Some out \<and>
    uapi_status (t_state (tasks d ! i)) = Some c \<and>
    dec_task_status out = \<lparr>ts_task_id = t_id (tasks d ! i), ts_status = c + 1,
      ts_exec_usec = (t_complete_jiffies (tasks d ! i) - t_submit_jiffies (tasks d ! i)) * 1000000 div hz,
      ts_error_code = t_error_code (tasks d ! i), ts_reserved = [0, 0, 0]\<rparr>)"
proof -
  let ?t = "tasks d ! i"
  note q = query_live [OF assms]
  have "t_state ?t \<noteq> TASK_STATE_FREE"
    using dev_inv_pool [OF assms(2)] assms(3,4) by (simp add: pool_inv_def)
  then obtain c where c: "uapi_status (t_state ?t) = Some c" by (cases "t_state ?t") auto
  have "dec_task_status (enc_task_status (query_status hz ?t)) = query_status hz ?t"
    by (rule status_wire.dec_enc) simp
  moreover have "query_status hz ?t = \<lparr>ts_task_id = t_id ?t, ts_status = c + 1,
      ts_exec_usec = (t_complete_jiffies ?t - t_submit_jiffies ?t) * 1000000 div hz,
      ts_error_code = t_error_code ?t, ts_reserved = [0, 0, 0]\<rparr>"
    by (simp add: query_status_def task_state_val_uapi [OF c])
  ultimately show ?thesis using q(1) q(3) c by simp
qed

lemma sample_submitted:
  obtains d where "submit_desc 7 sample_desc fresh_dev = (0, 0, d)" and "dev_inv d"
    and "free_tasks d = [1..<MAX_TASKS]"
    and "tasks d = (replicate MAX_TASKS zero_task)[0 := submitted 7 1 sample_desc]"
  by (rule submit_desc_cases [of fresh_dev sample_desc 7]) auto

definition ask :: "u32 \<Rightarrow> cortex_forge_task_status" where
  "ask tid = \<lparr>ts_task_id = tid, ts_status = 0, ts_exec_usec = 0, ts_error_code = 0, ts_reserved = [0, 0, 0]\<rparr>"

lemma ask_read:
  "copy_from_user flat_uaccess (um_holding a (enc_task_status (ask tid))) a 32 = Some (enc_task_status (ask tid))"
  "ts_task_id (dec_task_status (enc_task_status (ask tid))) = tid"
proof -
  have wf: "wf_task_status (ask tid)" by (simp add: ask_def wf_task_status_def)
  have l: "length (enc_task_status (ask tid)) = 32" by (rule status_wire.enc_length [OF wf])
  have "length (enc_task_status (ask tid)) < 2 ^ 64" unfolding l by simp
  from um_holding_read [OF this, of a]
  show "copy_from_user flat_uaccess (um_holding a (enc_task_status (ask tid))) a 32 = Some (enc_task_status (ask tid))"
    unfolding l .
  show "ts_task_id (dec_task_status (enc_task_status (ask tid))) = tid"
    unfolding status_wire.dec_enc [OF wf] by (simp add: ask_def)
qed

lemma query_sample:
  assumes "task_lookup (tasks d) tid 0 = Some i"
  shows "\<exists>m'. cortex_forge_ioctl flat_uaccess hz now d (um_holding a (enc_task_status (ask tid)))
    CORTEX_FORGE_IOCTL_QUERY_TASK a = (0, d, m')"
  using assms by (simp add: ioctl_dispatch ioctl_query_task_def ask_read task_query_def um_holding_write)

theorem query_reports_shifted_status_witness:
  "\<exists>d m' out. cortex_forge_ioctl flat_uaccess 250 9 d (um_holding 0x2000 (enc_task_status (ask 1)))
       CORTEX_FORGE_IOCTL_QUERY_TASK 0x2000 = (0, d, m') \<and>
     copy_from_user flat_uaccess m' 0x2000 32 = Some out \<and> t_state (tasks d ! 0) = TASK_STATE_PENDING \<and>
     ts_status (dec_task_status out) = 1"
proof -
  obtain d where d: "dev_inv d" "free_tasks d = [1..<MAX_TASKS]"
    "tasks d = (replicate MAX_TASKS zero_task)[0 := submitted 7 1 sample_desc]"
    using sample_submitted by metis
  have t: "t_id (tasks d ! 0) = 1" "t_state (tasks d ! 0) = TASK_STATE_PENDING" by (simp_all add: d(3))
  have free: "0 \<notin> set (free_tasks d)" by (simp add: d(2))
  have "task_lookup (tasks d) 1 0 = Some 0"
    using pool_inv_lookup [OF dev_inv_pool [OF d(1)]] t free by simp
  then obtain m' where q: "cortex_forge_ioctl flat_uaccess 250 9 d (um_holding 0x2000 (enc_task_status (ask 1)))
      CORTEX_FORGE_IOCTL_QUERY_TASK 0x2000 = (0, d, m')"
    using query_sample by blast
  have "ts_task_id (dec_task_status (enc_task_status (ask 1))) = t_id (tasks d ! 0)"
    by (simp add: ask_read t)
  from query_reports_shifted_status [OF flat.user_access_axioms d(1) MAX_TASKS_pos free ask_read(1) this q] t
  obtain out where "copy_from_user flat_uaccess m' 0x2000 32 = Some out" "ts_status (dec_task_status out) = 1"
    by (auto simp: uapi_task_codes)
  with q t show ?thesis by blast
qed

text \<open>C21. Submit and query fit together: the identifier that a successful submission writes into the
  caller's descriptor, put into a status structure anywhere in memory and queried with no worker
  step in between, finds that very task. The query reports the identifier and no error, and the
  code 1, which the user interface documents as running although the task is pending.\<close>

theorem submit_then_query:
  assumes ua: "user_access ua" and inv: "dev_inv d"
    and s: "cortex_forge_ioctl ua hz now d m CORTEX_FORGE_IOCTL_SUBMIT_TASK a = (0, d1, m1)"
    and out: "copy_from_user ua m1 a 80 = Some out"
    and b: "copy_from_user ua m2 b 32 = Some bs" "ts_task_id (dec_task_status bs) = td_task_id (dec_task_desc out)"
    and q: "cortex_forge_ioctl ua hz now' d1 m2 CORTEX_FORGE_IOCTL_QUERY_TASK b = (ret, d2, m3)"
  shows "d2 = d1 \<and> (ret = 0 \<or> ret = neg_errno EFAULT) \<and> td_task_id (dec_task_desc out) = next_task_id d + 1 \<and>
    (ret = 0 \<longrightarrow> (\<exists>st. copy_from_user ua m3 b 32 = Some st \<and>
       dec_task_status st = \<lparr>ts_task_id = next_task_id d + 1, ts_status = CORTEX_FORGE_TASK_RUNNING,
         ts_exec_usec = (- now) * 1000000 div hz, ts_error_code = 0, ts_reserved = [0, 0, 0]\<rparr>))"
proof -
  from s have s': "ioctl_submit_task ua now d m a = (0, d1, m1)" by (simp add: ioctl_dispatch)
  obtain bs0 i where rd: "copy_from_user ua m a 80 = Some bs0" "check_desc (dec_task_desc bs0) = None"
    "submit_desc now (dec_task_desc bs0) d = (0, i, d1)"
    by (rule ioctl_submit_task_cases [OF inv s']) auto
  have "i < MAX_TASKS \<and> i \<notin> set (free_tasks d1) \<and> dev_inv d1 \<and>
    tasks d1 ! i = submitted now (next_task_id d + 1) (dec_task_desc bs0)"
    using inv rd(2)
  proof (cases rule: submit_desc_cases [where now = now])
    case 1
    with rd(3) show ?thesis by simp
  next
    case (2 j fl d')
    with rd(3) have "j = i" "d' = d1" by simp_all
    with 2 pool_inv_free(1) [OF dev_inv_pool [OF inv]] dev_inv_lengths(1) [OF inv] show ?thesis by simp
  qed
  then have sub: "i < MAX_TASKS" "i \<notin> set (free_tasks d1)" "dev_inv d1"
    "tasks d1 ! i = submitted now (next_task_id d + 1) (dec_task_desc bs0)"
    by simp_all
  let ?desc = "(dec_task_desc bs0)\<lparr>td_task_id := next_task_id d + 1\<rparr>"
  have "wf_task_desc (dec_task_desc bs0)"
    by (rule desc_wire.dec_wf) (rule user_access.from_length [OF ua rd(1)])
  then have wf: "wf_task_desc ?desc" by (simp add: wf_task_desc_def)
  have "copy_to_user ua m a (enc_task_desc ?desc) = (m1, True)"
    using s' by (auto simp: ioctl_submit_task_def rd sub(4) split: prod.splits if_splits)
  from user_access.to_from [OF ua this] have "out = enc_task_desc ?desc"
    using out by (simp add: desc_wire.enc_length [OF wf])
  then have tid: "td_task_id (dec_task_desc out) = next_task_id d + 1"
    by (simp add: desc_wire.dec_enc [OF wf])
  then have "ts_task_id (dec_task_status bs) = t_id (tasks d1 ! i)" using b(2) by (simp add: sub(4))
  note ql = query_live [OF ua sub(3,1,2) b(1) this q]
  have "dec_task_status (enc_task_status (query_status hz (tasks d1 ! i))) =
      \<lparr>ts_task_id = next_task_id d + 1, ts_status = CORTEX_FORGE_TASK_RUNNING,
       ts_exec_usec = (- now) * 1000000 div hz, ts_error_code = 0, ts_reserved = [0, 0, 0]\<rparr>"
    by (subst status_wire.dec_enc)
      (simp_all add: query_status_def sub(4) submitted_def fill_task_def uapi_task_codes zero_task_def wf_task_status_def)
  with ql tid show ?thesis by auto
qed

theorem submit_then_query_witness:
  "\<exists>d1 m1 m3 st. cortex_forge_ioctl flat_uaccess 250 7 fresh_dev (um_holding 0x1000 (enc_task_desc sample_desc))
       CORTEX_FORGE_IOCTL_SUBMIT_TASK 0x1000 = (0, d1, m1) \<and>
     cortex_forge_ioctl flat_uaccess 250 9 d1 (um_holding 0x2000 (enc_task_status (ask 1)))
       CORTEX_FORGE_IOCTL_QUERY_TASK 0x2000 = (0, d1, m3) \<and>
     copy_from_user flat_uaccess m3 0x2000 32 = Some st \<and> ts_task_id (dec_task_status st) = 1"
proof -
  let ?m = "um_holding 0x1000 (enc_task_desc sample_desc)"
  let ?out = "enc_task_desc (sample_desc\<lparr>td_task_id := 1\<rparr>)"
  let ?ask = "um_holding 0x2000 (enc_task_status (ask 1))"
  obtain d where d: "submit_desc 7 sample_desc fresh_dev = (0, 0, d)" "dev_inv d" "free_tasks d = [1..<MAX_TASKS]"
    "tasks d = (replicate MAX_TASKS zero_task)[0 := submitted 7 1 sample_desc]"
    by (rule sample_submitted)
  have "tasks d ! 0 = submitted 7 1 sample_desc" by (simp add: d(4))
  then have s: "cortex_forge_ioctl flat_uaccess 250 7 fresh_dev ?m CORTEX_FORGE_IOCTL_SUBMIT_TASK 0x1000 =
      (0, d, um_store ?m 0x1000 ?out)"
    by (simp add: ioctl_dispatch ioctl_submit_task_def sample_read d(1) um_holding_write)
  have wf: "wf_task_desc (sample_desc\<lparr>td_task_id := 1\<rparr>)" by (simp add: sample_desc_def wf_task_desc_def)
  then have l: "length ?out = 80" by (rule desc_wire.enc_length)
  have rd: "copy_from_user flat_uaccess (um_store ?m 0x1000 ?out) 0x1000 80 = Some ?out"
    using flat.to_from [OF um_holding_write, of ?out "0x1000" "enc_task_desc sample_desc" "0x1000"] l by simp
  have id: "ts_task_id (dec_task_status (enc_task_status (ask 1))) = td_task_id (dec_task_desc ?out)"
    unfolding desc_wire.dec_enc [OF wf] by (simp add: ask_read)
  have "task_lookup (tasks d) 1 0 = Some 0"
    using pool_inv_lookup [OF dev_inv_pool [OF d(2)]] by (simp add: d(3,4))
  then obtain m3 where q: "cortex_forge_ioctl flat_uaccess 250 9 d ?ask CORTEX_FORGE_IOCTL_QUERY_TASK 0x2000 = (0, d, m3)"
    using query_sample by blast
  from submit_then_query [OF flat.user_access_axioms fresh_dev_facts(1) s rd ask_read(1) id q]
  obtain st where "copy_from_user flat_uaccess m3 0x2000 32 = Some st" "ts_task_id (dec_task_status st) = 1"
    by auto
  with s q show ?thesis by blast
qed

section \<open>What a reply contains\<close>

lemma submit_reply:
  assumes ua: "user_access ua" and inv: "dev_inv d" and s: "ioctl_submit_task ua now d m arg = (0, d', m')"
  shows "\<exists>bs. copy_from_user ua m arg 80 = Some bs \<and>
    copy_from_user ua m' arg 80 = Some (bytes4 (next_task_id d + 1) @ drop 4 bs)"
proof -
  obtain bs i where rd: "copy_from_user ua m arg 80 = Some bs" "check_desc (dec_task_desc bs) = None"
    "submit_desc now (dec_task_desc bs) d = (0, i, d')"
    by (rule ioctl_submit_task_cases [OF inv s]) auto
  have l: "length bs = 80" by (rule user_access.from_length [OF ua rd(1)])
  have "t_id (tasks d' ! i) = next_task_id d + 1"
    by (rule submit_desc_cases [OF inv rd(2), of now]) (use rd(3) dev_inv_lengths(1) [OF inv] in auto)
  then have "copy_to_user ua m arg (bytes4 (next_task_id d + 1) @ drop 4 bs) = (m', True)"
    using s by (auto simp: ioctl_submit_task_def rd enc_desc_set_id [OF l] split: prod.splits if_splits)
  from user_access.to_from [OF ua this] l rd(1) show ?thesis by simp
qed

lemma query_reply:
  assumes ua: "user_access ua" and s: "ioctl_query_task ua hz d m arg = (0, d', m')"
  shows "\<exists>bs out. copy_from_user ua m arg 32 = Some bs \<and> copy_from_user ua m' arg 32 = Some out \<and>
    take 4 out = take 4 bs \<and> drop 20 out = replicate 12 0"
proof -
  from s obtain bs i where bs: "copy_from_user ua m arg 32 = Some bs"
    and i: "task_lookup (tasks d) (ts_task_id (dec_task_status bs)) 0 = Some i"
    and w: "copy_to_user ua m arg (enc_task_status (query_status hz (tasks d ! i))) = (m', True)"
    by (auto simp: ioctl_query_task_def task_query_def neg_errno_def split: option.splits prod.splits if_splits)
  let ?out = "enc_task_status (query_status hz (tasks d ! i))"
  have "length ?out = 32" by (rule status_wire.enc_length) simp
  with user_access.to_from [OF ua w] have "copy_from_user ua m' arg 32 = Some ?out" by simp
  moreover have "take 4 bs = take 4 ?out"
    using enc_status_parts(1) [of "dec_task_status bs"] task_lookup_SomeD(2) [OF i]
    by (simp add: status_wire.enc_dec [OF user_access.from_length [OF ua bs]] enc_status_parts(1) query_status_def)
  moreover have "drop 20 ?out = replicate 12 0"
    unfolding enc_status_parts by (simp add: query_status_def) code_simp
  ultimately show ?thesis using bs by auto
qed

lemma info_reply:
  assumes ua: "user_access ua" and s: "ioctl_get_accel_info ua d m arg = (0, d', m')"
  shows "\<exists>bs out. copy_from_user ua m arg 56 = Some bs \<and> copy_from_user ua m' arg 56 = Some out \<and>
    take 4 out = take 4 bs \<and> drop 44 out = drop 44 bs"
proof -
  from s obtain bs ac where bs: "copy_from_user ua m arg 56 = Some bs"
    and w: "copy_to_user ua m arg (enc_accel_info (accel_get_info ac (dec_accel_info bs))) = (m', True)"
    by (auto simp: ioctl_get_accel_info_def Let_def neg_errno_def split: option.splits prod.splits if_splits)
  note l = user_access.from_length [OF ua bs]
  let ?out = "enc_accel_info (accel_get_info ac (dec_accel_info bs))"
  have wf: "wf_accel_info (accel_get_info ac (dec_accel_info bs))"
    using info_wire.dec_wf [OF l] by (simp add: wf_accel_info_def accel_get_info_def)
  with user_access.to_from [OF ua w] have "copy_from_user ua m' arg 56 = Some ?out"
    by (simp add: info_wire.enc_length)
  moreover have "take 4 ?out = take 4 (enc_accel_info (dec_accel_info bs))"
    "drop 44 ?out = drop 44 (enc_accel_info (dec_accel_info bs))"
    by (simp_all add: enc_info_parts accel_get_info_def)
  ultimately show ?thesis using bs by (simp add: info_wire.enc_dec [OF l])
qed

lemma profile_reply:
  assumes ua: "user_access ua" and s: "ioctl_get_profile ua d m arg = (0, d', m')"
  shows "\<exists>out. copy_from_user ua m' arg 72 = Some out \<and> drop 40 out = replicate 32 0"
proof -
  from s have w: "copy_to_user ua m arg (enc_profile_metrics profile_metrics) = (m', True)"
    by (auto simp: ioctl_get_profile_def Let_def neg_errno_def split: prod.splits if_splits)
  have "length (enc_profile_metrics profile_metrics) = 72"
    by (rule profile_wire.enc_length) (simp add: wf_profile_metrics_def profile_metrics_def)
  with user_access.to_from [OF ua w] have "copy_from_user ua m' arg 72 = Some (enc_profile_metrics profile_metrics)" by simp
  moreover have "drop 40 (enc_profile_metrics profile_metrics) = replicate 32 0"
    unfolding enc_profile_parts by code_simp
  ultimately show ?thesis by blast
qed

text \<open>C22. Nothing but the documented fields gets into a reply. After a successful call the process finds, byte
  for byte: its descriptor with the new identifier in the first four bytes and all the others as it
  wrote them, the implicit padding at offset 20 and the reserved words included; a status for the
  identifier it asked for, with zeros in the reserved words; the accelerator's data between its own
  type field and its own reserved words; metrics with zeros in the reserved words. A call that
  only takes data leaves its memory alone. So no call hands over stack memory of the kernel, and the
  reserved words a process sets to zero come back as zero.\<close>

theorem replies_leak_nothing:
  assumes "user_access ua" and "dev_inv d" and "cortex_forge_ioctl ua hz now d m cmd arg = (0, d', m')"
  shows "(cmd = CORTEX_FORGE_IOCTL_SUBMIT_TASK \<longrightarrow> (\<exists>bs. copy_from_user ua m arg 80 = Some bs \<and>
      copy_from_user ua m' arg 80 = Some (bytes4 (next_task_id d + 1) @ drop 4 bs))) \<and>
    (cmd = CORTEX_FORGE_IOCTL_QUERY_TASK \<longrightarrow> (\<exists>bs out. copy_from_user ua m arg 32 = Some bs \<and>
      copy_from_user ua m' arg 32 = Some out \<and> take 4 out = take 4 bs \<and> drop 20 out = replicate 12 0)) \<and>
    (cmd = CORTEX_FORGE_IOCTL_GET_ACCEL_INFO \<longrightarrow> (\<exists>bs out. copy_from_user ua m arg 56 = Some bs \<and>
      copy_from_user ua m' arg 56 = Some out \<and> take 4 out = take 4 bs \<and> drop 44 out = drop 44 bs)) \<and>
    (cmd = CORTEX_FORGE_IOCTL_GET_PROFILE \<longrightarrow> (\<exists>out. copy_from_user ua m' arg 72 = Some out \<and>
      drop 40 out = replicate 32 0)) \<and>
    (cmd = CORTEX_FORGE_IOCTL_GET_VERSION \<longrightarrow> copy_from_user ua m' arg 4 = Some (bytes4 0x00010000)) \<and>
    (cmd \<in> {CORTEX_FORGE_IOCTL_CANCEL_TASK, CORTEX_FORGE_IOCTL_SET_POWER, CORTEX_FORGE_IOCTL_SET_ACCEL} \<longrightarrow> m' = m)"
proof (intro conjI impI)
  note r = assms(3)
  show "\<exists>bs. copy_from_user ua m arg 80 = Some bs \<and>
      copy_from_user ua m' arg 80 = Some (bytes4 (next_task_id d + 1) @ drop 4 bs)"
    if "cmd = CORTEX_FORGE_IOCTL_SUBMIT_TASK"
    using submit_reply [OF assms(1,2)] r by (simp add: that ioctl_dispatch)
  show "\<exists>bs out. copy_from_user ua m arg 32 = Some bs \<and>
      copy_from_user ua m' arg 32 = Some out \<and> take 4 out = take 4 bs \<and> drop 20 out = replicate 12 0"
    if "cmd = CORTEX_FORGE_IOCTL_QUERY_TASK"
    using query_reply [OF assms(1)] r by (simp add: that ioctl_dispatch)
  show "\<exists>bs out. copy_from_user ua m arg 56 = Some bs \<and>
      copy_from_user ua m' arg 56 = Some out \<and> take 4 out = take 4 bs \<and> drop 44 out = drop 44 bs"
    if "cmd = CORTEX_FORGE_IOCTL_GET_ACCEL_INFO"
    using info_reply [OF assms(1)] r by (simp add: that ioctl_dispatch)
  show "\<exists>out. copy_from_user ua m' arg 72 = Some out \<and> drop 40 out = replicate 32 0"
    if "cmd = CORTEX_FORGE_IOCTL_GET_PROFILE"
    using profile_reply [OF assms(1)] r by (simp add: that ioctl_dispatch)
  show "copy_from_user ua m' arg 4 = Some (bytes4 0x00010000)" if "cmd = CORTEX_FORGE_IOCTL_GET_VERSION"
    using user_access.to_from [OF assms(1), of m arg "bytes4 0x00010000" m'] r
    by (auto simp: that ioctl_dispatch ioctl_get_version_def Let_def neg_errno_def split: prod.splits if_splits)
  show "m' = m" if "cmd \<in> {CORTEX_FORGE_IOCTL_CANCEL_TASK, CORTEX_FORGE_IOCTL_SET_POWER, CORTEX_FORGE_IOCTL_SET_ACCEL}"
    using that r by (auto simp: ioctl_dispatch ioctl_cancel_task_def ioctl_set_power_def ioctl_set_accel_def Let_def
        split: option.splits prod.splits if_splits)
qed

theorem replies_leak_nothing_witness:
  "\<exists>d1 m1 bs. cortex_forge_ioctl flat_uaccess 250 7 fresh_dev (um_holding 0x1000 (enc_task_desc sample_desc))
       CORTEX_FORGE_IOCTL_SUBMIT_TASK 0x1000 = (0, d1, m1) \<and>
     copy_from_user flat_uaccess (um_holding 0x1000 (enc_task_desc sample_desc)) 0x1000 80 = Some bs \<and>
     copy_from_user flat_uaccess m1 0x1000 80 = Some (bytes4 1 @ drop 4 bs)"
proof -
  obtain d1 where d1: "submit_desc 7 sample_desc fresh_dev = (0, 0, d1)" by (rule sample_submitted)
  obtain m1 where s: "cortex_forge_ioctl flat_uaccess 250 7 fresh_dev (um_holding 0x1000 (enc_task_desc sample_desc))
      CORTEX_FORGE_IOCTL_SUBMIT_TASK 0x1000 = (0, d1, m1)"
    by (simp add: ioctl_dispatch ioctl_submit_task_def sample_read um_holding_write d1)
  from replies_leak_nothing [OF flat.user_access_axioms fresh_dev_facts(1) s] s show ?thesis by auto
qed

end
