(* ===== verification/Concurrency.thy ===== *)
theory Concurrency
  imports Worker_System Ioctl_Spec
begin

text \<open>
  What holds of the running driver under every interleaving of the three workers, the system
  calls and remove: where slots can be, which lists the list operations are applied to, the
  states a task can be in, the load and the identifiers. All of it follows from the simulation
  of \<open>Worker_System\<close>. Concrete interleavings, given as lists of actions, show the behaviours the
  code does have, among them the races.
\<close>

section \<open>Concrete runs\<close>

datatype action =
    A_Clock u64
  | A_Worker nat
  | A_Call nat user_pc
  | A_User nat
  | A_Copy nat int
  | A_Remove
  | A_Stop

fun perform :: "(u32 \<Rightarrow> u64) \<Rightarrow> u64 \<Rightarrow> action \<Rightarrow> forge_sys \<Rightarrow> forge_sys option" where
  "perform m2j hz (A_Clock t) s = Some (s\<lparr>s_now := t\<rparr>)"
| "perform m2j hz (A_Worker a) s = (if a < NUM_ACCELERATORS then Some (worker_move m2j a s) else None)"
| "perform m2j hz (A_Call u pc) s =
     (if (case s_ut s u of U_Ret r \<Rightarrow> True | _ \<Rightarrow> False) \<and> call_entry pc
      then Some (s\<lparr>s_ut := (s_ut s)(u := pc)\<rparr>) else None)"
| "perform m2j hz (A_User u) s = Some (user_move hz u s)"
| "perform m2j hz (A_Copy u r) s =
     (if copies_out (s_ut s u) \<and> r \<in> {0, neg_errno EFAULT} then Some (s\<lparr>s_ut := (s_ut s)(u := U_Ret r)\<rparr>)
      else None)"
| "perform m2j hz A_Remove s = (if s_sp s = S_Idle then Some (s\<lparr>s_sp := S_Test 0\<rparr>) else None)"
| "perform m2j hz A_Stop s =
     (case stop_thread (s_wk s) (s_sp s) (s_stop s, accelerators (s_dev s)) of
        None \<Rightarrow> None
      | Some (pc, st, as) \<Rightarrow> Some (s\<lparr>s_sp := pc, s_stop := st, s_dev := (s_dev s)\<lparr>accelerators := as\<rparr>\<rparr>))"

fun performs :: "(u32 \<Rightarrow> u64) \<Rightarrow> u64 \<Rightarrow> action list \<Rightarrow> forge_sys \<Rightarrow> forge_sys option" where
  "performs m2j hz [] s = Some s"
| "performs m2j hz (x # xs) s = (case perform m2j hz x s of None \<Rightarrow> None | Some s' \<Rightarrow> performs m2j hz xs s')"

lemma perform_step: "perform m2j hz x s = Some s' \<Longrightarrow> sys_step m2j hz s s'"
  by (cases x) (auto intro: sys_step.intros split: if_splits user_pc.splits option.splits)

lemma performs_steps: "performs m2j hz xs s = Some s' \<Longrightarrow> steps (sys_step m2j hz) s s'"
proof (induction xs arbitrary: s)
  case Nil
  then show ?case by (simp add: steps_refl)
next
  case (Cons x xs)
  then obtain s1 where "perform m2j hz x s = Some s1" "performs m2j hz xs s1 = Some s'"
    by (auto split: option.splits)
  with Cons.IH perform_step show ?case
    by (meson steps_refl steps_step steps_trans)
qed

lemma performs_append:
  "performs m2j hz (xs @ ys) s = (case performs m2j hz xs s of None \<Rightarrow> None | Some s' \<Rightarrow> performs m2j hz ys s')"
  by (induction xs arbitrary: s) (simp_all split: option.splits)

text \<open>The driver probed in the environment where every call succeeds.\<close>

definition good_dev :: cortex_forge_dev where
  "good_dev = (pre_workers good_env)\<lparr>accelerators := with_workers (pe_krun good_env) NUM_ACCELERATORS init_accels,
     dev_dev := pe_device_create good_env cortex_forge_class\<rparr>"

abbreviation start_sys :: forge_sys where
  "start_sys \<equiv> boot good_dev 0"

lemma start_sys_init: "sys_init start_sys"
proof -
  obtain dev cs where p: "cortex_forge_probe good_env = (0, dev, cs)"
    using good_env_probe by blast
  then have "dev = Some good_dev"
    using probe_outcome(2) [of good_env 0 dev cs] by (simp add: good_dev_def)
  with p show ?thesis unfolding sys_init_def using good_env_facts(1) by blast
qed

lemma performs_running: "performs m2j hz xs start_sys = Some s \<Longrightarrow> running_system m2j hz s"
  by (rule reach_steps [OF performs_steps]) (simp, rule reach_init, rule start_sys_init)

text \<open>
  A task for accelerator 1 without a timeout, the actions that submit it, and those of the worker
  around it: up to the end of the simulated execution, and from there to the end of the task.
\<close>

definition demo_desc :: cortex_forge_task_desc where
  "demo_desc = sample_desc\<lparr>td_timeout_ms := 0\<rparr>"

definition submit_run :: "cortex_forge_task_desc \<Rightarrow> action list" where
  "submit_run desc = A_Call 0 (U_Alloc desc) # replicate 7 (A_User 0)"

lemma good_dev_parts:
  "tasks good_dev = replicate MAX_TASKS zero_task" "free_tasks good_dev = 0 # [1..<MAX_TASKS]"
  "next_task_id good_dev = 0" "length (accelerators good_dev) = NUM_ACCELERATORS"
  "a < NUM_ACCELERATORS \<Longrightarrow> accelerators good_dev ! a = (init_accels ! a)\<lparr>a_worker_thread := PTR (10 + a)\<rparr>"
  by (simp_all add: good_dev_def pre_workers_def probe_setup_zero nth_with_workers upt_conv_Cons)
    (simp add: good_env_def)

lemma demo_desc_facts:
  "check_desc demo_desc = None" "unat (td_accel_type demo_desc) = 1" "td_accel_type demo_desc = 1"
  "td_timeout_ms demo_desc = 0"
  by (simp_all add: demo_desc_def sample_desc_def check_desc_def NUM_ACCELERATORS_def)


section \<open>A thread that is not interrupted\<close>

fun user_run :: "u64 \<Rightarrow> u64 \<Rightarrow> nat \<Rightarrow> user_pc \<times> cortex_forge_dev \<Rightarrow> user_pc \<times> cortex_forge_dev" where
  "user_run hz now 0 c = c"
| "user_run hz now (Suc n) c = user_run hz now n (ioctl_thread hz now (fst c) (snd c))"

lemma user_run_add: "user_run hz now (m + n) c = user_run hz now n (user_run hz now m c)"
  by (induction m arbitrary: c) simp_all

lemma performs_user:
  "performs m2j hz (replicate n (A_User u)) s =
     Some (s\<lparr>s_ut := (s_ut s)(u := fst (user_run hz (s_now s) n (s_ut s u, s_dev s))),
             s_dev := snd (user_run hz (s_now s) n (s_ut s u, s_dev s))\<rparr>)"
proof (induction n arbitrary: s)
  case 0
  then show ?case by simp
next
  case (Suc n)
  obtain pc d where "ioctl_thread hz (s_now s) (s_ut s u) (s_dev s) = (pc, d)"
    by (cases "ioctl_thread hz (s_now s) (s_ut s u) (s_dev s)")
  then show ?case by (auto simp: Suc user_move_def intro!: forge_sys.equality)
qed

lemma performs_worker:
  assumes "a < NUM_ACCELERATORS" and "length (accelerators (s_dev s)) = NUM_ACCELERATORS"
    and "worker_run m2j (\<lambda>_. (s_now s, s_stop s a)) n (s_wk s a, (tasks (s_dev s), accelerators (s_dev s) ! a)) =
      (pc, (ts, ac))"
  shows "performs m2j hz (replicate n (A_Worker a)) s =
     Some (s\<lparr>s_wk := (s_wk s)(a := pc),
             s_dev := (s_dev s)\<lparr>tasks := ts, accelerators := (accelerators (s_dev s))[a := ac]\<rparr>\<rparr>)"
  using assms
proof (induction n arbitrary: s)
  case 0
  then show ?case by (auto intro!: forge_sys.equality cortex_forge_dev.equality)
next
  case (Suc n)
  obtain pc1 ts1 ac1 where st: "accel_worker_thread m2j (s_now s) (s_stop s a) (s_wk s a)
      (tasks (s_dev s), accelerators (s_dev s) ! a) = (pc1, (ts1, ac1))"
    by (metis prod.collapse)
  with Suc.prems have "worker_run m2j (\<lambda>_. (s_now s, s_stop s a)) n (pc1, (ts1, ac1)) = (pc, (ts, ac))"
    by simp
  with Suc.prems(1,2) show ?case
    by (simp add: worker_move_def st) (subst Suc.IH, auto intro!: forge_sys.equality)
qed

text \<open>Submission: the seven steps of the thread are the handler's body.\<close>

lemma submit_alone:
  assumes "free_tasks d = i # fl" and "i < length (tasks d)" and "check_desc desc = None"
  shows "user_run hz now 7 (U_Alloc desc, d) =
    (U_CopyOut (desc\<lparr>td_task_id := next_task_id d + 1\<rparr>), snd (snd (submit_desc now desc d)))"
proof -
  have "\<not> NUM_ACCELERATORS \<le> unat (td_accel_type desc)"
    using check_desc_NoneD(1) [OF assms(3)] by simp
  then show ?thesis
    unfolding submit_desc_ok [OF assms]
    using assms by (simp add: eval_nat_numeral task_alloc_def list_defs upd_task_def fill_task_def
        submitted_def zero_task_def Let_def)
qed

lemma submit_alone_full:
  "free_tasks d = [] \<Longrightarrow> user_run hz now 1 (U_Alloc desc, d) = (U_Ret (neg_errno ENOMEM), d)"
  by (simp add: task_alloc_def list_defs)

text \<open>The two searches stop where \<open>task_lookup\<close> does.\<close>

lemma scan_generic:
  assumes scan: "\<And>i. ioctl_thread hz now (scan i) d =
      (if i < MAX_TASKS then (if t_id (tasks d ! i) = tid then test i else scan (Suc i))
       else U_Ret (neg_errno ENOENT), d)"
    and test: "\<And>i. ioctl_thread hz now (test i) d =
      (if t_state (tasks d ! i) \<noteq> TASK_STATE_FREE then hit i else scan (Suc i), d)"
  shows "\<exists>n \<le> 2 * (MAX_TASKS - i) + 1. user_run hz now n (scan i, d) =
     (case task_lookup (tasks d) tid i of None \<Rightarrow> U_Ret (neg_errno ENOENT) | Some j \<Rightarrow> hit j, d)"
proof (induction k \<equiv> "MAX_TASKS - i" arbitrary: i)
  case 0
  then show ?case by (intro exI [of _ 1]) (simp add: task_lookup.simps [of "tasks d" tid i] scan)
next
  case (Suc k)
  then have i: "i < MAX_TASKS" and k: "k = MAX_TASKS - Suc i" by simp_all
  note lk = task_lookup.simps [of "tasks d" tid i]
  from Suc.hyps(1) [OF k] obtain n where n: "n \<le> 2 * k + 1" "user_run hz now n (scan (Suc i), d) =
      (case task_lookup (tasks d) tid (Suc i) of None \<Rightarrow> U_Ret (neg_errno ENOENT) | Some j \<Rightarrow> hit j, d)"
    using k by auto
  consider (hit) "t_id (tasks d ! i) = tid" "t_state (tasks d ! i) \<noteq> TASK_STATE_FREE"
    | (id) "t_id (tasks d ! i) \<noteq> tid"
    | (free) "t_id (tasks d ! i) = tid" "t_state (tasks d ! i) = TASK_STATE_FREE"
    by auto
  then show ?case
  proof cases
    case hit
    with i show ?thesis
      by (intro exI [of _ 2]) (simp add: lk task_matches_def numeral_2_eq_2 scan test)
  next
    case id
    with i k n show ?thesis by (intro exI [of _ "Suc n"]) (simp add: lk task_matches_def scan)
  next
    case free
    with i k n show ?thesis by (intro exI [of _ "Suc (Suc n)"]) (simp add: lk task_matches_def scan test)
  qed
qed

lemma cancel_alone:
  "\<exists>n \<le> 2 * MAX_TASKS + 4. user_run hz now n (U_CScan tid 0, d) =
     (U_Ret (fst (task_cancel (tasks d) tid)), d\<lparr>tasks := snd (task_cancel (tasks d) tid)\<rparr>)"
proof -
  from scan_generic [of hz now "U_CScan tid" d tid "U_CTest tid" "U_CState tid" 0] obtain n where n: "n \<le> 2 * MAX_TASKS + 1"
    "user_run hz now n (U_CScan tid 0, d) =
      (case task_lookup (tasks d) tid 0 of None \<Rightarrow> U_Ret (neg_errno ENOENT) | Some j \<Rightarrow> U_CState tid j, d)"
    by auto
  show ?thesis
  proof (cases "task_lookup (tasks d) tid 0")
    case None
    with n show ?thesis by (intro exI [of _ n]) (simp add: task_cancel_def)
  next
    case (Some i)
    have "user_run hz now 3 (U_CState tid i, d) =
        (U_Ret (fst (task_cancel (tasks d) tid)), d\<lparr>tasks := snd (task_cancel (tasks d) tid)\<rparr>)"
      using Some by (cases "i < length (tasks d)")
        (simp_all add: eval_nat_numeral task_cancel_def upd_task_def list_update_beyond)
    with n Some show ?thesis by (intro exI [of _ "n + 3"]) (simp add: user_run_add)
  qed
qed

lemma query_alone:
  "\<exists>n \<le> 2 * MAX_TASKS + 6. user_run hz now n (U_QScan tid 0, d) =
     (case task_lookup (tasks d) tid 0 of None \<Rightarrow> U_Ret (neg_errno ENOENT)
        | Some i \<Rightarrow> U_QCopyOut (query_status hz (tasks d ! i)), d)"
proof -
  from scan_generic [of hz now "U_QScan tid" d tid "U_QTest tid" U_QId 0] obtain n where n: "n \<le> 2 * MAX_TASKS + 1"
    "user_run hz now n (U_QScan tid 0, d) =
      (case task_lookup (tasks d) tid 0 of None \<Rightarrow> U_Ret (neg_errno ENOENT) | Some j \<Rightarrow> U_QId j, d)"
    by auto
  show ?thesis
  proof (cases "task_lookup (tasks d) tid 0")
    case None
    with n show ?thesis by (intro exI [of _ n]) simp
  next
    case (Some i)
    have "user_run hz now 5 (U_QId i, d) = (U_QCopyOut (query_status hz (tasks d ! i)), d)"
      by (simp add: eval_nat_numeral query_status_def)
    with n Some show ?thesis by (intro exI [of _ "n + 5"]) (simp add: user_run_add)
  qed
qed

section \<open>States of a running driver\<close>

text \<open>
  The driver after the submission of one task to accelerator 1, with the worker of that
  accelerator at \<open>w\<close>, two threads at \<open>u0\<close> and \<open>u1\<close>, the task as \<open>t\<close> and the accelerator as \<open>ac\<close>.
\<close>

abbreviation demo_tasks :: "cortex_forge_task \<Rightarrow> cortex_forge_task list" where
  "demo_tasks t \<equiv> (replicate MAX_TASKS zero_task)[0 := t]"

definition demo_dev :: "cortex_forge_task \<Rightarrow> cortex_forge_accel \<Rightarrow> cortex_forge_dev" where
  "demo_dev t ac = good_dev\<lparr>tasks := demo_tasks t, free_tasks := [1..<MAX_TASKS], next_task_id := 1,
     accelerators := (accelerators good_dev)[1 := ac]\<rparr>"

definition demo_sys :: "worker_pc \<Rightarrow> user_pc \<Rightarrow> user_pc \<Rightarrow> cortex_forge_task \<Rightarrow> cortex_forge_accel \<Rightarrow> forge_sys" where
  "demo_sys w u0 u1 t ac = (boot (demo_dev t ac) 0)\<lparr>s_wk := (\<lambda>_. W_Loop)(1 := w),
     s_ut := (\<lambda>_. U_Ret 0)(0 := u0, 1 := u1)\<rparr>"

definition demo_accel :: cortex_forge_accel where
  "demo_accel = accelerators good_dev ! 1"

lemma demo_accel_facts [simp]:
  "a_task_queue demo_accel = []" "a_active_tasks demo_accel = []" "a_load_percent demo_accel = 0"
  "a_running demo_accel = 1"
  using good_dev_parts(5) [of 1] init_accels_nth [of 1] by (simp_all add: demo_accel_def NUM_ACCELERATORS_def)

lemma demo_dev_facts [simp]:
  "tasks (demo_dev t ac) = demo_tasks t" "free_tasks (demo_dev t ac) = [1..<MAX_TASKS]"
  "next_task_id (demo_dev t ac) = 1" "length (accelerators (demo_dev t ac)) = NUM_ACCELERATORS"
  "accelerators (demo_dev t ac) ! 1 = ac" "accelerators (demo_dev t ac) ! Suc 0 = ac"
  "(demo_dev t ac)\<lparr>tasks := demo_tasks t'\<rparr> = demo_dev t' ac"
  "(demo_dev t ac)\<lparr>accelerators := (accelerators (demo_dev t0 ac0))[1 := ac']\<rparr> = demo_dev t ac'"
  "(demo_dev t ac)\<lparr>accelerators := (accelerators (demo_dev t0 ac0))[Suc 0 := ac']\<rparr> = demo_dev t ac'"
  by (simp_all add: demo_dev_def good_dev_parts NUM_ACCELERATORS_def)

lemma demo_tasks_facts [simp]:
  "demo_tasks t ! 0 = t" "length (demo_tasks t) = MAX_TASKS"
  "upd_task 0 f (demo_tasks t) = demo_tasks (f t)"
  by (simp_all add: upd_task_def)

lemma demo_worker:
  assumes "worker_run m2j (\<lambda>_. (0, False)) n (w, (demo_tasks t, ac)) = (w', (demo_tasks t', ac'))"
  shows "performs m2j hz (replicate n (A_Worker 1)) (demo_sys w u0 u1 t ac) = Some (demo_sys w' u0 u1 t' ac')"
proof -
  let ?s = "demo_sys w u0 u1 t ac"
  have s: "s_dev ?s = demo_dev t ac" "s_wk ?s 1 = w" "s_now ?s = 0" "s_stop ?s 1 = False"
    by (simp_all add: demo_sys_def boot_def)
  have "performs m2j hz (replicate n (A_Worker 1)) ?s =
      Some (?s\<lparr>s_wk := (s_wk ?s)(1 := w'), s_dev := (s_dev ?s)\<lparr>tasks := demo_tasks t',
        accelerators := (accelerators (s_dev ?s))[1 := ac']\<rparr>\<rparr>)"
    by (rule performs_worker) (simp_all add: s assms del: One_nat_def, simp add: NUM_ACCELERATORS_def)
  also have "\<dots> = Some (demo_sys w' u0 u1 t' ac')"
    by (simp add: demo_sys_def boot_def)
  finally show ?thesis .
qed

lemma demo_user:
  assumes "user_run hz 0 n (u1, demo_dev t ac) = (u1', demo_dev t' ac')"
  shows "performs m2j hz (replicate n (A_User 1)) (demo_sys w u0 u1 t ac) = Some (demo_sys w u0 u1' t' ac')"
  using assms by (simp add: performs_user demo_sys_def boot_def)

lemma demo_sys_facts [simp]:
  "s_dev (demo_sys w u0 u1 t ac) = demo_dev t ac" "s_wk (demo_sys w u0 u1 t ac) 1 = w"
  "s_wk (demo_sys w u0 u1 t ac) (Suc 0) = w" "s_ut (demo_sys w u0 u1 t ac) 1 = u1"
  "s_ut (demo_sys w u0 u1 t ac) (Suc 0) = u1" "s_ut (demo_sys w u0 u1 t ac) 0 = u0"
  by (simp_all add: demo_sys_def boot_def)

lemma submit_run_demo:
  assumes "check_desc desc = None" and "td_accel_type desc = 1"
  shows "performs m2j hz (submit_run desc) (start_sys\<lparr>s_ut := (\<lambda>_. U_Ret 0)(1 := u1)\<rparr>) =
     Some (demo_sys W_Loop (U_CopyOut (desc\<lparr>td_task_id := 1\<rparr>)) u1 (submitted 0 1 desc)
       (demo_accel\<lparr>a_task_queue := [0]\<rparr>))"
proof -
  have "submit_desc 0 desc good_dev =
      (0, 0, demo_dev (submitted 0 1 desc) (demo_accel\<lparr>a_task_queue := [0]\<rparr>))"
    using submit_desc_ok [OF good_dev_parts(2), of desc 0] demo_accel_facts(1)
    by (simp add: good_dev_parts(1,3) assms demo_dev_def upd_accel_def demo_accel_def)
  with submit_alone [OF good_dev_parts(2), of desc hz 0] show ?thesis
    by (auto simp: submit_run_def boot_def call_entry_def assms performs_user
        good_dev_parts(1,3) demo_sys_def intro!: forge_sys.equality)
qed

lemma queued_run:
  assumes "check_desc desc = None" and "td_accel_type desc = 1"
  shows "performs m2j hz (submit_run desc) start_sys =
     Some (demo_sys W_Loop (U_CopyOut (desc\<lparr>td_task_id := 1\<rparr>)) (U_Ret 0) (submitted 0 1 desc)
       (demo_accel\<lparr>a_task_queue := [0]\<rparr>))"
proof -
  have "start_sys\<lparr>s_ut := (\<lambda>_. U_Ret 0)(1 := U_Ret 0)\<rparr> = start_sys"
    by (simp add: boot_def fun_upd_idem)
  with submit_run_demo [OF assms, of m2j hz "U_Ret 0"] show ?thesis by simp
qed

lemma worker_no_timeout:
  assumes "a_task_queue ac = i # q" and "i < length ts" and "a_running ac \<noteq> 0" and "t_timeout_ms (ts ! i) = 0"
  shows "worker_run m2j env 8 (W_Loop, (ts, ac)) =
    (W_Stamp i, (upd_task i (\<lambda>t. t\<lparr>t_state := TASK_STATE_RUNNING\<rparr>) ts,
       ac\<lparr>a_task_queue := q, a_active_tasks := list_add_tail i (a_active_tasks ac),
          a_load_percent := load_up (a_load_percent ac)\<rparr>))"
proof -
  have "worker_run m2j env (3 + (3 + 2)) (W_Loop, (ts, ac)) =
    (W_Stamp i, (upd_task i (\<lambda>t. t\<lparr>t_state := TASK_STATE_RUNNING\<rparr>) ts,
       ac\<lparr>a_task_queue := q, a_active_tasks := list_add_tail i (a_active_tasks ac),
          a_load_percent := load_up (a_load_percent ac)\<rparr>))"
    unfolding worker_run_add worker_reaches_lock [OF assms(3)] worker_takes_head [OF assms(1,2)]
    using assms(2,4) by (simp add: numeral_2_eq_2 nth_upd_task)
  then show ?thesis by simp
qed


text \<open>A thread queued the task; the worker has taken it and put it to sleep.\<close>

definition queued_sys :: forge_sys where
  "queued_sys = demo_sys W_Loop (U_CopyOut (demo_desc\<lparr>td_task_id := 1\<rparr>)) (U_Ret 0) (submitted 0 1 demo_desc)
     (demo_accel\<lparr>a_task_queue := [0]\<rparr>)"

definition active_accel :: cortex_forge_accel where
  "active_accel = demo_accel\<lparr>a_task_queue := [], a_active_tasks := [0], a_load_percent := 10\<rparr>"

definition active_sys :: "user_pc \<Rightarrow> forge_sys" where
  "active_sys u1 = demo_sys (W_Stamp 0) (U_CopyOut (demo_desc\<lparr>td_task_id := 1\<rparr>)) u1
     ((submitted 0 1 demo_desc)\<lparr>t_state := TASK_STATE_RUNNING\<rparr>) active_accel"

lemma running_queued: "running_system m2j hz queued_sys"
  unfolding queued_sys_def by (rule performs_running [OF queued_run [OF demo_desc_facts(1,3)]])

lemma active_run: "performs m2j hz (replicate 8 (A_Worker 1)) queued_sys = Some (active_sys (U_Ret 0))"
  unfolding queued_sys_def active_sys_def
proof (rule demo_worker)
  show "worker_run m2j (\<lambda>_. (0, False)) 8 (W_Loop, (demo_tasks (submitted 0 1 demo_desc), demo_accel\<lparr>a_task_queue := [0]\<rparr>)) =
    (W_Stamp 0, (demo_tasks ((submitted 0 1 demo_desc)\<lparr>t_state := TASK_STATE_RUNNING\<rparr>), active_accel))"
    using worker_no_timeout [of "demo_accel\<lparr>a_task_queue := [0]\<rparr>" 0 "[]" "demo_tasks (submitted 0 1 demo_desc)" m2j "\<lambda>_. (0, False)"]
    by (simp add: demo_desc_facts list_add_tail_def active_accel_def)
qed

lemma running_active: "running_system m2j hz (active_sys (U_Ret 0))"
  by (rule reach_steps [OF performs_steps [OF active_run] running_queued])

section \<open>Properties of every interleaving\<close>

abbreviation sys_located :: "forge_sys \<Rightarrow> (nat \<Rightarrow> place) \<Rightarrow> bool" where
  "sys_located s \<equiv> located (free_tasks (s_dev s)) (queues (accelerators (s_dev s)))
     (\<lambda>a. working (s_wk s a)) (\<lambda>u. holder (s_ut s u))"

lemma sim_rel_located: "sim_rel s loc \<Longrightarrow> sys_located s loc"
  by (simp add: sim_rel_def sim_parts_def)

text \<open>C2. The running driver, seen through where its slots are, is the life-cycle machine: in every
  reachable state each slot is at exactly one place (the free list, one thread's hands, one work
  queue, one worker, or retired) and no list holds it twice; and however the threads are
  interleaved from there on, slots only move from free to held, to the queue of an accelerator,
  to its worker, to retired.\<close>

theorem slots_follow_life_cycle:
  assumes "running_system m2j hz s"
  shows "\<exists>loc. reach life_init life_step loc \<and> sys_located s loc \<and>
    (\<forall>s'. steps (sys_step m2j hz) s s' \<longrightarrow> (\<exists>loc'. steps life_step loc loc' \<and> sys_located s' loc'))"
proof -
  obtain loc where "reach life_init life_step loc" "sim_rel s loc"
    using running_sim [OF assms] .
  then show ?thesis using life.sim_steps sim_rel_located by metis
qed

theorem slots_follow_life_cycle_witness:
  "\<exists>loc. reach life_init life_step loc \<and> sys_located queued_sys loc"
  using slots_follow_life_cycle [OF running_queued [of "\<lambda>_. 0" 250]] by blast

text \<open>C19. A slot that has left the free list never comes back to it, in any interleaving: the 256
  slots serve 256 submissions in the lifetime of the device.\<close>

theorem slots_never_freed:
  assumes "running_system m2j hz s" and "steps (sys_step m2j hz) s s'"
  shows "set (free_tasks (s_dev s')) \<subseteq> set (free_tasks (s_dev s))"
proof
  fix i assume i: "i \<in> set (free_tasks (s_dev s'))"
  obtain loc where loc: "sim_rel s loc" using running_sim [OF assms(1)] .
  from life.sim_steps [OF assms(2) loc] obtain loc' where
    l: "steps life_step loc loc'" "sim_rel s' loc'" by blast
  have "i < MAX_TASKS" "loc' i = P_Free"
    using located_at [OF sim_rel_located [OF l(2)], of i P_Free] i by simp_all
  moreover have "loc i = P_Free"
    using life_steps_rank [OF l(1), of i] \<open>loc' i = P_Free\<close> by (cases "loc i") simp_all
  ultimately show "i \<in> set (free_tasks (s_dev s))"
    using located_iff [OF sim_rel_located [OF loc], of i P_Free] by simp
qed

theorem slots_never_freed_witness:
  "set (free_tasks (s_dev (active_sys (U_Ret 0)))) \<subseteq> set (free_tasks (s_dev queued_sys))"
  by (rule slots_never_freed [OF running_queued [of "\<lambda>_. 0" 250] performs_steps [OF active_run]])

text \<open>C6. The list operations are used within their contract: when a thread is about to queue a slot
  it is on no list; when a worker takes the head of its queue that slot is not on the list of
  active tasks; when it unlinks a slot that slot is the one element of its list of active tasks;
  and the head a submission takes from the free list is on no queue and in nobody's hands.\<close>

theorem list_operations_safe:
  assumes "running_system m2j hz s" and "a < NUM_ACCELERATORS" and "ac = accelerators (s_dev s) ! a"
  shows "(\<forall>u i desc. s_ut s u = U_Enqueue i desc \<longrightarrow>
      i \<notin> set (free_tasks (s_dev s)) \<and> i \<notin> set (a_task_queue ac) \<and> i \<notin> set (a_active_tasks ac)) \<and>
    (\<forall>i rest. a_task_queue ac = i # rest \<longrightarrow> i \<notin> set rest \<and> i \<notin> set (a_active_tasks ac)) \<and>
    (\<forall>i. s_wk s a = W_Unlink i \<longrightarrow> a_active_tasks ac = [i]) \<and>
    (\<forall>i fl. free_tasks (s_dev s) = i # fl \<longrightarrow> i \<notin> set fl \<and> i \<notin> set (a_task_queue ac) \<and>
      i \<notin> set (a_active_tasks ac) \<and> (\<forall>u. holder (s_ut s u) \<noteq> Some i))"
proof -
  obtain loc where r: "sim_rel s loc" using running_sim [OF assms(1)] .
  note R = sim_partsD [OF r [unfolded sim_rel_def]]
  note at = located_at(2) [OF R(3)]
  have act: "a_active_tasks ac = (case working (s_wk s a) of None \<Rightarrow> [] | Some i \<Rightarrow> [i])"
    using R(6) assms(2,3) by (simp add: accels_ok_def)
  then have active: "loc i = P_Active a" if "i \<in> set (a_active_tasks ac)" for i
    using at [of i "P_Active a"] that assms(2) by (auto split: option.splits)
  have queue: "loc i = P_Queued a" if "i \<in> set (a_task_queue ac)" for i
    using at [of i "P_Queued a"] that assms(2,3) by simp
  have free: "loc i = P_Free" if "i \<in> set (free_tasks (s_dev s))" for i
    using at [of i P_Free] that by simp
  have held: "loc i = P_Held u" if "holder (s_ut s u) = Some i" for i u
    using at [of i "P_Held u"] that by simp
  have dist: "distinct (free_tasks (s_dev s))" "distinct (a_task_queue ac)"
    using R(3) assms(2,3) by (simp_all add: located_def)
  have "i \<notin> set (free_tasks (s_dev s)) \<and> i \<notin> set (a_task_queue ac) \<and> i \<notin> set (a_active_tasks ac)"
    if "s_ut s u = U_Enqueue i desc" for u i desc
    using held [of u i] that free [of i] queue [of i] active [of i] by auto
  moreover have "i \<notin> set rest \<and> i \<notin> set (a_active_tasks ac)" if "a_task_queue ac = i # rest" for i rest
    using that dist(2) queue [of i] active [of i] by auto
  moreover have "a_active_tasks ac = [i]" if "s_wk s a = W_Unlink i" for i
    using that act by simp
  moreover have "i \<notin> set fl \<and> i \<notin> set (a_task_queue ac) \<and> i \<notin> set (a_active_tasks ac) \<and>
      (\<forall>u. holder (s_ut s u) \<noteq> Some i)" if "free_tasks (s_dev s) = i # fl" for i fl
    using that dist(1) free [of i] queue [of i] active [of i] held [of _ i] by auto
  ultimately show ?thesis by blast
qed

theorem list_operations_safe_witness:
  "\<exists>ac. ac = accelerators (s_dev queued_sys) ! 1 \<and> a_task_queue ac = [0] \<and> 0 \<notin> set (a_active_tasks ac)"
proof -
  let ?ac = "accelerators (s_dev queued_sys) ! 1"
  have "(1 :: nat) < NUM_ACCELERATORS" by (simp add: NUM_ACCELERATORS_def)
  note p = list_operations_safe [OF running_queued [of "\<lambda>_. 0" 250] this refl]
  have "a_task_queue ?ac = [0]" by (simp add: queued_sys_def demo_sys_def boot_def)
  with p show ?thesis by blast
qed

lemma user_states_cases:
  "user_states pc = {TASK_STATE_FREE} \<or> user_states pc = {TASK_STATE_PENDING, TASK_STATE_CANCELLED}"
  by (cases pc) simp_all

lemma worker_states_cases:
  "worker_states pc \<subseteq> {TASK_STATE_PENDING, TASK_STATE_RUNNING, TASK_STATE_COMPLETE, TASK_STATE_CANCELLED}"
  by (cases pc) simp_all

text \<open>C7. The states a task can be in at each point of its life, under every interleaving. A slot is
  in state \<open>FREE\<close> exactly when it is on the free list or in the hands of a system call that has not
  yet set it to \<open>PENDING\<close>; from then until its worker starts on it, it is pending or cancelled; while
  the worker executes it, running or cancelled; once the worker has set it, complete or
  cancelled; and a task that no thread or list has any more is complete or cancelled, and its
  completion has been signalled. A queued or active task is with the accelerator it names. No task
  is ever \<open>FAILED\<close>.\<close>

theorem task_state_discipline:
  assumes "running_system m2j hz s" and "i < MAX_TASKS" and "t = tasks (s_dev s) ! i"
  shows "t_state t \<noteq> TASK_STATE_FAILED \<and>
    (t_state t = TASK_STATE_FREE \<longleftrightarrow> i \<in> set (free_tasks (s_dev s)) \<or>
       (\<exists>u desc. s_ut s u \<in> {U_Fill i desc, U_Check i desc, U_Pending i desc})) \<and>
    (\<forall>u desc. s_ut s u \<in> {U_Stamp i desc, U_Enqueue i desc} \<longrightarrow> t_state t \<in> {TASK_STATE_PENDING, TASK_STATE_CANCELLED}) \<and>
    (\<forall>a < NUM_ACCELERATORS. i \<in> set (a_task_queue (accelerators (s_dev s) ! a)) \<longrightarrow>
       unat (t_accel_type t) = a \<and> t_state t \<in> {TASK_STATE_PENDING, TASK_STATE_CANCELLED}) \<and>
    (\<forall>a < NUM_ACCELERATORS. working (s_wk s a) = Some i \<longrightarrow> unat (t_accel_type t) = a \<and>
       (s_wk s a = W_SetRunning i \<longrightarrow> t_state t \<in> {TASK_STATE_PENDING, TASK_STATE_CANCELLED}) \<and>
       (s_wk s a \<in> {W_LoadUp i, W_Start i, W_Sleep10 i, W_Stamp i, W_SetComplete i} \<or>
        (\<exists>timeout start. s_wk s a \<in> {W_Spin i timeout start, W_Msleep i timeout start}) \<longrightarrow>
          t_state t \<in> {TASK_STATE_RUNNING, TASK_STATE_CANCELLED}) \<and>
       (s_wk s a \<in> {W_ClearError i, W_LoadDown i, W_CompleteAll i, W_Unlink i} \<longrightarrow>
          t_state t \<in> {TASK_STATE_COMPLETE, TASK_STATE_CANCELLED})) \<and>
    (i \<notin> set (free_tasks (s_dev s)) \<and> (\<forall>u. holder (s_ut s u) \<noteq> Some i) \<and>
     (\<forall>a < NUM_ACCELERATORS. i \<notin> set (a_task_queue (accelerators (s_dev s) ! a)) \<and> working (s_wk s a) \<noteq> Some i) \<longrightarrow>
       t_state t \<in> {TASK_STATE_COMPLETE, TASK_STATE_CANCELLED} \<and> t_done t)"
proof -
  obtain loc where r: "sim_rel s loc" using running_sim [OF assms(1)] .
  note R = sim_partsD [OF r [unfolded sim_rel_def]]
  note iff = located_iff [OF R(3) assms(2)]
  note ok = slots_okD [OF R(5) assms(2), folded assms(3)]
  have f: "i \<in> set (free_tasks (s_dev s)) \<longleftrightarrow> loc i = P_Free" using iff [of P_Free] by simp
  have h: "holder (s_ut s u) = Some i \<longleftrightarrow> loc i = P_Held u" for u using iff [of "P_Held u"] by auto
  have q: "a < NUM_ACCELERATORS \<Longrightarrow> i \<in> set (a_task_queue (accelerators (s_dev s) ! a)) \<longleftrightarrow> loc i = P_Queued a" for a
    using iff [of "P_Queued a"] by simp
  have w: "a < NUM_ACCELERATORS \<Longrightarrow> working (s_wk s a) = Some i \<longleftrightarrow> loc i = P_Active a" for a
    using iff [of "P_Active a"] by auto
  have N: "loc i = P_Queued a \<or> loc i = P_Active a \<Longrightarrow> a < NUM_ACCELERATORS" for a
    using iff [of "P_Queued a"] iff [of "P_Active a"] by (auto split: if_splits)
  have early: "(\<exists>desc. s_ut s u \<in> {U_Fill i desc, U_Check i desc, U_Pending i desc}) \<longleftrightarrow>
      loc i = P_Held u \<and> TASK_STATE_FREE \<in> user_states (s_ut s u)" for u
    using h [of u] R(7) [of u] by (cases "s_ut s u") auto
  have late: "loc i = P_Held u \<and> user_states (s_ut s u) = {TASK_STATE_PENDING, TASK_STATE_CANCELLED}"
    if "s_ut s u \<in> {U_Stamp i desc, U_Enqueue i desc}" for u desc
    using h [of u] that by auto
  have st: "TASK_STATE_FAILED \<notin> place_states (s_wk s) (s_ut s) (loc i)"
    by (cases "loc i"; simp) (use user_states_cases worker_states_cases in fastforce)+
  have free: "t_state t = TASK_STATE_FREE \<longleftrightarrow> loc i = P_Free \<or> (\<exists>u. loc i = P_Held u \<and> TASK_STATE_FREE \<in> user_states (s_ut s u))"
    using ok(1) by (cases "loc i") (use user_states_cases worker_states_cases in fastforce)+
  show ?thesis
  proof (intro conjI allI impI)
    show "t_state t \<noteq> TASK_STATE_FAILED" using ok(1) st by metis
    show "t_state t = TASK_STATE_FREE \<longleftrightarrow> i \<in> set (free_tasks (s_dev s)) \<or>
       (\<exists>u desc. s_ut s u \<in> {U_Fill i desc, U_Check i desc, U_Pending i desc})"
      unfolding free f using early by blast
  next
    fix u desc assume "s_ut s u \<in> {U_Stamp i desc, U_Enqueue i desc}"
    then show "t_state t \<in> {TASK_STATE_PENDING, TASK_STATE_CANCELLED}" using ok(1) late by simp
  next
    fix a assume "a < NUM_ACCELERATORS" "i \<in> set (a_task_queue (accelerators (s_dev s) ! a))"
    then have "loc i = P_Queued a" using q by simp
    with ok(1,2) show "unat (t_accel_type t) = a" "t_state t \<in> {TASK_STATE_PENDING, TASK_STATE_CANCELLED}" by simp_all
  next
    fix a assume "a < NUM_ACCELERATORS" "working (s_wk s a) = Some i"
    then have "loc i = P_Active a" using w by simp
    with ok(1,2) have ac: "unat (t_accel_type t) = a" "t_state t \<in> worker_states (s_wk s a)" by simp_all
    show "unat (t_accel_type t) = a" by (rule ac(1))
    show "t_state t \<in> {TASK_STATE_PENDING, TASK_STATE_CANCELLED}" if "s_wk s a = W_SetRunning i" using ac(2) that by simp
    show "t_state t \<in> {TASK_STATE_RUNNING, TASK_STATE_CANCELLED}"
      if "s_wk s a \<in> {W_LoadUp i, W_Start i, W_Sleep10 i, W_Stamp i, W_SetComplete i} \<or>
        (\<exists>timeout start. s_wk s a \<in> {W_Spin i timeout start, W_Msleep i timeout start})"
      using ac(2) that by auto
    show "t_state t \<in> {TASK_STATE_COMPLETE, TASK_STATE_CANCELLED}"
      if "s_wk s a \<in> {W_ClearError i, W_LoadDown i, W_CompleteAll i, W_Unlink i}"
      using ac(2) that by auto
  next
    assume gone: "i \<notin> set (free_tasks (s_dev s)) \<and> (\<forall>u. holder (s_ut s u) \<noteq> Some i) \<and>
      (\<forall>a < NUM_ACCELERATORS. i \<notin> set (a_task_queue (accelerators (s_dev s) ! a)) \<and> working (s_wk s a) \<noteq> Some i)"
    then have "loc i = P_Retired" using N by (cases "loc i") (auto simp: f h q w)
    with ok(1,3) show "t_state t \<in> {TASK_STATE_COMPLETE, TASK_STATE_CANCELLED}" "t_done t" by simp_all
  qed
qed

theorem task_state_discipline_witness:
  "t_state (tasks (s_dev queued_sys) ! 0) \<in> {TASK_STATE_PENDING, TASK_STATE_CANCELLED}"
proof -
  have "(0 :: nat) < MAX_TASKS" and a: "(1 :: nat) < NUM_ACCELERATORS" by (simp_all add: NUM_ACCELERATORS_def)
  note p = task_state_discipline [OF running_queued [of "\<lambda>_. 0" 250] this(1) refl]
  have "0 \<in> set (a_task_queue (accelerators (s_dev queued_sys) ! 1))"
    by (simp add: queued_sys_def demo_sys_def boot_def)
  with p a show ?thesis by blast
qed

text \<open>The load of an accelerator is 0 or 10 percent at every moment, 10 only while its worker has
  a task in hand: with one worker per accelerator the documented range up to 100 is never used,
  and the subtraction never saturates.\<close>

lemma load_is_zero_or_ten:
  assumes "running_system m2j hz s" and "a < NUM_ACCELERATORS"
  shows "a_load_percent (accelerators (s_dev s) ! a) = worker_load (s_wk s a) \<and>
    a_load_percent (accelerators (s_dev s) ! a) \<in> {0, 10} \<and>
    (a_load_percent (accelerators (s_dev s) ! a) = 10 \<longrightarrow>
       (\<exists>i < MAX_TASKS. a_active_tasks (accelerators (s_dev s) ! a) = [i]))"
proof -
  obtain loc where r: "sim_rel s loc" using running_sim [OF assms(1)] .
  note R = sim_partsD [OF r [unfolded sim_rel_def]]
  have acc: "a_load_percent (accelerators (s_dev s) ! a) = worker_load (s_wk s a)"
    "a_active_tasks (accelerators (s_dev s) ! a) = (case working (s_wk s a) of None \<Rightarrow> [] | Some i \<Rightarrow> [i])"
    using R(6) assms(2) by (simp_all add: accels_ok_def)
  have "i < MAX_TASKS" if "working (s_wk s a) = Some i" for i
    using located_at(1) [OF R(3), of i "P_Active a"] that assms(2) by simp
  moreover have "worker_load pc \<in> {0, 10}" for pc by (cases pc) simp_all
  moreover have "\<exists>i. working (s_wk s a) = Some i" if "worker_load (s_wk s a) = 10"
    using that working_None_load [of "s_wk s a"] by (cases "working (s_wk s a)") simp_all
  ultimately show ?thesis unfolding acc by fastforce
qed

text \<open>C8. Identifiers: in every interleaving the tasks in use carry distinct identifiers between 1 and
  the counter, and the counter and the free list account for all 256 slots, so that the counter
  never wraps.\<close>

theorem identifiers_unique:
  assumes "running_system m2j hz s"
  shows "unat (next_task_id (s_dev s)) + length (free_tasks (s_dev s)) = MAX_TASKS \<and>
    (\<forall>i < MAX_TASKS. i \<notin> set (free_tasks (s_dev s)) \<longrightarrow>
       1 \<le> unat (t_id (tasks (s_dev s) ! i)) \<and> unat (t_id (tasks (s_dev s) ! i)) \<le> unat (next_task_id (s_dev s)) \<and>
       (\<forall>j < MAX_TASKS. t_id (tasks (s_dev s) ! j) = t_id (tasks (s_dev s) ! i) \<longrightarrow> j = i))"
proof -
  obtain loc where r: "sim_rel s loc" using running_sim [OF assms(1)] .
  note R = sim_partsD [OF r [unfolded sim_rel_def]]
  have "i \<in> set (free_tasks (s_dev s)) \<longleftrightarrow> loc i = P_Free" if "i < MAX_TASKS" for i
    using located_iff [OF R(3) that, of P_Free] by simp
  with R(4) show ?thesis unfolding pool_ok_def by metis
qed

theorem identifiers_unique_witness:
  "unat (next_task_id (s_dev queued_sys)) + length (free_tasks (s_dev queued_sys)) = 256"
  using identifiers_unique [OF running_queued [of "\<lambda>_. 0" 250]] by (simp add: MAX_TASKS_def)

text \<open>C27. A cancellation that names an identifier other than 0 writes to the task with that identifier
  and to no other, whatever happens between the search and the three writes.\<close>

theorem cancel_writes_its_task:
  assumes "running_system m2j hz s" and "s_ut s u \<in> {U_CState tid i, U_CError tid i, U_CDone tid i}" and "tid \<noteq> 0"
  shows "i < MAX_TASKS \<and> t_id (tasks (s_dev s) ! i) = tid \<and> t_state (tasks (s_dev s) ! i) \<noteq> TASK_STATE_FREE \<and>
    (\<forall>j < MAX_TASKS. t_id (tasks (s_dev s) ! j) = tid \<longrightarrow> j = i)"
proof -
  obtain loc where r: "sim_rel s loc" using running_sim [OF assms(1)] .
  note R = sim_partsD [OF r [unfolded sim_rel_def]]
  have i: "i < MAX_TASKS" "t_id (tasks (s_dev s) ! i) = tid" "t_state (tasks (s_dev s) ! i) \<noteq> TASK_STATE_FREE"
    using R(7) [of u] assms(2,3) by auto
  moreover have "loc i \<noteq> P_Free" using slots_okD(1) [OF R(5) i(1)] i(3) by auto
  ultimately show ?thesis using R(4) unfolding pool_ok_def by blast
qed

section \<open>Cancellation against the worker\<close>

lemma demo_call:
  "call_entry pc \<Longrightarrow> performs m2j hz [A_Call 1 pc] (demo_sys w u0 (U_Ret r) t ac) = Some (demo_sys w u0 pc t ac)"
  by (simp add: demo_sys_def boot_def)

text \<open>Runs composed of runs.\<close>

lemma steps_performs:
  "running_system m2j hz s \<Longrightarrow> performs m2j hz xs s = Some s' \<Longrightarrow> running_system m2j hz s'"
  by (rule reach_steps [OF performs_steps])

lemma demo_cancel_search:
  assumes "t_id t = tid" and "t_state t \<noteq> TASK_STATE_FREE"
  shows "performs m2j hz (replicate 2 (A_User 1)) (demo_sys w u0 (U_CScan tid 0) t ac) =
    Some (demo_sys w u0 (U_CState tid 0) t ac)"
  by (rule demo_user) (use assms in \<open>simp add: numeral_2_eq_2\<close>)

lemma running_cancelling: "running_system m2j hz (active_sys (U_CState 1 0))"
proof -
  let ?t = "(submitted 0 1 demo_desc)\<lparr>t_state := TASK_STATE_RUNNING\<rparr>"
  have "running_system m2j hz (active_sys (U_CScan 1 0))"
    unfolding active_sys_def
    by (rule steps_performs [OF running_active [unfolded active_sys_def] demo_call]) (simp add: call_entry_def)
  from steps_performs [OF this [unfolded active_sys_def] demo_cancel_search] show ?thesis
    by (simp add: active_sys_def)
qed

theorem cancel_writes_its_task_witness:
  "t_id (tasks (s_dev (active_sys (U_CState 1 0))) ! 0) = 1 \<and>
   t_id (tasks (s_dev (active_sys (U_CState 1 0))) ! 5) \<noteq> 1"
proof -
  have "s_ut (active_sys (U_CState 1 0)) 1 \<in> {U_CState 1 0, U_CError 1 0, U_CDone 1 0}"
    by (simp add: active_sys_def demo_sys_def)
  note w = cancel_writes_its_task [OF running_cancelling [of "\<lambda>_. 0" 250] this one_neq_zero]
  have "(5::nat) < MAX_TASKS" "(5::nat) \<noteq> 0" by (simp_all add: MAX_TASKS_def)
  with w [THEN conjunct2, THEN conjunct2, THEN conjunct2, THEN spec, of 5] w [THEN conjunct2, THEN conjunct1]
  show ?thesis by (simp only: simp_thms)
qed

text \<open>C29. Cancelling a task while its worker finishes it can leave it in a mixed state: there is an
  interleaving after which the call has returned 0, the worker has retired the task, and the task
  is \<open>COMPLETE\<close> with error code \<open>-ECANCELED\<close>.\<close>

theorem cancel_race_mixed_state:
  "\<exists>s. running_system m2j hz s \<and> s_wk s 1 = W_Loop \<and> s_ut s 1 = U_Ret 0 \<and>
     a_active_tasks (accelerators (s_dev s) ! 1) = [] \<and>
     t_id (tasks (s_dev s) ! 0) = 1 \<and> t_state (tasks (s_dev s) ! 0) = TASK_STATE_COMPLETE \<and>
     t_error_code (tasks (s_dev s) ! 0) = word_of_int (neg_errno ECANCELED)"
proof -
  let ?u0 = "U_CopyOut (demo_desc\<lparr>td_task_id := 1\<rparr>)"
  let ?t0 = "(submitted 0 1 demo_desc)\<lparr>t_state := TASK_STATE_RUNNING\<rparr>"
  let ?t1 = "?t0\<lparr>t_state := TASK_STATE_CANCELLED\<rparr>"
  let ?t2 = "?t1\<lparr>t_complete_jiffies := 0, t_state := TASK_STATE_COMPLETE, t_error_code := 0\<rparr>"
  let ?t3 = "?t2\<lparr>t_error_code := word_of_int (neg_errno ECANCELED), t_done := True\<rparr>"
  let ?ac = "active_accel\<lparr>a_load_percent := load_down (a_load_percent active_accel), a_active_tasks := []\<rparr>"
  note r0 = running_cancelling [of m2j hz, unfolded active_sys_def]
  have r1: "running_system m2j hz (demo_sys (W_Stamp 0) ?u0 (U_CError 1 0) ?t1 active_accel)"
    by (rule steps_performs [OF r0 demo_user [of hz 1]]) simp
  have r2: "running_system m2j hz (demo_sys (W_LoadDown 0) ?u0 (U_CError 1 0) ?t2 active_accel)"
    by (rule steps_performs [OF r1 demo_worker [of m2j 3]]) (simp add: numeral_3_eq_3)
  have r3: "running_system m2j hz (demo_sys (W_LoadDown 0) ?u0 (U_Ret 0) ?t3 active_accel)"
    by (rule steps_performs [OF r2 demo_user [of hz 2]]) (simp add: numeral_2_eq_2)
  have r4: "running_system m2j hz (demo_sys W_Loop ?u0 (U_Ret 0) (?t3\<lparr>t_done := True\<rparr>) ?ac)"
    by (rule steps_performs [OF r3 demo_worker [of m2j 3]]) (simp add: numeral_3_eq_3 active_accel_def list_del_def)
  show ?thesis
    by (rule exI [of _ "demo_sys W_Loop ?u0 (U_Ret 0) (?t3\<lparr>t_done := True\<rparr>) ?ac"], rule conjI [OF r4])
      (simp add: active_accel_def)
qed

text \<open>C28. A cancellation that succeeds is lost when the task is still queued: it stays on the queue,
  the worker runs it, and in the end it is \<open>COMPLETE\<close> with error code 0, as if it had not been
  cancelled.\<close>

theorem cancel_of_queued_task_lost:
  "\<exists>s s'. running_system m2j hz s \<and> s_ut s 1 = U_Ret 0 \<and> t_state (tasks (s_dev s) ! 0) = TASK_STATE_CANCELLED \<and>
     a_task_queue (accelerators (s_dev s) ! 1) = [0] \<and>
     steps (sys_step m2j hz) s s' \<and> s_wk s' 1 = W_Loop \<and> t_id (tasks (s_dev s') ! 0) = t_id (tasks (s_dev s) ! 0) \<and>
     t_state (tasks (s_dev s') ! 0) = TASK_STATE_COMPLETE \<and> t_error_code (tasks (s_dev s') ! 0) = 0"
proof -
  let ?u0 = "U_CopyOut (demo_desc\<lparr>td_task_id := 1\<rparr>)" and ?ac = "demo_accel\<lparr>a_task_queue := [0]\<rparr>"
  let ?t0 = "submitted 0 1 demo_desc"
  let ?t1 = "?t0\<lparr>t_state := TASK_STATE_CANCELLED, t_error_code := word_of_int (neg_errno ECANCELED), t_done := True\<rparr>"
  have r1: "running_system m2j hz (demo_sys W_Loop ?u0 (U_CScan 1 0) ?t0 ?ac)"
    by (rule steps_performs [OF running_queued [unfolded queued_sys_def] demo_call]) (simp add: call_entry_def)
  have r2: "running_system m2j hz (demo_sys W_Loop ?u0 (U_CState 1 0) ?t0 ?ac)"
    by (rule steps_performs [OF r1 demo_cancel_search]) simp_all
  have r3: "running_system m2j hz (demo_sys W_Loop ?u0 (U_Ret 0) ?t1 ?ac)"
    by (rule steps_performs [OF r2 demo_user [of hz 3]]) (simp add: numeral_3_eq_3)
  let ?t2 = "?t1\<lparr>t_state := TASK_STATE_RUNNING\<rparr>" and ?ac2 = "active_accel"
  have p1: "performs m2j hz (replicate 8 (A_Worker 1)) (demo_sys W_Loop ?u0 (U_Ret 0) ?t1 ?ac) =
      Some (demo_sys (W_Stamp 0) ?u0 (U_Ret 0) ?t2 active_accel)"
    using worker_no_timeout [of ?ac 0 "[]" "demo_tasks ?t1" m2j "\<lambda>_. (0, False)"]
    by (intro demo_worker) (simp add: demo_desc_facts list_add_tail_def active_accel_def)
  let ?t3 = "?t2\<lparr>t_complete_jiffies := 0, t_state := TASK_STATE_COMPLETE, t_error_code := 0, t_done := True\<rparr>"
  let ?ac3 = "active_accel\<lparr>a_load_percent := load_down (a_load_percent active_accel),
      a_active_tasks := list_del 0 (a_active_tasks active_accel)\<rparr>"
  have p2: "performs m2j hz (replicate 6 (A_Worker 1)) (demo_sys (W_Stamp 0) ?u0 (U_Ret 0) ?t2 active_accel) =
      Some (demo_sys W_Loop ?u0 (U_Ret 0) ?t3 ?ac3)"
    using worker_finishes [of 0 "demo_tasks ?t2" m2j "\<lambda>_. (0, False)" active_accel]
    by (intro demo_worker) simp
  have "steps (sys_step m2j hz) (demo_sys W_Loop ?u0 (U_Ret 0) ?t1 ?ac) (demo_sys W_Loop ?u0 (U_Ret 0) ?t3 ?ac3)"
    by (rule steps_trans [OF performs_steps [OF p2] performs_steps [OF p1]])
  then show ?thesis
    by (intro exI [of _ "demo_sys W_Loop ?u0 (U_Ret 0) ?t1 ?ac"] exI [of _ "demo_sys W_Loop ?u0 (U_Ret 0) ?t3 ?ac3"]
        conjI [OF r3]) simp
qed

text \<open>C30. Cancelling identifier 0, which no task ever has, can cancel a task all the same: unused
  slots have identifier 0, and a slot claimed between the two reads of the search passes the
  second one.\<close>

theorem cancel_zero_hits_a_task:
  "\<exists>s. running_system m2j hz s \<and> s_ut s 1 = U_CError 0 0 \<and> t_id (tasks (s_dev s) ! 0) = 1 \<and>
     t_state (tasks (s_dev s) ! 0) = TASK_STATE_CANCELLED"
proof -
  let ?u0 = "U_CopyOut (demo_desc\<lparr>td_task_id := 1\<rparr>)" and ?ac = "demo_accel\<lparr>a_task_queue := [0]\<rparr>"
  let ?t0 = "submitted 0 1 demo_desc"
  have "performs m2j hz [A_Call 1 (U_CScan 0 0), A_User 1] start_sys =
      Some (start_sys\<lparr>s_ut := (\<lambda>_. U_Ret 0)(1 := U_CTest 0 0)\<rparr>)"
    by (auto simp: boot_def call_entry_def user_move_def good_dev_parts(1) zero_task_def intro!: forge_sys.equality)
  from performs_running [OF this]
  have "running_system m2j hz (demo_sys W_Loop ?u0 (U_CTest 0 0) ?t0 ?ac)"
    by (rule steps_performs [OF _ submit_run_demo [OF demo_desc_facts(1,3)]])
  then have r: "running_system m2j hz (demo_sys W_Loop ?u0 (U_CError 0 0) (?t0\<lparr>t_state := TASK_STATE_CANCELLED\<rparr>) ?ac)"
    by (rule steps_performs [OF _ demo_user [of hz 2]]) (simp add: numeral_2_eq_2)
  show ?thesis
    by (rule exI [of _ "demo_sys W_Loop ?u0 (U_CError 0 0) (?t0\<lparr>t_state := TASK_STATE_CANCELLED\<rparr>) ?ac"], rule conjI [OF r]) simp
qed

section \<open>Remove against the workers\<close>

text \<open>C34. A worker may have returned before \<open>kthread_stop\<close> is called on it: it leaves its loop as soon
  as it reads \<open>running\<close> as 0, and does not wait for \<open>kthread_should_stop\<close>.\<close>

theorem worker_exits_before_kthread_stop:
  "\<exists>s. running_system m2j hz s \<and> s_sp s = S_Stop 0 \<and> s_wk s 0 = W_Exit \<and> \<not> s_stop s 0"
proof -
  have "accelerators good_dev ! 0 = (init_accels ! 0)\<lparr>a_worker_thread := PTR 10\<rparr>"
    using good_dev_parts(5) [of 0] by simp
  then have "\<exists>s. performs m2j hz [A_Remove, A_Stop, A_Stop, A_Worker 0] start_sys = Some s \<and>
      s_sp s = S_Stop 0 \<and> s_wk s 0 = W_Exit \<and> \<not> s_stop s 0"
    by (simp add: boot_def worker_move_def good_dev_parts(4) nth_upd_accel)
  then show ?thesis using performs_running by blast
qed

section \<open>Order of service\<close>

lemma worker_queue_step:
  "accel_worker_thread m2j now stop pc (ts, ac) = (pc', (ts', ac')) \<Longrightarrow>
   a_task_queue ac' = a_task_queue ac \<or> (\<exists>i. a_task_queue ac = i # a_task_queue ac')"
  by (cases pc) (auto simp: list_defs split: if_splits list.splits)

lemma ioctl_queue_step:
  assumes "ioctl_thread hz now pc d = (pc', d')"
  shows "accelerators d' = accelerators d \<or>
    (\<exists>b i. holder pc = Some i \<and> accelerators d' = upd_accel b (\<lambda>ac. ac\<lparr>a_task_queue := a_task_queue ac @ [i]\<rparr>) (accelerators d))"
proof (cases "\<exists>i desc. pc = U_Enqueue i desc")
  case True
  then obtain i desc where "pc = U_Enqueue i desc" by blast
  with assms show ?thesis
    by (intro disjI2 exI [of _ "unat (td_accel_type desc)"] exI [of _ i]) (auto simp: list_add_tail_def)
next
  case False
  with assms have "accelerators d' = accelerators d"
    by (cases pc) (auto simp: Let_def split: option.splits prod.splits)
  then show ?thesis by blast
qed

lemma nth_update_at: "j < length xs \<Longrightarrow> xs[i := x] ! j = (if i = j then x else xs ! j)"
  by auto

lemma queue_step:
  assumes "sys_step m2j hz s s'" and "a < length (accelerators (s_dev s))"
  shows "length (accelerators (s_dev s')) = length (accelerators (s_dev s)) \<and>
    (queues (accelerators (s_dev s')) a = queues (accelerators (s_dev s)) a \<or>
     (\<exists>i u. holder (s_ut s u) = Some i \<and> queues (accelerators (s_dev s')) a = queues (accelerators (s_dev s)) a @ [i]) \<or>
     (\<exists>i. queues (accelerators (s_dev s)) a = i # queues (accelerators (s_dev s')) a))"
  using assms
proof (induction rule: sys_step.induct)
  case (step_worker b s)
  obtain pc ts ac where w: "accel_worker_thread m2j (s_now s) (s_stop s b) (s_wk s b)
      (tasks (s_dev s), accelerators (s_dev s) ! b) = (pc, (ts, ac))"
    by (metis prod.collapse)
  have m: "accelerators (s_dev (worker_move m2j b s)) = (accelerators (s_dev s))[b := ac]"
    by (simp add: worker_move_def w)
  from worker_queue_step [OF w] step_worker show ?case
    unfolding m by (cases "b = a") auto
next
  case (step_user s u)
  obtain pc d where w: "ioctl_thread hz (s_now s) (s_ut s u) (s_dev s) = (pc, d)" by fastforce
  from ioctl_queue_step [OF this] step_user show ?case
    by (auto simp: user_move_def w upd_accel_def nth_update_at split: if_splits)
next
  case (step_stop s pc st as)
  from stop_thread_accel [OF step_stop(1)] step_stop(2) show ?case
    by (auto simp: upd_accel_def nth_update_at split: if_splits)
qed auto

text \<open>
  What was queued and what has been put on since, against what has been taken and what is still there.
  A task is queued once in its life, so nothing in this history occurs twice.
\<close>

lemma queue_history:
  assumes "steps (sys_step m2j hz) s s'" and "running_system m2j hz s" and "a < NUM_ACCELERATORS"
    and "q = a_task_queue (accelerators (s_dev s) ! a)"
  shows "\<exists>taken new loc. sim_rel s' loc \<and> taken @ a_task_queue (accelerators (s_dev s') ! a) = q @ new \<and>
    distinct (q @ new) \<and> (\<forall>i \<in> set (q @ new). i < MAX_TASKS \<and> loc i \<in> {P_Queued a, P_Active a, P_Retired})"
  using assms
proof (induction rule: steps.induct)
  case (steps_refl s)
  obtain loc where loc: "sim_rel s loc" using running_sim [OF steps_refl(1)] .
  note l = sim_rel_located [OF loc]
  have "distinct q" using l steps_refl(2,3) by (simp add: located_def)
  moreover have "i < MAX_TASKS \<and> loc i = P_Queued a" if "i \<in> set q" for i
    using located_at [OF l, of i "P_Queued a"] that steps_refl(2,3) by simp
  ultimately show ?case using loc steps_refl(3) by (intro exI [of _ "[]"] exI [of _ loc]) auto
next
  case (steps_step s s' s'')
  then obtain taken new loc where k: "sim_rel s' loc" "taken @ a_task_queue (accelerators (s_dev s') ! a) = q @ new"
    "distinct (q @ new)" "\<And>i. i \<in> set (q @ new) \<Longrightarrow> i < MAX_TASKS \<and> loc i \<in> {P_Queued a, P_Active a, P_Retired}" by blast
  from life.sim_step [OF k(1) steps_step.hyps(2)] obtain loc1 where
    l1: "loc1 = loc \<or> life_step loc loc1" "sim_rel s'' loc1" by blast
  have stays: "i < MAX_TASKS \<and> loc1 i \<in> {P_Queued a, P_Active a, P_Retired}" if "i \<in> set (q @ new)" for i
    using l1(1) life_step_stays [of loc loc1 i a] k(4) [OF that] by auto
  have "a < length (accelerators (s_dev s'))" using k(1) steps_step.prems(2) by (simp add: sim_rel_def sim_parts_def)
  from queue_step [OF steps_step.hyps(2) this]
  consider (same) "queues (accelerators (s_dev s'')) a = queues (accelerators (s_dev s')) a"
    | (add) i u where "holder (s_ut s' u) = Some i" "queues (accelerators (s_dev s'')) a = queues (accelerators (s_dev s')) a @ [i]"
    | (del) i where "queues (accelerators (s_dev s')) a = i # queues (accelerators (s_dev s'')) a"
    by blast
  then show ?case
  proof cases
    case same
    then show ?thesis using k(2,3) l1(2) stays by (intro exI [of _ taken] exI [of _ new] exI [of _ loc1]) auto
  next
    case add
    have "loc i = P_Held u" using located_at(2) [OF sim_rel_located [OF k(1)], of i "P_Held u"] add(1) by simp
    then have fresh: "i \<notin> set (q @ new)" using k(4) [of i] by auto
    have "i < MAX_TASKS \<and> loc1 i = P_Queued a"
      using located_at [OF sim_rel_located [OF l1(2)], of i "P_Queued a"] add(2) steps_step.prems(2) by simp
    with fresh add(2) k(2,3) l1(2) stays show ?thesis
      by (intro exI [of _ taken] exI [of _ "new @ [i]"] exI [of _ loc1]) auto
  next
    case del
    then show ?thesis
      using k(2,3) l1(2) stays by (intro exI [of _ "taken @ [i]"] exI [of _ new] exI [of _ loc1]) auto
  qed
qed

lemma retired_facts:
  assumes "sim_rel s loc" and "i < MAX_TASKS" and "loc i = P_Retired"
  shows "t_state (tasks (s_dev s) ! i) \<in> {TASK_STATE_COMPLETE, TASK_STATE_CANCELLED}" and "t_done (tasks (s_dev s) ! i)"
  using slots_okD [OF sim_partsD(5) [OF assms(1) [unfolded sim_rel_def]] assms(2)] assms(3) by auto

text \<open>C18. Service is first come, first served, whatever the priorities. Over any stretch of execution,
  the tasks that were on the queue of an accelerator followed by those put on it since, in that
  order and all different, are exactly the tasks taken off it followed by those still on it: nothing
  is taken before what was queued before it, and nothing is lost. Each task taken is in the hands of
  the worker or has been finished and signalled.\<close>

theorem queues_are_fifo:
  assumes "steps (sys_step m2j hz) s s'" and "running_system m2j hz s" and "a < NUM_ACCELERATORS"
  shows "\<exists>taken new. a_task_queue (accelerators (s_dev s) ! a) @ new = taken @ a_task_queue (accelerators (s_dev s') ! a) \<and>
    distinct (a_task_queue (accelerators (s_dev s) ! a) @ new) \<and>
    (\<forall>i \<in> set taken. working (s_wk s' a) = Some i \<or>
       t_state (tasks (s_dev s') ! i) \<in> {TASK_STATE_COMPLETE, TASK_STATE_CANCELLED} \<and> t_done (tasks (s_dev s') ! i))"
proof -
  let ?q = "a_task_queue (accelerators (s_dev s) ! a)" and ?q' = "a_task_queue (accelerators (s_dev s') ! a)"
  obtain taken new loc where h: "sim_rel s' loc" "taken @ ?q' = ?q @ new" "distinct (?q @ new)"
    "\<And>i. i \<in> set (?q @ new) \<Longrightarrow> i < MAX_TASKS \<and> loc i \<in> {P_Queued a, P_Active a, P_Retired}"
    using queue_history [OF assms refl] by blast
  note l = sim_rel_located [OF h(1)]
  have "working (s_wk s' a) = Some i \<or>
      t_state (tasks (s_dev s') ! i) \<in> {TASK_STATE_COMPLETE, TASK_STATE_CANCELLED} \<and> t_done (tasks (s_dev s') ! i)"
    if i: "i \<in> set taken" for i
  proof -
    have "distinct (taken @ ?q')" using h(2,3) by simp
    then have "i \<notin> set ?q'" using i by auto
    moreover have "i \<in> set (?q @ new)" using i h(2) by (metis UnCI set_append)
    moreover from this have "i < MAX_TASKS" using h(4) by blast
    ultimately show ?thesis
      using h(4) [of i] located_iff [OF l \<open>i < MAX_TASKS\<close>, of "P_Queued a"] located_iff [OF l \<open>i < MAX_TASKS\<close>, of "P_Active a"]
        retired_facts [OF h(1) \<open>i < MAX_TASKS\<close>] assms(3) by auto
  qed
  with h(2,3) show ?thesis by metis
qed

theorem queues_are_fifo_witness:
  "\<exists>taken new. taken @ a_task_queue (accelerators (s_dev (active_sys (U_Ret 0))) ! 1) =
     a_task_queue (accelerators (s_dev queued_sys) ! 1) @ new \<and> distinct (a_task_queue (accelerators (s_dev queued_sys) ! 1) @ new)"
proof -
  have "(1 :: nat) < NUM_ACCELERATORS" by (simp add: NUM_ACCELERATORS_def)
  from queues_are_fifo [OF performs_steps [OF active_run] running_queued [of "\<lambda>_. 0" 250] this]
  show ?thesis by metis
qed

section \<open>Uninterrupted threads\<close>

text \<open>C33. A system call that is not interrupted does what the handlers of the character device do: the
  seven steps of a submission have the result of \<open>submit_desc\<close> (or one step reports \<open>-ENOMEM\<close>),
  a cancellation that of \<open>task_cancel\<close>, a query that of the status \<open>task_query\<close> fills, each within
  a bounded number of steps.\<close>

theorem uninterrupted_calls:
  assumes "dev_inv d" and "check_desc desc = None"
  shows "(\<exists>n \<le> 7. user_run hz now n (U_Alloc desc, d) =
      (if free_tasks d = [] then U_Ret (neg_errno ENOMEM)
       else U_CopyOut (desc\<lparr>td_task_id := next_task_id d + 1\<rparr>), snd (snd (submit_desc now desc d)))) \<and>
    (\<exists>n \<le> 2 * MAX_TASKS + 4. user_run hz now n (U_CScan tid 0, d) =
      (U_Ret (fst (task_cancel (tasks d) tid)), d\<lparr>tasks := snd (task_cancel (tasks d) tid)\<rparr>)) \<and>
    (\<exists>n \<le> 2 * MAX_TASKS + 6. user_run hz now n (U_QScan tid 0, d) =
      (case task_lookup (tasks d) tid 0 of None \<Rightarrow> U_Ret (neg_errno ENOENT)
         | Some i \<Rightarrow> U_QCopyOut (query_status hz (tasks d ! i)), d))"
proof -
  have "\<exists>n \<le> 7. user_run hz now n (U_Alloc desc, d) =
      (if free_tasks d = [] then U_Ret (neg_errno ENOMEM)
       else U_CopyOut (desc\<lparr>td_task_id := next_task_id d + 1\<rparr>), snd (snd (submit_desc now desc d)))"
  proof (cases "free_tasks d")
    case Nil
    then show ?thesis
      using submit_alone_full [OF Nil, of hz now desc] submit_desc_exhausted [OF Nil, of now desc]
      by (intro exI [of _ 1]) simp
  next
    case (Cons i fl)
    then have "i < length (tasks d)" using dev_inv_free [OF assms(1)] assms(1) by simp
    from submit_alone [OF Cons this assms(2), of hz now] Cons show ?thesis
      by (intro exI [of _ 7]) simp
  qed
  then show ?thesis using cancel_alone query_alone by blast
qed

theorem uninterrupted_calls_witness:
  "\<exists>n \<le> 7. user_run 250 7 n (U_Alloc sample_desc, fresh_dev) =
     (U_CopyOut (sample_desc\<lparr>td_task_id := 1\<rparr>), snd (snd (submit_desc 7 sample_desc fresh_dev)))"
  using uninterrupted_calls [OF fresh_dev_facts(1), of sample_desc 250 7 1] by simp

text \<open>How far a worker that has been told to stop is from returning.\<close>

fun worker_rank :: "worker_pc \<Rightarrow> nat" where
  "worker_rank W_Exit = 0"
| "worker_rank W_Loop = 1"
| "worker_rank W_Recheck = 1"
| "worker_rank W_Wait = 2"
| "worker_rank (W_Unlink i) = 2"
| "worker_rank (W_CompleteAll i) = 3"
| "worker_rank (W_LoadDown i) = 4"
| "worker_rank (W_ClearError i) = 5"
| "worker_rank (W_SetComplete i) = 6"
| "worker_rank (W_Stamp i) = 7"
| "worker_rank (W_Sleep10 i) = 8"
| "worker_rank (W_Msleep i timeout start) = 8"
| "worker_rank (W_Spin i timeout start) = 9"
| "worker_rank (W_Start i) = 10"
| "worker_rank (W_LoadUp i) = 11"
| "worker_rank (W_SetRunning i) = 12"
| "worker_rank W_Lock = 13"

lemma worker_rank_step:
  assumes "accel_worker_thread m2j now True pc (ts, ac) = (pc', (ts', ac'))" and "a_running ac = 0"
  shows "a_running ac' = 0" and "worker_rank pc' \<le> worker_rank pc - 1"
  using assms by (cases pc; auto simp: list_defs split: if_splits list.splits)+

text \<open>A worker whose \<open>running\<close> flag is cleared and whose \<open>kthread_should_stop\<close> is true returns
  within 13 of its own steps, from any point of its loop and whatever the timeout of the task it
  has in hand: \<open>kthread_stop\<close> does not wait forever.\<close>

lemma worker_stops:
  assumes "\<forall>k. snd (env k)" and "a_running ac = 0" and "worker_rank pc \<le> n"
  shows "fst (worker_run m2j env n (pc, (ts, ac))) = W_Exit \<and> (\<forall>pc. worker_rank pc \<le> 13)"
proof -
  have "fst (worker_run m2j env n (pc, (ts, ac))) = W_Exit"
    using assms
  proof (induction n arbitrary: env pc ts ac)
    case 0
    then show ?case by (cases pc) simp_all
  next
    case (Suc n)
    obtain pc' ts' ac' where w: "accel_worker_thread m2j (fst (env 0)) True pc (ts, ac) = (pc', (ts', ac'))"
      by (metis prod.collapse)
    from worker_rank_step [OF w Suc.prems(2)] Suc.prems(3)
    have "fst (worker_run m2j (\<lambda>k. env (Suc k)) n (pc', (ts', ac'))) = W_Exit"
      by (intro Suc.IH) (use Suc.prems(1) in auto)
    with w Suc.prems(1) show ?case by simp
  qed
  moreover have "worker_rank pc \<le> 13" for pc by (cases pc) simp_all
  ultimately show ?thesis by blast
qed

section \<open>Progress\<close>

lemma worker_one_task:
  assumes "a_task_queue ac = i # q" and "i < length ts" and "a_active_tasks ac = []" and "a_load_percent ac \<le> 90"
    and "a_running ac \<noteq> 0" and "sleeps_advance m2j env (W_Loop, (ts, ac))"
  shows "\<exists>n c. worker_run m2j env n (W_Loop, (ts, ac)) =
    (W_Loop, (upd_task i (\<lambda>t. t\<lparr>t_complete_jiffies := c, t_state := TASK_STATE_COMPLETE,
                              t_error_code := 0, t_done := True\<rparr>) ts, ac\<lparr>a_task_queue := q\<rparr>))"
proof -
  from worker_processes_head [OF assms(1-4) sleeps_advance_shift [OF assms(6) worker_reaches_lock [OF assms(5)]]] obtain n c where
    "worker_run m2j (\<lambda>k. env (3 + k)) n (W_Lock, (ts, ac)) =
      (W_Loop, (upd_task i (\<lambda>t. t\<lparr>t_complete_jiffies := c, t_state := TASK_STATE_COMPLETE,
                              t_error_code := 0, t_done := True\<rparr>) ts, ac\<lparr>a_task_queue := q\<rparr>))"
    by blast
  then have "worker_run m2j env (3 + n) (W_Loop, (ts, ac)) =
      (W_Loop, (upd_task i (\<lambda>t. t\<lparr>t_complete_jiffies := c, t_state := TASK_STATE_COMPLETE,
                              t_error_code := 0, t_done := True\<rparr>) ts, ac\<lparr>a_task_queue := q\<rparr>))"
    by (simp only: worker_run_add worker_reaches_lock [OF assms(5)])
  then show ?thesis by blast
qed

text \<open>C9. Progress: a worker that runs undisturbed serves its whole queue. The clock is only asked to
  advance while the worker sleeps: from one test of a timeout loop to the next, with an \<open>msleep(1)\<close> in
  between, the time since the loop's start grows. Then there is a number of steps after
  which the queue is empty, every task that was on it is \<open>COMPLETE\<close> with error code 0 and has
  been signalled (cancelled ones and ones that ran into their timeout included), the other tasks
  are untouched, and the accelerator is otherwise as it was, its load included.\<close>

theorem worker_serves_queue:
  assumes "distinct (a_task_queue ac)" and "\<forall>i \<in> set (a_task_queue ac). i < length ts"
    and "a_active_tasks ac = []" and "a_load_percent ac \<le> 90" and "a_running ac \<noteq> 0"
    and "sleeps_advance m2j env (W_Loop, (ts, ac))"
  shows "\<exists>n ts'. worker_run m2j env n (W_Loop, (ts, ac)) = (W_Loop, (ts', ac\<lparr>a_task_queue := []\<rparr>)) \<and>
    length ts' = length ts \<and> (\<forall>j. j \<notin> set (a_task_queue ac) \<longrightarrow> ts' ! j = ts ! j) \<and>
    (\<forall>i \<in> set (a_task_queue ac). t_state (ts' ! i) = TASK_STATE_COMPLETE \<and> t_error_code (ts' ! i) = 0 \<and>
       t_done (ts' ! i) \<and> t_id (ts' ! i) = t_id (ts ! i))"
  using assms
proof (induction "a_task_queue ac" arbitrary: ac ts env)
  case Nil
  have "worker_run m2j env 0 (W_Loop, (ts, ac)) = (W_Loop, (ts, ac\<lparr>a_task_queue := []\<rparr>))"
    using Nil(1) by (auto intro: cortex_forge_accel.equality)
  then show ?case using Nil(1) by (intro exI [of _ 0] exI [of _ ts]) simp
next
  case (Cons i q)
  note queue = Cons.hyps(2) [symmetric]
  have i: "i < length ts" "i \<notin> set q" using Cons.prems(1,2) queue by auto
  obtain n c where n: "worker_run m2j env n (W_Loop, (ts, ac)) =
    (W_Loop, (upd_task i (\<lambda>t. t\<lparr>t_complete_jiffies := c, t_state := TASK_STATE_COMPLETE,
                              t_error_code := 0, t_done := True\<rparr>) ts, ac\<lparr>a_task_queue := q\<rparr>))"
    using worker_one_task [OF queue i(1) Cons.prems(3-6)] by auto
  define ts1 where "ts1 = upd_task i (\<lambda>t. t\<lparr>t_complete_jiffies := c, t_state := TASK_STATE_COMPLETE,
                              t_error_code := 0, t_done := True\<rparr>) ts"
  have ts1: "length ts1 = length ts" "j \<noteq> i \<Longrightarrow> ts1 ! j = ts ! j" for j
    using i by (simp_all add: ts1_def nth_upd_task)
  have "\<exists>m ts'. worker_run m2j (\<lambda>k. env (n + k)) m (W_Loop, (ts1, ac\<lparr>a_task_queue := q\<rparr>)) =
      (W_Loop, (ts', ac\<lparr>a_task_queue := q\<rparr>\<lparr>a_task_queue := []\<rparr>)) \<and> length ts' = length ts1 \<and>
      (\<forall>j. j \<notin> set (a_task_queue (ac\<lparr>a_task_queue := q\<rparr>)) \<longrightarrow> ts' ! j = ts1 ! j) \<and>
      (\<forall>i \<in> set (a_task_queue (ac\<lparr>a_task_queue := q\<rparr>)). t_state (ts' ! i) = TASK_STATE_COMPLETE \<and>
         t_error_code (ts' ! i) = 0 \<and> t_done (ts' ! i) \<and> t_id (ts' ! i) = t_id (ts1 ! i))"
  proof (rule Cons.hyps(1))
    show "sleeps_advance m2j (\<lambda>k. env (n + k)) (W_Loop, (ts1, ac\<lparr>a_task_queue := q\<rparr>))"
      by (rule sleeps_advance_shift [OF Cons.prems(6) n [folded ts1_def]])
  qed (use Cons.prems queue ts1 in auto)
  then obtain m ts' where m: "worker_run m2j (\<lambda>k. env (n + k)) m (W_Loop, (ts1, ac\<lparr>a_task_queue := q\<rparr>)) =
      (W_Loop, (ts', ac\<lparr>a_task_queue := []\<rparr>))" "length ts' = length ts1" "\<forall>j. j \<notin> set q \<longrightarrow> ts' ! j = ts1 ! j"
      "\<forall>i \<in> set q. t_state (ts' ! i) = TASK_STATE_COMPLETE \<and> t_error_code (ts' ! i) = 0 \<and>
         t_done (ts' ! i) \<and> t_id (ts' ! i) = t_id (ts1 ! i)"
    by auto
  have "worker_run m2j env (n + m) (W_Loop, (ts, ac)) = (W_Loop, (ts', ac\<lparr>a_task_queue := []\<rparr>))"
    by (simp only: worker_run_add n m(1) ts1_def [symmetric])
  moreover have "t_state (ts' ! i) = TASK_STATE_COMPLETE \<and> t_error_code (ts' ! i) = 0 \<and> t_done (ts' ! i) \<and>
      t_id (ts' ! i) = t_id (ts ! i)"
    using m(3) i by (simp add: ts1_def nth_upd_task)
  moreover have "t_id (ts1 ! j) = t_id (ts ! j)" for j
    using i by (simp add: ts1_def nth_upd_task)
  ultimately show ?case
    using m ts1 queue by (intro exI [of _ "n + m"] exI [of _ ts']) auto
qed

text \<open>
  Two tasks with a timeout of two jiffies, on a clock that ticks once per step: either is tested
  twice, with a sleep in between.
\<close>

definition timed_task :: cortex_forge_task where
  "timed_task = zero_task\<lparr>t_state := TASK_STATE_PENDING, t_timeout_ms := 1\<rparr>"

lemma two_timed_tasks:
  "\<exists>ts. worker_run (\<lambda>_. 2) (\<lambda>k. (of_nat k, False)) 32
     (W_Loop, ([timed_task, timed_task], demo_accel\<lparr>a_task_queue := [0, 1]\<rparr>)) = (W_Loop, (ts, demo_accel\<lparr>a_task_queue := []\<rparr>))"
proof -
  let ?ac = "demo_accel\<lparr>a_task_queue := [0, 1]\<rparr>" and ?ac1 = "demo_accel\<lparr>a_task_queue := [1]\<rparr>"
  obtain c where one: "worker_run (\<lambda>_. 2) (\<lambda>k. (of_nat k, False)) 16 (W_Loop, ([timed_task, timed_task], ?ac)) =
    (W_Loop, (upd_task 0 (\<lambda>t. t\<lparr>t_complete_jiffies := c, t_state := TASK_STATE_COMPLETE, t_error_code := 0, t_done := True\<rparr>)
       [timed_task, timed_task], ?ac1))" (is "_ = (_, (?ts, _))")
    using timed_pass [of ?ac 0 "[1]" "[timed_task, timed_task]" "\<lambda>k. (of_nat k, False)" "\<lambda>_. 2"] by (auto simp: timed_task_def)
  have "worker_run (\<lambda>_. 2) (\<lambda>k. (of_nat k, False)) (16 + 16) (W_Loop, ([timed_task, timed_task], ?ac)) =
      worker_run (\<lambda>_. 2) (\<lambda>k. (of_nat (16 + k), False)) 16 (W_Loop, (?ts, ?ac1))"
    by (simp only: worker_run_add one)
  moreover have "\<exists>ts. worker_run (\<lambda>_. 2) (\<lambda>k. (of_nat (16 + k), False)) 16 (W_Loop, (?ts, ?ac1)) = (W_Loop, (ts, demo_accel\<lparr>a_task_queue := []\<rparr>))"
    using timed_pass [of ?ac1 1 "[]" ?ts "\<lambda>k. (of_nat (16 + k), False)" "\<lambda>_. 2"] by (auto simp: timed_task_def upd_task_def)
  ultimately show ?thesis by simp
qed

theorem worker_serves_queue_witness:
  "\<exists>n ts'. worker_run (\<lambda>_. 2) (\<lambda>k. (of_nat k, False)) n
      (W_Loop, ([timed_task, timed_task], demo_accel\<lparr>a_task_queue := [0, 1]\<rparr>)) =
      (W_Loop, (ts', demo_accel\<lparr>a_task_queue := []\<rparr>)) \<and> t_state (ts' ! 0) = TASK_STATE_COMPLETE \<and>
      t_state (ts' ! 1) = TASK_STATE_COMPLETE"
proof -
  let ?ac = "demo_accel\<lparr>a_task_queue := [0, 1]\<rparr>" and ?ts = "[timed_task, timed_task]"
  obtain ts where "worker_run (\<lambda>_. 2) (\<lambda>k. (of_nat k, False)) 32 (W_Loop, (?ts, ?ac)) = (W_Loop, (ts, demo_accel\<lparr>a_task_queue := []\<rparr>))"
    using two_timed_tasks by blast
  then have "sleeps_advance (\<lambda>_. 2) (\<lambda>k. (of_nat k, False)) (W_Loop, (?ts, ?ac))"
    by (rule ticking_clock) simp_all
  from worker_serves_queue [where ac = ?ac and ts = ?ts, OF _ _ _ _ _ this] show ?thesis by auto
qed

end
