(* ===== verification/Static_State.thy ===== *)
theory Static_State
  imports Concurrency
begin

text \<open>
  What the running driver never changes: the description of an accelerator that \<open>accel_init\<close>
  wrote, which is what \<open>GET_ACCEL_INFO\<close> reports, and the contents of the slots on the free list.
  The frame lemmas here say which parts of an accelerator and which slots a step can change.
\<close>

section \<open>What the threads change in an accelerator\<close>

text \<open>Everything but the two lists and the load.\<close>

definition accel_rest :: "cortex_forge_accel \<Rightarrow> cortex_forge_accel" where
  "accel_rest ac = ac\<lparr>a_task_queue := [], a_active_tasks := [], a_load_percent := 0\<rparr>"

text \<open>What a query reports, but for the load; the flag and the thread pointer are left out too.\<close>

definition accel_fixed :: "cortex_forge_accel \<Rightarrow> cortex_forge_accel" where
  "accel_fixed ac = (accel_rest ac)\<lparr>a_running := 0, a_worker_thread := NULL\<rparr>"

lemma accel_restD:
  assumes "accel_rest ac' = accel_rest ac"
  shows "a_running ac' = a_running ac" and "a_worker_thread ac' = a_worker_thread ac"
    and "accel_fixed ac' = accel_fixed ac"
  using arg_cong [OF assms, of a_running] arg_cong [OF assms, of a_worker_thread] assms
  by (simp_all add: accel_rest_def accel_fixed_def)

lemma worker_accel_rest:
  "accel_worker_thread m2j now stop pc (ts, ac) = (pc', (ts', ac')) \<Longrightarrow> accel_rest ac' = accel_rest ac"
  by (cases pc) (auto simp: accel_rest_def list_defs split: if_splits list.splits)

lemma worker_move_cases:
  obtains pc ts ac where "accel_worker_thread m2j (s_now s) (s_stop s a) (s_wk s a)
      (tasks (s_dev s), accelerators (s_dev s) ! a) = (pc, (ts, ac))"
    "worker_move m2j a s = s\<lparr>s_wk := (s_wk s)(a := pc),
       s_dev := (s_dev s)\<lparr>tasks := ts, accelerators := (accelerators (s_dev s))[a := ac]\<rparr>\<rparr>"
proof -
  obtain pc ts ac where "accel_worker_thread m2j (s_now s) (s_stop s a) (s_wk s a)
      (tasks (s_dev s), accelerators (s_dev s) ! a) = (pc, (ts, ac))" by (metis prod.collapse)
  with that show ?thesis by (simp add: worker_move_def)
qed

lemma user_move_cases:
  obtains pc d where "ioctl_thread hz (s_now s) (s_ut s u) (s_dev s) = (pc, d)"
    "user_move hz u s = s\<lparr>s_ut := (s_ut s)(u := pc), s_dev := d\<rparr>"
  by (cases "ioctl_thread hz (s_now s) (s_ut s u) (s_dev s)") (simp add: user_move_def)

lemma user_accel_rest:
  assumes "ioctl_thread hz now pc d = (pc', d')"
  shows "length (accelerators d') = length (accelerators d)"
    and "a < length (accelerators d) \<Longrightarrow> accel_rest (accelerators d' ! a) = accel_rest (accelerators d ! a)"
  using ioctl_queue_step [OF assms]
  by (auto simp: upd_accel_def nth_update_at accel_rest_def)

section \<open>The accelerators' description never changes\<close>

definition fixed_ok :: "forge_sys \<Rightarrow> bool" where
  "fixed_ok s \<longleftrightarrow> length (accelerators (s_dev s)) = NUM_ACCELERATORS \<and>
     (\<forall>a < NUM_ACCELERATORS. accel_fixed (accelerators (s_dev s) ! a) = accel_fixed (init_accels ! a))"

lemma accel_fixed_flags [simp]:
  "accel_fixed (ac\<lparr>a_running := r\<rparr>) = accel_fixed ac" "accel_fixed (ac\<lparr>a_worker_thread := p\<rparr>) = accel_fixed ac"
  by (simp_all add: accel_fixed_def accel_rest_def)

lemma probed_accels:
  assumes "kernel_errors env" and "cortex_forge_probe env = (0, Some d, cs)"
  shows "length (accelerators d) = NUM_ACCELERATORS"
    and "a < NUM_ACCELERATORS \<Longrightarrow> accelerators d ! a = (init_accels ! a)\<lparr>a_worker_thread := pe_krun env a\<rparr>"
  using probe_outcome(2) [OF assms] by (simp_all add: nth_with_workers)

lemma fixed_ok_init: "sys_init s \<Longrightarrow> fixed_ok s"
  by (auto simp: sys_init_def fixed_ok_def boot_def probed_accels)

lemma fixed_ok_step:
  assumes "sys_step m2j hz s s'" and "fixed_ok s"
  shows "fixed_ok s'"
  using assms
proof (induction rule: sys_step.induct)
  case (step_worker b s)
  obtain pc ts ac where "accel_worker_thread m2j (s_now s) (s_stop s b) (s_wk s b)
      (tasks (s_dev s), accelerators (s_dev s) ! b) = (pc, (ts, ac))"
    and m: "worker_move m2j b s = s\<lparr>s_wk := (s_wk s)(b := pc),
       s_dev := (s_dev s)\<lparr>tasks := ts, accelerators := (accelerators (s_dev s))[b := ac]\<rparr>\<rparr>"
    by (rule worker_move_cases)
  from accel_restD(3) [OF worker_accel_rest [OF this(1)]] step_worker show ?case
    by (auto simp: m fixed_ok_def nth_update_at)
next
  case (step_user s u)
  obtain pc d where "ioctl_thread hz (s_now s) (s_ut s u) (s_dev s) = (pc, d)"
    and m: "user_move hz u s = s\<lparr>s_ut := (s_ut s)(u := pc), s_dev := d\<rparr>" by (rule user_move_cases)
  from user_accel_rest(1) [OF this(1)] accel_restD(3) [OF user_accel_rest(2) [OF this(1)]] step_user
  show ?case by (simp add: m fixed_ok_def)
next
  case (step_stop s pc st as)
  from stop_thread_accel [OF step_stop(1)] step_stop(2) show ?case
    by (auto simp: fixed_ok_def upd_accel_def nth_update_at)
qed (simp_all add: fixed_ok_def)

interpretation described: invariant_system sys_init "sys_step m2j hz" fixed_ok for m2j hz
  by unfold_locales (auto intro: fixed_ok_init fixed_ok_step)

lemma accel_get_info_fixed:
  assumes "accel_fixed ac = accel_fixed (init_accels ! a)" and "a < NUM_ACCELERATORS"
  shows "accel_get_info ac info = info\<lparr>ai_freq_hz := 1000000000, ai_temp_celsius := 40,
     ai_load_percent := a_load_percent ac, ai_fw_version := 0x00010000, ai_hw_version := 0x02000000,
     ai_mem_total := 2 ^ 30, ai_mem_free := 2 ^ 30, ai_state := 2\<rparr>"
proof -
  have "accel_get_info ac info =
      (accel_get_info (accel_fixed (init_accels ! a)) info)\<lparr>ai_load_percent := a_load_percent ac\<rparr>"
    unfolding assms(1) [symmetric] by (simp add: accel_get_info_def accel_fixed_def accel_rest_def)
  moreover have "a = 0 \<or> a = 1 \<or> a = 2" using assms(2) by (auto simp: NUM_ACCELERATORS_def)
  ultimately show ?thesis
    by (auto simp: accel_get_info_def accel_fixed_def accel_rest_def init_accels_def accel_init_def)
qed

definition ask_info :: "u32 \<Rightarrow> cortex_forge_accel_info" where
  "ask_info a = \<lparr>ai_accel_type = a, ai_freq_hz = 0, ai_temp_celsius = 0, ai_load_percent = 0, ai_fw_version = 0,
     ai_hw_version = 0, ai_mem_total = 0, ai_mem_free = 0, ai_state = 0, ai_reserved = [0, 0, 0]\<rparr>"

lemma ask_info_read:
  "copy_from_user flat_uaccess (um_holding p (enc_accel_info (ask_info a))) p 56 = Some (enc_accel_info (ask_info a))"
  "dec_accel_info (enc_accel_info (ask_info a)) = ask_info a"
proof -
  have wf: "wf_accel_info (ask_info a)" by (simp add: ask_info_def wf_accel_info_def)
  have l: "length (enc_accel_info (ask_info a)) = 56" by (rule info_wire.enc_length [OF wf])
  have "length (enc_accel_info (ask_info a)) < 2 ^ 64" unfolding l by simp
  from um_holding_read [OF this, of p]
  show "copy_from_user flat_uaccess (um_holding p (enc_accel_info (ask_info a))) p 56 = Some (enc_accel_info (ask_info a))"
    unfolding l .
  show "dec_accel_info (enc_accel_info (ask_info a)) = ask_info a" by (rule info_wire.dec_enc [OF wf])
qed

text \<open>C25. \<open>GET_ACCEL_INFO\<close> on a running driver, on every branch: a structure that cannot be read or
  written back gives \<open>-EFAULT\<close>, an accelerator type of 3 or more \<open>-EINVAL\<close>; otherwise it reports the
  constants of \<open>accel_init\<close> (1 GHz, 40 degrees, 1 GiB of memory all of it free, power state
  active), whatever the accelerator has been doing, and for the load 10 while its worker is
  between the two updates of the load and 0 otherwise. The device is not changed.\<close>

theorem accel_info_reports:
  assumes "running_system m2j hz s"
  shows "cortex_forge_ioctl ua hz now (s_dev s) m CORTEX_FORGE_IOCTL_GET_ACCEL_INFO arg =
    (case copy_from_user ua m arg 56 of
       None \<Rightarrow> (neg_errno EFAULT, s_dev s, m)
     | Some bs \<Rightarrow>
         let info = dec_accel_info bs; a = unat (ai_accel_type info) in
         if a \<ge> 3 then (neg_errno EINVAL, s_dev s, m)
         else
           let (m1, ok) = copy_to_user ua m arg (enc_accel_info (info\<lparr>ai_freq_hz := 1000000000,
                 ai_temp_celsius := 40, ai_load_percent := worker_load (s_wk s a),
                 ai_fw_version := 0x00010000, ai_hw_version := 0x02000000, ai_mem_total := 2 ^ 30,
                 ai_mem_free := 2 ^ 30, ai_state := 2\<rparr>))
           in (if ok then 0 else neg_errno EFAULT, s_dev s, m1))"
proof (cases "copy_from_user ua m arg 56")
  case None
  then show ?thesis by (simp add: ioctl_dispatch ioctl_get_accel_info_def)
next
  case (Some bs)
  define info where "info = dec_accel_info bs"
  define a where "a = unat (ai_accel_type info)"
  show ?thesis
  proof (cases "a < NUM_ACCELERATORS")
    case False
    then show ?thesis
      using Some by (simp add: ioctl_dispatch ioctl_get_accel_info_def NUM_ACCELERATORS_def Let_def
          flip: info_def a_def)
  next
    case True
    obtain loc where "sim_rel s loc" using running_sim [OF assms] .
    then have load: "a_load_percent (accelerators (s_dev s) ! a) = worker_load (s_wk s a)"
      using True by (simp add: sim_rel_def sim_parts_def accels_ok_def)
    have "accel_fixed (accelerators (s_dev s) ! a) = accel_fixed (init_accels ! a)"
      using described.inv_reach [OF assms] True by (simp add: fixed_ok_def)
    from accel_get_info_fixed [OF this True, of info, unfolded load] Some True show ?thesis
      by (simp add: ioctl_dispatch ioctl_get_accel_info_def NUM_ACCELERATORS_def Let_def
          flip: info_def a_def split: prod.split)
  qed
qed

theorem accel_info_reports_witness:
  "\<exists>m'. cortex_forge_ioctl flat_uaccess 250 0 (s_dev (active_sys (U_Ret 0)))
      (um_holding 0x1000 (enc_accel_info (ask_info 1))) CORTEX_FORGE_IOCTL_GET_ACCEL_INFO 0x1000 =
      (0, s_dev (active_sys (U_Ret 0)), um_store m' 0x1000 (enc_accel_info ((ask_info 1)\<lparr>ai_freq_hz := 1000000000,
         ai_temp_celsius := 40, ai_load_percent := 10, ai_fw_version := 0x00010000,
         ai_hw_version := 0x02000000, ai_mem_total := 2 ^ 30, ai_mem_free := 2 ^ 30, ai_state := 2\<rparr>)))"
proof -
  have "ai_accel_type (ask_info 1) = 1" "s_wk (active_sys (U_Ret 0)) 1 = W_Stamp 0"
    by (simp_all add: ask_info_def active_sys_def)
  with accel_info_reports [OF running_active [of "\<lambda>_. 0" 250], of flat_uaccess 0
      "um_holding 0x1000 (enc_accel_info (ask_info 1))" "0x1000"]
  show ?thesis by (auto simp: Let_def ask_info_read um_holding_write)
qed

section \<open>Slots on the free list\<close>

lemma worker_writes:
  assumes "accel_worker_thread m2j now stop pc (ts, ac) = (pc', (ts', ac'))" and "working pc \<noteq> Some j"
  shows "ts' ! j = ts ! j"
  using assms by (cases pc) (auto simp: list_defs upd_task_def split: if_splits list.splits)

fun cancelling :: "user_pc \<Rightarrow> nat option" where
  "cancelling (U_CState tid i) = Some i"
| "cancelling (U_CError tid i) = Some i"
| "cancelling (U_CDone tid i) = Some i"
| "cancelling _ = None"

text \<open>The slots a system call can change, and what it does to the free list.\<close>

lemma user_free_list:
  assumes "ioctl_thread hz now pc d = (pc', d')" and "\<forall>i r. pc \<noteq> U_Undo i r"
  shows "free_tasks d' = free_tasks d \<or> (\<exists>i. free_tasks d = i # free_tasks d')"
proof (cases "\<exists>desc. pc = U_Alloc desc")
  case True
  then show ?thesis
    using assms(1) by (cases "free_tasks d") (auto simp: Let_def task_alloc_def list_defs)
next
  case False
  with assms show ?thesis by (cases pc) auto
qed

lemma user_writes:
  assumes "ioctl_thread hz now pc d = (pc', d')" and "holder pc \<noteq> Some j" and "cancelling pc \<noteq> Some j"
    and "\<forall>fl. free_tasks d = j # fl \<longrightarrow> free_tasks d' = free_tasks d"
  shows "tasks d' ! j = tasks d ! j"
proof (cases "\<exists>desc. pc = U_Alloc desc")
  case True
  then show ?thesis
    using assms(1,4) by (cases "free_tasks d") (auto simp: Let_def upd_task_def task_alloc_def list_defs)
next
  case False
  with assms show ?thesis by (cases pc) (auto simp: upd_task_def task_free_def)
qed

definition free_zero :: "forge_sys \<Rightarrow> bool" where
  "free_zero s \<longleftrightarrow> (\<forall>i \<in> set (free_tasks (s_dev s)). tasks (s_dev s) ! i = zero_task)"

lemma sim_not_free:
  assumes "sim_rel s loc" and "j \<in> set (free_tasks (s_dev s))"
  shows "a < NUM_ACCELERATORS \<Longrightarrow> working (s_wk s a) \<noteq> Some j" and "holder (s_ut s u) \<noteq> Some j"
    and "cancelling (s_ut s u) \<noteq> Some j" and "s_ut s u \<noteq> U_Undo i r" and "distinct (free_tasks (s_dev s))"
proof -
  note R = sim_partsD [OF assms(1) [unfolded sim_rel_def]]
  have j: "j < MAX_TASKS" "loc j = P_Free"
    using located_at [OF R(3), of j P_Free] assms(2) by simp_all
  show "a < NUM_ACCELERATORS \<Longrightarrow> working (s_wk s a) \<noteq> Some j" "holder (s_ut s u) \<noteq> Some j"
    using located_at(2) [OF R(3), of j "P_Active a"] located_at(2) [OF R(3), of j "P_Held u"] j(2) by auto
  have "t_state (tasks (s_dev s) ! j) = TASK_STATE_FREE"
    using slots_okD(1) [OF R(5) j(1)] j(2) by simp
  then show "cancelling (s_ut s u) \<noteq> Some j" "s_ut s u \<noteq> U_Undo i r"
    using R(7) [of u] by (cases "s_ut s u"; auto)+
  show "distinct (free_tasks (s_dev s))" using R(3) by (simp add: located_def)
qed

lemma free_zero_step:
  assumes "sys_step m2j hz s s'" and "sim_rel s loc" and "free_zero s"
  shows "free_zero s'"
  using assms
proof (induction rule: sys_step.induct)
  case (step_worker b s)
  obtain pc ts ac where w: "accel_worker_thread m2j (s_now s) (s_stop s b) (s_wk s b)
      (tasks (s_dev s), accelerators (s_dev s) ! b) = (pc, (ts, ac))"
    and m: "worker_move m2j b s = s\<lparr>s_wk := (s_wk s)(b := pc),
       s_dev := (s_dev s)\<lparr>tasks := ts, accelerators := (accelerators (s_dev s))[b := ac]\<rparr>\<rparr>"
    by (rule worker_move_cases)
  with worker_writes [OF w] sim_not_free(1) [OF step_worker(2) _ step_worker(1)] step_worker(3) m show ?case
    by (simp add: free_zero_def)
next
  case (step_user s u)
  obtain pc d where w: "ioctl_thread hz (s_now s) (s_ut s u) (s_dev s) = (pc, d)"
    and m: "user_move hz u s = s\<lparr>s_ut := (s_ut s)(u := pc), s_dev := d\<rparr>" by (rule user_move_cases)
  have nu: "\<forall>i r. s_ut s u \<noteq> U_Undo i r"
    using sim_partsD(7) [OF step_user(1) [unfolded sim_rel_def], of u] by auto
  have "tasks d ! j = zero_task" if j: "j \<in> set (free_tasks d)" for j
  proof -
    have f: "j \<in> set (free_tasks (s_dev s))" using user_free_list [OF w nu] j by auto
    note nf = sim_not_free [OF step_user(1) f]
    have "tasks d ! j = tasks (s_dev s) ! j"
      using user_writes [OF w nf(2,3)] user_free_list [OF w nu] nf(5) j by fastforce
    with f step_user(2) show ?thesis by (simp add: free_zero_def)
  qed
  then show ?case by (simp add: m free_zero_def)
qed (simp_all add: free_zero_def)

lemma free_zero_init: "sys_init s \<Longrightarrow> free_zero s"
proof -
  assume "sys_init s"
  then obtain env d cs now where "kernel_errors env" "cortex_forge_probe env = (0, Some d, cs)" "s = boot d now"
    by (auto simp: sys_init_def)
  with probe_outcome(2) show ?thesis
    by (fastforce simp: free_zero_def boot_def pre_workers_def probe_setup_zero)
qed

text \<open>Both invariants together: the second needs the first to know whose slots the free ones are.\<close>

interpretation zeroed_slots: invariant_system sys_init "sys_step m2j hz" "\<lambda>s. (\<exists>loc. sim_rel s loc) \<and> free_zero s" for m2j hz
  using sim_rel_init sim_sys_step by unfold_locales (auto intro: free_zero_init free_zero_step, blast+)

text \<open>In every state of the running driver the slots on the free list are all zero, as
  \<open>task_pool_init\<close> left them: the \<open>memset\<close> of \<open>task_alloc\<close> writes nothing new, so a thread
  that searches the pool without the lock sees a slot that is being allocated as free until its
  identifier is written.\<close>

lemma free_slots_are_zero:
  assumes "running_system m2j hz s" and "i \<in> set (free_tasks (s_dev s))"
  shows "i < MAX_TASKS \<and> tasks (s_dev s) ! i = zero_task"
proof -
  from zeroed_slots.inv_reach [OF assms(1)] obtain loc where "sim_rel s loc" "free_zero s" by blast
  with assms(2) show ?thesis
    using located_at(1) [of "free_tasks (s_dev s)" _ _ _ loc i P_Free] sim_rel_located [of s loc]
    by (auto simp: free_zero_def)
qed

end
