(* ===== verification/Shutdown.thy ===== *)
theory Shutdown
  imports Static_State
begin

text \<open>
  Unloading: what \<open>cortex_forge_remove\<close> (\<^verbatim>\<open>src/main.c\<close>) and \<open>accel_stop_workers\<close>
  (\<^verbatim>\<open>src/accel_manager.c\<close>) achieve against running workers and system calls. An invariant of the
  stopping thread says which workers have been joined; a rank shows that it gets to its end; a
  concrete run shows the system calls it does not wait for.
\<close>

section \<open>The stopping thread\<close>

text \<open>\<open>kthread_run\<close> returns the new thread or an error, never \<open>NULL\<close>.\<close>

definition shut_init :: "forge_sys \<Rightarrow> bool" where
  "shut_init s \<longleftrightarrow> (\<exists>env d cs now. kernel_errors env \<and> cortex_forge_probe env = (0, Some d, cs) \<and>
     (\<forall>a < NUM_ACCELERATORS. pe_krun env a \<noteq> NULL) \<and> s = boot d now)"

fun joined :: "stop_pc \<Rightarrow> nat" where
  "joined S_Idle = 0"
| "joined (S_Test a) = a"
| "joined (S_Flag a) = a"
| "joined (S_Stop a) = a"
| "joined (S_Join a) = a"
| "joined S_Done = NUM_ACCELERATORS"

text \<open>A worker that has been joined, and what \<open>accel_stop_workers\<close> has done to the current one.\<close>

definition worker_joined :: "worker_pc \<Rightarrow> cortex_forge_accel \<Rightarrow> bool" where
  "worker_joined pc ac \<longleftrightarrow> pc = W_Exit \<and> a_running ac = 0 \<and> a_worker_thread ac = NULL"

fun stopping :: "stop_pc \<Rightarrow> (nat \<Rightarrow> bool) \<Rightarrow> cortex_forge_accel list \<Rightarrow> bool" where
  "stopping (S_Test a) stop as = (a \<le> NUM_ACCELERATORS)"
| "stopping (S_Flag a) stop as = (a < NUM_ACCELERATORS)"
| "stopping (S_Stop a) stop as = (a < NUM_ACCELERATORS \<and> a_running (as ! a) = 0)"
| "stopping (S_Join a) stop as = (a < NUM_ACCELERATORS \<and> a_running (as ! a) = 0 \<and> stop a)"
| "stopping S_Idle stop as = True"
| "stopping S_Done stop as = True"

definition shut_inv :: "forge_sys \<Rightarrow> bool" where
  "shut_inv s \<longleftrightarrow>
     length (accelerators (s_dev s)) = NUM_ACCELERATORS \<and>
     stopping (s_sp s) (s_stop s) (accelerators (s_dev s)) \<and>
     (\<forall>a < joined (s_sp s). worker_joined (s_wk s a) (accelerators (s_dev s) ! a)) \<and>
     (\<forall>a < NUM_ACCELERATORS. joined (s_sp s) \<le> a \<longrightarrow> a_worker_thread (accelerators (s_dev s) ! a) \<noteq> NULL)"

lemma shut_inv_init: "shut_init s \<Longrightarrow> shut_inv s"
  by (auto simp: shut_init_def shut_inv_def boot_def probed_accels)

lemma stopping_frame:
  assumes "stopping pc stop as" and "\<And>a. a < NUM_ACCELERATORS \<Longrightarrow> a_running (as' ! a) = a_running (as ! a)"
  shows "stopping pc stop as'"
  using assms by (cases pc) auto

lemma joined_le: "stopping pc stop as \<Longrightarrow> joined pc \<le> NUM_ACCELERATORS"
  by (cases pc) auto

text \<open>A step of a worker or of a system call: the flags stay, and a worker that has returned stays so.\<close>

lemma shut_inv_frame:
  assumes inv: "shut_inv s" and l: "length (accelerators (s_dev s')) = NUM_ACCELERATORS"
    and same: "s_sp s' = s_sp s" "s_stop s' = s_stop s"
    and rest: "\<And>a. a < NUM_ACCELERATORS \<Longrightarrow>
      accel_rest (accelerators (s_dev s') ! a) = accel_rest (accelerators (s_dev s) ! a)"
    and ex: "\<And>a. a < NUM_ACCELERATORS \<Longrightarrow> s_wk s a = W_Exit \<Longrightarrow> s_wk s' a = W_Exit"
  shows "shut_inv s'"
proof -
  have "joined (s_sp s) \<le> NUM_ACCELERATORS" using inv joined_le by (auto simp: shut_inv_def)
  then have "worker_joined (s_wk s' a) (accelerators (s_dev s') ! a)" if "a < joined (s_sp s)" for a
    using that inv accel_restD [OF rest [of a]] ex [of a] by (simp add: shut_inv_def worker_joined_def)
  then show ?thesis
    using inv l same stopping_frame [of "s_sp s" "s_stop s" "accelerators (s_dev s)" "accelerators (s_dev s')"]
      accel_restD [OF rest] by (simp add: shut_inv_def)
qed

lemma shut_inv_worker:
  assumes "shut_inv s"
  shows "shut_inv (worker_move m2j b s)"
proof -
  obtain pc ts ac where w: "accel_worker_thread m2j (s_now s) (s_stop s b) (s_wk s b)
      (tasks (s_dev s), accelerators (s_dev s) ! b) = (pc, (ts, ac))"
    and m: "worker_move m2j b s = s\<lparr>s_wk := (s_wk s)(b := pc),
       s_dev := (s_dev s)\<lparr>tasks := ts, accelerators := (accelerators (s_dev s))[b := ac]\<rparr>\<rparr>"
    by (rule worker_move_cases)
  show ?thesis
    using worker_accel_rest [OF w] w assms unfolding m
    by (intro shut_inv_frame [OF assms]) (auto simp: shut_inv_def nth_update_at)
qed

lemma shut_inv_user:
  assumes "shut_inv s"
  shows "shut_inv (user_move hz u s)"
proof -
  obtain pc d where w: "ioctl_thread hz (s_now s) (s_ut s u) (s_dev s) = (pc, d)"
    and m: "user_move hz u s = s\<lparr>s_ut := (s_ut s)(u := pc), s_dev := d\<rparr>" by (rule user_move_cases)
  have "length (accelerators (s_dev s)) = NUM_ACCELERATORS" using assms by (simp add: shut_inv_def)
  with user_accel_rest [OF w] show ?thesis
    unfolding m by (intro shut_inv_frame [OF assms]) auto
qed

lemma shut_inv_stop:
  assumes "shut_inv s"
    and "stop_thread (s_wk s) (s_sp s) (s_stop s, accelerators (s_dev s)) = Some (pc, st, as)"
  shows "shut_inv (s\<lparr>s_sp := pc, s_stop := st, s_dev := (s_dev s)\<lparr>accelerators := as\<rparr>\<rparr>)"
  using assms
  by (cases "s_sp s") (auto simp: shut_inv_def worker_joined_def nth_upd_accel less_Suc_eq split: if_splits)

lemma shut_inv_step: "sys_step m2j hz s s' \<Longrightarrow> shut_inv s \<Longrightarrow> shut_inv s'"
proof (induction rule: sys_step.induct)
  case (step_remove s)
  then show ?case by (simp add: shut_inv_def)
qed (simp_all add: shut_inv_worker shut_inv_user shut_inv_stop, simp_all add: shut_inv_def)

interpretation shut: invariant_system shut_init "sys_step m2j hz" shut_inv for m2j hz
  by unfold_locales (auto intro: shut_inv_init shut_inv_step)

section \<open>The stopping thread alone\<close>

text \<open>
  With every worker already returned the stopping thread runs through without waiting, and does to
  the accelerators what the sequential \<open>accel_stop_workers\<close> does.
\<close>

fun stop_run :: "(nat \<Rightarrow> worker_pc) \<Rightarrow> nat \<Rightarrow> stop_pc \<times> (nat \<Rightarrow> bool) \<times> cortex_forge_accel list \<Rightarrow>
    stop_pc \<times> (nat \<Rightarrow> bool) \<times> cortex_forge_accel list" where
  "stop_run wk 0 c = c"
| "stop_run wk (Suc n) (pc, st, as) =
     (case stop_thread wk pc (st, as) of None \<Rightarrow> (pc, st, as) | Some c \<Rightarrow> stop_run wk n c)"

lemma stop_run_from:
  assumes "\<And>b. wk b = W_Exit" and "a \<le> NUM_ACCELERATORS" and "length as = NUM_ACCELERATORS"
  shows "\<exists>n st'. stop_run wk n (S_Test a, st, as) =
    (S_Done, st', fst (accel_stop_from [a..<NUM_ACCELERATORS] as))"
  using assms(2,3)
proof (induction "NUM_ACCELERATORS - a" arbitrary: a st as)
  case 0
  then show ?case by (intro exI [of _ 1] exI [of _ st]) simp
next
  case (Suc k)
  then have a: "a < NUM_ACCELERATORS" by simp
  have "k = NUM_ACCELERATORS - Suc a" "Suc a \<le> NUM_ACCELERATORS" using Suc.hyps(2) by simp_all
  note IH = Suc.hyps(1) [OF this]
  have upt: "[a..<NUM_ACCELERATORS] = a # [Suc a..<NUM_ACCELERATORS]" using a by (rule upt_conv_Cons)
  show ?case
  proof (cases "a_worker_thread (as ! a) = NULL")
    case True
    from IH [of as st] Suc.prems(2) obtain n st' where "stop_run wk n (S_Test (Suc a), st, as) =
        (S_Done, st', fst (accel_stop_from [Suc a..<NUM_ACCELERATORS] as))" by auto
    with True a show ?thesis unfolding upt by (intro exI [of _ "Suc n"] exI [of _ st']) (simp add: accel_stop_from.simps)
  next
    case False
    define as2 where "as2 = upd_accel a (\<lambda>ac. ac\<lparr>a_worker_thread := NULL\<rparr>) (upd_accel a (\<lambda>ac. ac\<lparr>a_running := 0\<rparr>) as)"
    from IH [of as2 "st(a := True)"] Suc.prems(2) obtain n st' where "stop_run wk n (S_Test (Suc a), st(a := True), as2) =
        (S_Done, st', fst (accel_stop_from [Suc a..<NUM_ACCELERATORS] as2))" by (auto simp: as2_def)
    with False a assms(1) show ?thesis
      unfolding upt by (intro exI [of _ "Suc (Suc (Suc (Suc n)))"] exI [of _ st'])
        (simp add: accel_stop_from.simps as2_def Let_def split: prod.splits)
  qed
qed

lemma stop_run_agrees:
  assumes "\<And>b. wk b = W_Exit" and "length as = NUM_ACCELERATORS"
  shows "\<exists>n st'. stop_run wk n (S_Test 0, st, as) = (S_Done, st', fst (accel_stop_workers as NUM_ACCELERATORS))"
  unfolding accel_stop_workers_def using stop_run_from [OF assms(1) _ assms(2), of 0] by simp

section \<open>What remove achieves\<close>

lemma shut_init_sys: "shut_init s \<Longrightarrow> sys_init s"
  by (auto simp: shut_init_def sys_init_def)

lemma shut_running: "reach shut_init (sys_step m2j hz) s \<Longrightarrow> running_system m2j hz s"
  by (induction rule: reach.induct) (auto intro: reach.intros shut_init_sys)

lemma stop_done_step: "sys_step m2j hz s s' \<Longrightarrow> s_sp s = S_Done \<Longrightarrow> s_sp s' = S_Done"
  by (induction rule: sys_step.induct) (auto simp: worker_move_def user_move_def split: prod.splits)

lemma queue_grows_step:
  assumes "sys_step m2j hz s s'" and "a < length (accelerators (s_dev s))"
    and "\<And>b. b < NUM_ACCELERATORS \<Longrightarrow> s_wk s b = W_Exit"
  shows "\<exists>new. queues (accelerators (s_dev s')) a = queues (accelerators (s_dev s)) a @ new"
  using assms
proof (induction rule: sys_step.induct)
  case (step_worker b s)
  then show ?case by (simp add: worker_move_def)
next
  case (step_user s u)
  obtain pc d where "ioctl_thread hz (s_now s) (s_ut s u) (s_dev s) = (pc, d)"
    and m: "user_move hz u s = s\<lparr>s_ut := (s_ut s)(u := pc), s_dev := d\<rparr>" by (rule user_move_cases)
  from ioctl_queue_step [OF this(1)] step_user show ?case
    by (auto simp: m upd_accel_def nth_update_at)
next
  case (step_stop s pc st as)
  from stop_thread_accel [OF step_stop(1)] step_stop(2) show ?case
    by (auto simp: upd_accel_def nth_update_at)
qed auto

lemma shut_doneD:
  assumes "shut_inv s" and "s_sp s = S_Done" and "a < NUM_ACCELERATORS"
  shows "worker_joined (s_wk s a) (accelerators (s_dev s) ! a)"
  using assms by (simp add: shut_inv_def)

lemma queue_grows:
  assumes "steps (sys_step m2j hz) s s'" and "shut_inv s" and "s_sp s = S_Done" and "a < NUM_ACCELERATORS"
  shows "s_sp s' = S_Done \<and> (\<exists>new. queues (accelerators (s_dev s')) a = queues (accelerators (s_dev s)) a @ new)"
  using assms
proof (induction rule: steps.induct)
  case (steps_step s s' s'')
  then obtain new where new: "queues (accelerators (s_dev s')) a = queues (accelerators (s_dev s)) a @ new"
    and sp: "s_sp s' = S_Done" by blast
  have inv: "shut_inv s'" using shut.inv_steps [OF steps_step.hyps(1)] steps_step.prems(1) .
  then have "a < length (accelerators (s_dev s'))" using steps_step.prems(3) by (simp add: shut_inv_def)
  from queue_grows_step [OF steps_step.hyps(2) this] shut_doneD [OF inv sp]
  obtain new' where "queues (accelerators (s_dev s'')) a = queues (accelerators (s_dev s')) a @ new'"
    by (auto simp: worker_joined_def)
  with new stop_done_step [OF steps_step.hyps(2) sp] show ?case by simp
qed simp

section \<open>Remove terminates\<close>

fun remove_rank :: "stop_pc \<Rightarrow> (nat \<Rightarrow> worker_pc) \<Rightarrow> nat" where
  "remove_rank S_Idle wk = 20 * NUM_ACCELERATORS + 2"
| "remove_rank (S_Test a) wk = 20 * (NUM_ACCELERATORS - a) + 1"
| "remove_rank (S_Flag a) wk = 20 * (NUM_ACCELERATORS - Suc a) + 20"
| "remove_rank (S_Stop a) wk = 20 * (NUM_ACCELERATORS - Suc a) + 19"
| "remove_rank (S_Join a) wk = 20 * (NUM_ACCELERATORS - Suc a) + 2 + worker_rank (wk a)"
| "remove_rank S_Done wk = 0"

abbreviation rank_of :: "forge_sys \<Rightarrow> nat" where
  "rank_of s \<equiv> remove_rank (s_sp s) (s_wk s)"

lemma worker_rank_le: "worker_rank pc \<le> 13"
  by (cases pc) simp_all

lemma worker_rank_0: "worker_rank pc = 0 \<longleftrightarrow> pc = W_Exit"
  by (cases pc) simp_all

lemma rank_stop:
  assumes "shut_inv s"
    and "stop_thread (s_wk s) (s_sp s) (s_stop s, accelerators (s_dev s)) = Some (pc, st, as)"
  shows "remove_rank pc (s_wk s) < rank_of s"
  using assms worker_rank_le [of "s_wk s (joined (s_sp s))"]
  by (cases "s_sp s") (auto simp: shut_inv_def Suc_diff_Suc split: if_splits)

lemma rank_worker:
  assumes "shut_inv s"
  shows "rank_of (worker_move m2j b s) \<le> rank_of s"
    and "s_sp s = S_Join b \<Longrightarrow> s_wk s b \<noteq> W_Exit \<Longrightarrow> rank_of (worker_move m2j b s) < rank_of s"
proof -
  obtain pc ts ac where w: "accel_worker_thread m2j (s_now s) (s_stop s b) (s_wk s b)
      (tasks (s_dev s), accelerators (s_dev s) ! b) = (pc, (ts, ac))"
    and m: "worker_move m2j b s = s\<lparr>s_wk := (s_wk s)(b := pc),
       s_dev := (s_dev s)\<lparr>tasks := ts, accelerators := (accelerators (s_dev s))[b := ac]\<rparr>\<rparr>"
    by (rule worker_move_cases)
  have r: "worker_rank pc \<le> worker_rank (s_wk s b) - 1" if "s_sp s = S_Join b"
    using that assms worker_rank_step(2) [of m2j "s_now s" "s_wk s b"] w by (simp add: shut_inv_def)
  then show "s_sp s = S_Join b \<Longrightarrow> s_wk s b \<noteq> W_Exit \<Longrightarrow> rank_of (worker_move m2j b s) < rank_of s"
    using worker_rank_0 [of "s_wk s b"] by (simp add: m)
  from r show "rank_of (worker_move m2j b s) \<le> rank_of s"
    by (cases "s_sp s") (auto simp: m)
qed

lemma rank_step: "sys_step m2j hz s s' \<Longrightarrow> shut_inv s \<Longrightarrow> rank_of s' \<le> rank_of s"
proof (induction rule: sys_step.induct)
  case (step_worker b s)
  then show ?case using rank_worker(1) by blast
next
  case (step_stop s pc st as)
  from rank_stop [OF step_stop(2,1)] show ?case by simp
qed (simp_all add: user_move_def split: prod.splits)

lemma remove_enabled:
  assumes "shut_inv s" and "s_sp s \<noteq> S_Idle" and "s_sp s \<noteq> S_Done"
  shows "(\<exists>s'. perform m2j hz A_Stop s = Some s' \<and> rank_of s' < rank_of s) \<or>
    (\<exists>a < NUM_ACCELERATORS. s_sp s = S_Join a \<and> s_wk s a \<noteq> W_Exit \<and> rank_of (worker_move m2j a s) < rank_of s)"
proof (cases "stop_thread (s_wk s) (s_sp s) (s_stop s, accelerators (s_dev s))")
  case (Some r)
  obtain pc st as where "r = (pc, st, as)" by (cases r)
  with rank_stop [OF assms(1)] Some show ?thesis by simp
next
  case None
  then obtain a where a: "s_sp s = S_Join a" "s_wk s a \<noteq> W_Exit"
    using assms(2,3) by (cases "s_sp s") (auto split: if_splits)
  moreover have "a < NUM_ACCELERATORS" using assms(1) a(1) by (simp add: shut_inv_def)
  ultimately show ?thesis using rank_worker(2) [OF assms(1)] by blast
qed

lemma stop_begun_step: "sys_step m2j hz s s' \<Longrightarrow> s_sp s \<noteq> S_Idle \<Longrightarrow> s_sp s' \<noteq> S_Idle"
proof (induction rule: sys_step.induct)
  case (step_stop s pc st as)
  then show ?case by (cases "s_sp s") (auto split: if_splits)
qed (simp_all add: worker_move_def user_move_def split: prod.splits)

lemma remove_completes:
  "shut_inv s \<Longrightarrow> s_sp s \<noteq> S_Idle \<Longrightarrow>
   \<exists>xs s'. length xs \<le> rank_of s \<and> set xs \<subseteq> insert A_Stop (range A_Worker) \<and>
     performs m2j hz xs s = Some s' \<and> s_sp s' = S_Done"
proof (induction "rank_of s" arbitrary: s rule: less_induct)
  case less
  show ?case
  proof (cases "s_sp s = S_Done")
    case True
    then show ?thesis by (intro exI [of _ "[]"] exI [of _ s]) simp
  next
    case False
    from remove_enabled [OF less.prems False, of m2j hz] obtain x s1 where
      x: "perform m2j hz x s = Some s1" "rank_of s1 < rank_of s" "x \<in> insert A_Stop (range A_Worker)"
      by (metis insertCI perform.simps(2) rangeI)
    note st = perform_step [OF x(1)]
    from less.hyps [OF x(2) shut_inv_step [OF st less.prems(1)] stop_begun_step [OF st less.prems(2)]]
    obtain xs s' where "length xs \<le> rank_of s1" "set xs \<subseteq> insert A_Stop (range A_Worker)"
      "performs m2j hz xs s1 = Some s'" "s_sp s' = S_Done" by blast
    with x show ?thesis by (intro exI [of _ "x # xs"] exI [of _ s']) simp
  qed
qed

text \<open>The steps of the workers and of the stopping thread leave the system calls where they are.\<close>

lemma shut_actions_users:
  "performs m2j hz xs s = Some s' \<Longrightarrow> set xs \<subseteq> insert A_Stop (range A_Worker) \<Longrightarrow> s_ut s' = s_ut s"
proof (induction xs arbitrary: s)
  case (Cons x xs)
  then obtain s1 where s1: "perform m2j hz x s = Some s1" "performs m2j hz xs s1 = Some s'"
    by (auto split: option.splits)
  have "s_ut s1 = s_ut s"
    using s1(1) Cons.prems(2) by (auto simp: worker_move_def split: option.splits prod.splits if_splits)
  with Cons.IH [OF s1(2)] Cons.prems(2) show ?case by simp
qed simp

text \<open>A driver that is being removed while a thread is about to queue its task.\<close>

definition inflight_run :: "action list" where
  "inflight_run = A_Call 0 (U_Alloc demo_desc) # replicate 5 (A_User 0) @ [A_Remove]"

lemma good_env_threads: "pe_krun good_env a \<noteq> NULL"
  by (simp add: good_env_def)

lemma start_sys_shut: "shut_init start_sys"
  using start_sys_init good_env_facts(1) good_env_threads good_env_probe probe_outcome(2) [of good_env 0]
  unfolding shut_init_def good_dev_def by blast

lemma inflight_reached:
  obtains s where "reach shut_init (sys_step m2j hz) s" "s_sp s = S_Test 0" "s_ut s 0 = U_Enqueue 0 demo_desc"
proof -
  have "\<exists>s. performs m2j hz inflight_run start_sys = Some s \<and> s_sp s = S_Test 0 \<and> s_ut s 0 = U_Enqueue 0 demo_desc"
    by (simp add: inflight_run_def user_move_def boot_def call_entry_def demo_desc_facts
        eval_nat_numeral task_alloc_def good_dev_parts list_defs nth_upd_task fill_task_def NUM_ACCELERATORS_def)
  with that reach_steps [OF performs_steps reach_init] start_sys_shut show ?thesis by metis
qed

section \<open>Properties of removal\<close>

text \<open>C11. When \<open>accel_stop_workers\<close> has returned in remove, every worker has returned from its thread
  function, its flag is cleared, its thread pointer is \<open>NULL\<close> and no task is active; this stays
  so in every continuation, in which the queues only grow: a task on a queue then is never taken.\<close>

theorem remove_joins_workers:
  assumes "reach shut_init (sys_step m2j hz) s" and "s_sp s = S_Done" and "steps (sys_step m2j hz) s s'"
    and "a < NUM_ACCELERATORS"
  shows "s_wk s' a = W_Exit \<and> a_running (accelerators (s_dev s') ! a) = 0 \<and>
    a_worker_thread (accelerators (s_dev s') ! a) = NULL \<and> a_active_tasks (accelerators (s_dev s') ! a) = [] \<and>
    (\<exists>new. a_task_queue (accelerators (s_dev s') ! a) = a_task_queue (accelerators (s_dev s) ! a) @ new)"
proof -
  have inv: "shut_inv s" by (rule shut.inv_reach [OF assms(1)])
  note q = queue_grows [OF assms(3) inv assms(2,4)]
  then have w: "worker_joined (s_wk s' a) (accelerators (s_dev s') ! a)"
    using shut_doneD [OF shut.inv_steps [OF assms(3) inv] _ assms(4)] by blast
  obtain loc where "sim_rel s' loc"
    using running_sim [OF reach_steps [OF assms(3) shut_running [OF assms(1)]]] .
  then have "a_active_tasks (accelerators (s_dev s') ! a) = []"
    using w assms(4) by (simp add: sim_rel_def sim_parts_def accels_ok_def worker_joined_def)
  with w q show ?thesis by (simp add: worker_joined_def)
qed

theorem remove_joins_workers_witness:
  "\<exists>s. reach shut_init (sys_step (\<lambda>_. 0) 250) s \<and> s_sp s = S_Done \<and> s_ut s 0 = U_Enqueue 0 demo_desc \<and>
     s_wk s 1 = W_Exit \<and> a_worker_thread (accelerators (s_dev s) ! 1) = NULL"
proof -
  obtain s where s: "reach shut_init (sys_step (\<lambda>_. 0) 250) s" "s_sp s = S_Test 0" "s_ut s 0 = U_Enqueue 0 demo_desc"
    by (rule inflight_reached)
  from remove_completes [OF shut.inv_reach [OF s(1)], of "\<lambda>_. 0" 250] s(2) obtain xs s' where
    x: "set xs \<subseteq> insert A_Stop (range A_Worker)" "performs (\<lambda>_. 0) 250 xs s = Some s'" "s_sp s' = S_Done" by auto
  have "reach shut_init (sys_step (\<lambda>_. 0) 250) s'" by (rule reach_steps [OF performs_steps [OF x(2)] s(1)])
  moreover have "(1 :: nat) < NUM_ACCELERATORS" by (simp add: NUM_ACCELERATORS_def)
  ultimately show ?thesis
    using remove_joins_workers [OF _ x(3) steps_refl, of "\<lambda>_. 0" 250 1] shut_actions_users [OF x(2,1)] s(3) x(3) by auto
qed

text \<open>C10. Remove terminates: once it has begun, no step of any thread takes it further from its end (as
  \<open>remove_rank\<close> measures it, at most 61), and either its own next step is possible and brings it
  closer, or it waits for a worker that has not returned, whose next step brings it closer. So
  it returns whenever the stopping thread and the workers keep running, and in particular some
  61 steps of theirs complete it.\<close>

theorem remove_terminates:
  assumes "reach shut_init (sys_step m2j hz) s" and "s_sp s \<noteq> S_Idle"
  shows "rank_of s \<le> 61 \<and> (\<forall>s'. sys_step m2j hz s s' \<longrightarrow> rank_of s' \<le> rank_of s) \<and>
    (s_sp s \<noteq> S_Done \<longrightarrow> (\<exists>s'. perform m2j hz A_Stop s = Some s' \<and> rank_of s' < rank_of s) \<or>
      (\<exists>a < NUM_ACCELERATORS. s_sp s = S_Join a \<and> s_wk s a \<noteq> W_Exit \<and>
         rank_of (worker_move m2j a s) < rank_of s)) \<and>
    (\<exists>xs s'. length xs \<le> 61 \<and> performs m2j hz xs s = Some s' \<and> s_sp s' = S_Done)"
proof -
  have inv: "shut_inv s" by (rule shut.inv_reach [OF assms(1)])
  then have "rank_of s \<le> 61"
    using assms(2) worker_rank_le [of "s_wk s (joined (s_sp s))"]
    by (cases "s_sp s") (auto simp: shut_inv_def NUM_ACCELERATORS_def)
  with rank_step [OF _ inv] remove_enabled [OF inv assms(2)] remove_completes [OF inv assms(2)] show ?thesis
    by (meson le_trans)
qed

theorem remove_terminates_witness:
  "\<exists>s xs s'. s_ut s 0 = U_Enqueue 0 demo_desc \<and> performs (\<lambda>_. 0) 250 xs s = Some s' \<and> s_sp s' = S_Done"
proof -
  obtain s where "reach shut_init (sys_step (\<lambda>_. 0) 250) s" "s_sp s = S_Test 0" "s_ut s 0 = U_Enqueue 0 demo_desc"
    by (rule inflight_reached)
  with remove_terminates [of "\<lambda>_. 0" 250 s] show ?thesis by auto
qed

text \<open>C31. Remove does not wait for system calls: whatever the threads in \<open>ioctl\<close> are doing when it
  begins, it can run to its end with none of them having moved; a thread that was about to queue
  a task then queues it on an accelerator whose worker has returned, and writes to memory that
  is released when remove returns.\<close>

theorem remove_ignores_calls:
  assumes "reach shut_init (sys_step m2j hz) s" and "s_sp s \<noteq> S_Idle" and "s_ut s u = U_Enqueue i desc"
    and "unat (td_accel_type desc) = a" and "a < NUM_ACCELERATORS"
  shows "\<exists>s' q. steps (sys_step m2j hz) s s' \<and> s_sp s' = S_Done \<and> s_ut s' = s_ut s \<and>
    s_wk (user_move hz u s') a = W_Exit \<and>
    a_task_queue (accelerators (s_dev (user_move hz u s')) ! a) = q @ [i]"
proof -
  from remove_completes [OF shut.inv_reach [OF assms(1)] assms(2), of m2j hz] obtain xs s' where
    x: "set xs \<subseteq> insert A_Stop (range A_Worker)" "performs m2j hz xs s = Some s'" "s_sp s' = S_Done" by auto
  have ut: "s_ut s' = s_ut s" by (rule shut_actions_users [OF x(2,1)])
  have inv: "shut_inv s'" by (rule shut.inv_reach [OF reach_steps [OF performs_steps [OF x(2)] assms(1)]])
  then have "s_wk s' a = W_Exit" "length (accelerators (s_dev s')) = NUM_ACCELERATORS"
    using shut_doneD [OF inv x(3) assms(5)] by (simp_all add: worker_joined_def shut_inv_def)
  with ut assms(3-5) performs_steps [OF x(2)] x(3) show ?thesis
    by (intro exI [of _ s'] exI [of _ "a_task_queue (accelerators (s_dev s') ! a)"])
      (simp add: user_move_def nth_upd_accel list_add_tail_def)
qed

theorem remove_ignores_calls_witness:
  "\<exists>s q. s_sp s = S_Done \<and> s_wk (user_move 250 0 s) 1 = W_Exit \<and>
     a_task_queue (accelerators (s_dev (user_move 250 0 s)) ! 1) = q @ [0]"
proof -
  obtain s where "reach shut_init (sys_step (\<lambda>_. 0) 250) s" "s_sp s = S_Test 0" "s_ut s 0 = U_Enqueue 0 demo_desc"
    by (rule inflight_reached)
  with remove_ignores_calls [of "\<lambda>_. 0" 250 s 0 0 demo_desc 1] show ?thesis
    by (auto simp: demo_desc_facts NUM_ACCELERATORS_def)
qed

end
