(* ===== verification/Task_Progress.thy ===== *)
theory Task_Progress
  imports Shutdown
begin

text \<open>
  What becomes of a task once it is on a queue, under every interleaving: it moves towards its end
  with the steps of its worker and is moved back by nobody, as long as the device is not being
  removed, so that on a fair run it gets there.
\<close>

section \<open>How far a task is from its end\<close>

text \<open>The worker's distance from taking the next task.\<close>

fun worker_phase :: "worker_pc \<Rightarrow> nat" where
  "worker_phase (W_SetRunning i) = 16"
| "worker_phase (W_LoadUp i) = 15"
| "worker_phase (W_Start i) = 14"
| "worker_phase (W_Spin i timeout start) = 13"
| "worker_phase (W_Msleep i timeout start) = 13"
| "worker_phase (W_Sleep10 i) = 13"
| "worker_phase (W_Stamp i) = 12"
| "worker_phase (W_SetComplete i) = 11"
| "worker_phase (W_ClearError i) = 10"
| "worker_phase (W_LoadDown i) = 9"
| "worker_phase (W_CompleteAll i) = 8"
| "worker_phase (W_Unlink i) = 7"
| "worker_phase W_Loop = 6"
| "worker_phase W_Wait = 5"
| "worker_phase W_Recheck = 4"
| "worker_phase W_Lock = 3"
| "worker_phase W_Exit = 0"

definition place_in :: "nat list \<Rightarrow> nat \<Rightarrow> nat" where
  "place_in q i = length (takeWhile (\<lambda>j. j \<noteq> i) q)"

definition rank_at :: "worker_pc \<Rightarrow> nat list \<Rightarrow> nat \<Rightarrow> nat" where
  "rank_at pc q i =
     (if i \<in> set q then 20 * (place_in q i + 1) + worker_phase pc
      else if working pc = Some i then worker_phase pc else 0)"

abbreviation task_rank :: "forge_sys \<Rightarrow> nat \<Rightarrow> nat \<Rightarrow> nat" where
  "task_rank s a i \<equiv> rank_at (s_wk s a) (a_task_queue (accelerators (s_dev s) ! a)) i"

text \<open>The worker is in its timeout loop, and the timeout has not passed.\<close>

fun in_timeout :: "u64 \<Rightarrow> worker_pc \<Rightarrow> bool" where
  "in_timeout now (W_Spin i timeout start) = (now - start < timeout)"
| "in_timeout now (W_Msleep i timeout start) = True"
| "in_timeout now _ = False"

lemma place_in_append: "i \<in> set q \<Longrightarrow> place_in (q @ r) i = place_in q i"
  by (induction q) (auto simp: place_in_def)

lemma place_in_Cons: "place_in (j # q) i = (if j = i then 0 else Suc (place_in q i))"
  by (simp add: place_in_def)

lemma worker_phase_pos: "pc \<noteq> W_Exit \<Longrightarrow> 3 \<le> worker_phase pc"
  by (cases pc) simp_all

lemma rank_at_pos: "pc \<noteq> W_Exit \<Longrightarrow> rank_at pc q i = 0 \<longleftrightarrow> i \<notin> set q \<and> working pc \<noteq> Some i"
  using worker_phase_pos [of pc] by (auto simp: rank_at_def)

lemma rank_at_append:
  assumes "working pc \<noteq> Some i \<or> i \<notin> set r" and "i \<in> set q \<or> working pc = Some i"
  shows "rank_at pc (q @ r) i = rank_at pc q i"
  using assms by (auto simp: rank_at_def place_in_append)

section \<open>A step of the worker\<close>

lemma worker_step_phase:
  assumes "accel_worker_thread m2j now stop pc (ts, ac) = (pc', (ts', ac'))" and "a_running ac \<noteq> 0"
    and "pc \<noteq> W_Exit" and "pc \<noteq> W_Lock"
  shows "a_task_queue ac' = a_task_queue ac" and "worker_phase pc' \<le> worker_phase pc"
    and "\<not> in_timeout now pc \<Longrightarrow> worker_phase pc' < worker_phase pc"
    and "working pc' = working pc \<or> worker_phase pc = 7 \<and> working pc' = None" and "pc' \<noteq> W_Exit"
  using assms by (cases pc; auto split: if_splits)+

lemma worker_step_lock:
  assumes "accel_worker_thread m2j now stop W_Lock (ts, ac) = (pc', (ts', ac'))" and "a_task_queue ac = j # q"
  shows "pc' = W_SetRunning j" and "a_task_queue ac' = q"
  using assms by (auto simp: list_defs)

lemma worker_step_rank:
  assumes w: "accel_worker_thread m2j now stop pc (ts, ac) = (pc', (ts', ac'))" and run: "a_running ac \<noteq> 0"
    and ex: "pc \<noteq> W_Exit" and d: "distinct (a_task_queue ac)" and i: "rank_at pc (a_task_queue ac) i > 0"
  shows "rank_at pc' (a_task_queue ac') i \<le> rank_at pc (a_task_queue ac) i"
    and "\<not> in_timeout now pc \<or> worker_phase pc' < worker_phase pc \<Longrightarrow>
      rank_at pc' (a_task_queue ac') i < rank_at pc (a_task_queue ac) i"
proof -
  have "rank_at pc' (a_task_queue ac') i \<le> rank_at pc (a_task_queue ac) i \<and>
    (\<not> in_timeout now pc \<or> worker_phase pc' < worker_phase pc \<longrightarrow>
      rank_at pc' (a_task_queue ac') i < rank_at pc (a_task_queue ac) i)"
  proof (cases "pc = W_Lock")
    case True
    with i have "i \<in> set (a_task_queue ac)" by (auto simp: rank_at_def split: if_splits)
    then obtain j q where q: "a_task_queue ac = j # q" by (cases "a_task_queue ac") auto
    from worker_step_lock [OF w [unfolded True] q] \<open>i \<in> set (a_task_queue ac)\<close> True q d show ?thesis
      by (auto simp: rank_at_def place_in_Cons)
  next
    case False
    note st = worker_step_phase [OF w run ex False]
    from st(2-4) i show ?thesis unfolding st(1) by (auto simp: rank_at_def split: if_splits)
  qed
  then show "rank_at pc' (a_task_queue ac') i \<le> rank_at pc (a_task_queue ac) i"
    and "\<not> in_timeout now pc \<or> worker_phase pc' < worker_phase pc \<Longrightarrow>
      rank_at pc' (a_task_queue ac') i < rank_at pc (a_task_queue ac) i" by simp_all
qed

section \<open>Workers run while the device is not being removed\<close>

definition alive :: "forge_sys \<Rightarrow> bool" where
  "alive s \<longleftrightarrow> length (accelerators (s_dev s)) = NUM_ACCELERATORS \<and>
     (s_sp s = S_Idle \<longrightarrow> (\<forall>a < NUM_ACCELERATORS. s_wk s a \<noteq> W_Exit \<and> a_running (accelerators (s_dev s) ! a) \<noteq> 0))"

lemma alive_init: "sys_init s \<Longrightarrow> alive s"
  using init_accels_nth by (auto simp: sys_init_def alive_def boot_def probed_accels)

lemma worker_not_exit:
  "accel_worker_thread m2j now stop pc (ts, ac) = (pc', (ts', ac')) \<Longrightarrow> pc \<noteq> W_Exit \<Longrightarrow> a_running ac \<noteq> 0 \<Longrightarrow> pc' \<noteq> W_Exit"
  by (cases pc) (auto simp: list_defs split: if_splits list.splits)

lemma alive_step:
  assumes "sys_step m2j hz s s'" and "alive s"
  shows "alive s'"
  using assms
proof (induction rule: sys_step.induct)
  case (step_worker b s)
  obtain pc ts ac where w: "accel_worker_thread m2j (s_now s) (s_stop s b) (s_wk s b)
      (tasks (s_dev s), accelerators (s_dev s) ! b) = (pc, (ts, ac))"
    and m: "worker_move m2j b s = s\<lparr>s_wk := (s_wk s)(b := pc),
       s_dev := (s_dev s)\<lparr>tasks := ts, accelerators := (accelerators (s_dev s))[b := ac]\<rparr>\<rparr>"
    by (rule worker_move_cases)
  from worker_not_exit [OF w] accel_restD(1) [OF worker_accel_rest [OF w]] step_worker show ?case
    by (auto simp: m alive_def nth_update_at)
next
  case (step_user s u)
  obtain pc d where w: "ioctl_thread hz (s_now s) (s_ut s u) (s_dev s) = (pc, d)"
    and m: "user_move hz u s = s\<lparr>s_ut := (s_ut s)(u := pc), s_dev := d\<rparr>" by (rule user_move_cases)
  from user_accel_rest(1) [OF w] accel_restD(1) [OF user_accel_rest(2) [OF w]] step_user show ?case
    by (simp add: m alive_def)
next
  case (step_stop s pc st as)
  then have "s_sp s \<noteq> S_Idle" by auto
  moreover have "pc \<noteq> S_Idle" using step_stop(1) by (cases "s_sp s") (auto split: if_splits)
  moreover have "length as = length (accelerators (s_dev s))" using stop_thread_accel [OF step_stop(1)] by auto
  ultimately show ?case using step_stop(2) by (simp add: alive_def)
qed (simp_all add: alive_def)

interpretation live: invariant_system sys_init "sys_step m2j hz" alive for m2j hz
  by unfold_locales (auto intro: alive_init alive_step)

section \<open>Where a queued task goes\<close>

lemma rank_0_iff:
  assumes "sim_rel s loc" and "a < NUM_ACCELERATORS" and "i < MAX_TASKS" and "s_wk s a \<noteq> W_Exit"
  shows "task_rank s a i = 0 \<longleftrightarrow> loc i \<noteq> P_Queued a \<and> loc i \<noteq> P_Active a"
  using rank_at_pos [OF assms(4)] located_iff [OF sim_rel_located [OF assms(1)] assms(3)] assms(2)
  by auto

lemma rank_step_users:
  assumes r: "sim_rel s loc" and a: "a < NUM_ACCELERATORS" and pos: "task_rank s a i > 0"
    and q: "a_task_queue (accelerators (s_dev s') ! a) = a_task_queue (accelerators (s_dev s) ! a) @ new"
    and new: "\<forall>j \<in> set new. \<exists>u. holder (s_ut s u) = Some j" and wk: "s_wk s' a = s_wk s a"
  shows "task_rank s' a i = task_rank s a i"
proof -
  have "i \<notin> set new" if "working (s_wk s a) = Some i"
    using that new a located_at(2) [OF sim_rel_located [OF r], of i "P_Active a"]
      located_at(2) [OF sim_rel_located [OF r], of i "P_Held u" for u] by fastforce
  then show ?thesis
    unfolding q wk using pos by (intro rank_at_append) (auto simp: rank_at_def split: if_splits)
qed

lemma user_step_queue:
  assumes "ioctl_thread hz now pc d = (pc', d')" and "a < length (accelerators d)"
  obtains new where "a_task_queue (accelerators d' ! a) = a_task_queue (accelerators d ! a) @ new"
    "\<forall>j \<in> set new. holder pc = Some j"
proof (cases "accelerators d' = accelerators d")
  case True
  then show ?thesis using that [of "[]"] by simp
next
  case False
  with ioctl_queue_step [OF assms(1)] obtain b i where "holder pc = Some i"
    "accelerators d' = upd_accel b (\<lambda>ac. ac\<lparr>a_task_queue := a_task_queue ac @ [i]\<rparr>) (accelerators d)" by blast
  then show ?thesis
    using that [of "if b = a then [i] else []"] assms(2) by (auto simp: upd_accel_def nth_update_at split: if_splits)
qed

text \<open>No step of any thread moves a task back.\<close>

lemma rank_no_increase:
  assumes "sys_step m2j hz s s'" and "sim_rel s loc" and "alive s" and "s_sp s' = S_Idle" and "a < NUM_ACCELERATORS"
    and "task_rank s a i > 0"
  shows "task_rank s' a i \<le> task_rank s a i"
  using assms
proof (induction rule: sys_step.induct)
  case (step_worker b s)
  obtain pc ts ac where w: "accel_worker_thread m2j (s_now s) (s_stop s b) (s_wk s b)
      (tasks (s_dev s), accelerators (s_dev s) ! b) = (pc, (ts, ac))"
    and m: "worker_move m2j b s = s\<lparr>s_wk := (s_wk s)(b := pc),
       s_dev := (s_dev s)\<lparr>tasks := ts, accelerators := (accelerators (s_dev s))[b := ac]\<rparr>\<rparr>"
    by (rule worker_move_cases)
  have l: "length (accelerators (s_dev s)) = NUM_ACCELERATORS" using step_worker(3) by (simp add: alive_def)
  show ?case
  proof (cases "b = a")
    case True
    have "s_sp s = S_Idle" using step_worker(4) by (simp add: m)
    with step_worker(3,5) have "a_running (accelerators (s_dev s) ! a) \<noteq> 0" "s_wk s a \<noteq> W_Exit" by (simp_all add: alive_def)
    moreover have "distinct (a_task_queue (accelerators (s_dev s) ! a))"
      using sim_rel_located [OF step_worker(2)] step_worker(5) by (simp add: located_def)
    ultimately show ?thesis
      using worker_step_rank(1) [OF w [unfolded True]] step_worker(5,6) l True unfolding m by simp
  next
    case False
    then show ?thesis using step_worker(5) l by (simp add: m)
  qed
next
  case (step_user s u)
  obtain pc d where w: "ioctl_thread hz (s_now s) (s_ut s u) (s_dev s) = (pc, d)"
    and m: "user_move hz u s = s\<lparr>s_ut := (s_ut s)(u := pc), s_dev := d\<rparr>" by (rule user_move_cases)
  have "a < length (accelerators (s_dev s))" using step_user(2,4) by (simp add: alive_def)
  from user_step_queue [OF w this] obtain new where
    "a_task_queue (accelerators d ! a) = a_task_queue (accelerators (s_dev s) ! a) @ new"
    "\<forall>j \<in> set new. holder (s_ut s u) = Some j" by blast
  then have "task_rank (user_move hz u s) a i = task_rank s a i"
    by (intro rank_step_users [OF step_user(1,4,5)]) (auto simp: m)
  then show ?case by simp
next
  case (step_stop s pc st as)
  then have "pc \<noteq> S_Idle" by (cases "s_sp s") (auto split: if_splits)
  with step_stop show ?case by simp
qed simp_all

lemma rank_decreases:
  assumes "sim_rel s loc" and "alive s" and "s_sp s = S_Idle" and "a < NUM_ACCELERATORS"
    and "task_rank s a i > 0"
    and "\<not> in_timeout (s_now s) (s_wk s a) \<or> worker_phase (s_wk (worker_move m2j a s) a) < worker_phase (s_wk s a)"
  shows "task_rank (worker_move m2j a s) a i < task_rank s a i"
proof -
  obtain pc ts ac where w: "accel_worker_thread m2j (s_now s) (s_stop s a) (s_wk s a)
      (tasks (s_dev s), accelerators (s_dev s) ! a) = (pc, (ts, ac))"
    and m: "worker_move m2j a s = s\<lparr>s_wk := (s_wk s)(a := pc),
       s_dev := (s_dev s)\<lparr>tasks := ts, accelerators := (accelerators (s_dev s))[a := ac]\<rparr>\<rparr>"
    by (rule worker_move_cases)
  have "a_running (accelerators (s_dev s) ! a) \<noteq> 0" "s_wk s a \<noteq> W_Exit" "a < length (accelerators (s_dev s))"
    using assms(2-4) by (simp_all add: alive_def)
  moreover have "distinct (a_task_queue (accelerators (s_dev s) ! a))"
    using sim_rel_located [OF assms(1)] assms(4) by (simp add: located_def)
  ultimately show ?thesis using worker_step_rank(2) [OF w] assms(5,6) by (simp add: m)
qed

section \<open>A fair run\<close>

text \<open>
  A run in which the device is not removed, the worker of accelerator \<open>a\<close> moves again and again,
  and the clock passes every timeout the worker waits for, long enough for two moves of the worker:
  one of the two is then its test, since it alternates between the test and \<open>msleep(1)\<close>. The clock
  need not stay past the timeout afterwards: jiffies wrap around.
\<close>

definition fair_run :: "(u32 \<Rightarrow> u64) \<Rightarrow> u64 \<Rightarrow> nat \<Rightarrow> (nat \<Rightarrow> forge_sys) \<Rightarrow> bool" where
  "fair_run m2j hz a r \<longleftrightarrow>
     (\<forall>n. sys_step m2j hz (r n) (r (Suc n))) \<and> (\<forall>n. s_sp (r n) = S_Idle) \<and>
     (\<forall>n. \<exists>m \<ge> n. r (Suc m) = worker_move m2j a (r m)) \<and>
     (\<forall>n j t st. s_wk (r n) a \<in> {W_Spin j t st, W_Msleep j t st} \<longrightarrow>
       (\<exists>k \<ge> n. \<exists>l > k. r (Suc k) = worker_move m2j a (r k) \<and> r (Suc l) = worker_move m2j a (r l) \<and>
          (\<forall>m \<in> {k..l}. t \<le> s_now (r m) - st)))"

lemma fair_runD:
  assumes "fair_run m2j hz a r"
  shows "sys_step m2j hz (r n) (r (Suc n))" and "s_sp (r n) = S_Idle"
    and "\<exists>m \<ge> n. r (Suc m) = worker_move m2j a (r m)"
    and "s_wk (r n) a \<in> {W_Spin j t st, W_Msleep j t st} \<Longrightarrow>
      \<exists>k \<ge> n. \<exists>l > k. r (Suc k) = worker_move m2j a (r k) \<and> r (Suc l) = worker_move m2j a (r l) \<and>
        (\<forall>m \<in> {k..l}. t \<le> s_now (r m) - st)"
  using assms unfolding fair_run_def by blast+

lemma worker_moves_alone: "sys_step m2j hz s s' \<Longrightarrow> s_wk s' a = s_wk s a \<or> s' = worker_move m2j a s"
proof (induction rule: sys_step.induct)
  case (step_worker b s)
  then show ?case by (cases "b = a") (simp_all add: worker_move_def split: prod.splits)
next
  case (step_user s u)
  then show ?case by (simp add: user_move_def split: prod.splits)
qed simp_all

text \<open>In its timeout loop the worker alternates between the test and the sleep, until it leaves.\<close>

lemma timeout_loop:
  assumes "s_wk s a \<in> {W_Spin j t st, W_Msleep j t st}"
  shows "s_wk (worker_move m2j a s) a \<in> {W_Spin j t st, W_Msleep j t st, W_Stamp j}"
    and "s_wk s a = W_Msleep j t st \<Longrightarrow> s_wk (worker_move m2j a s) a \<noteq> W_Msleep j t st"
  using assms by (auto simp: worker_move_def split: if_splits)

lemma in_timeoutD: "in_timeout now pc \<Longrightarrow> \<exists>j t st. pc \<in> {W_Spin j t st, W_Msleep j t st}"
  by (cases "(now, pc)" rule: in_timeout.cases) simp_all

lemma nat_settles:
  fixes f :: "nat \<Rightarrow> nat"
  assumes "\<And>n. f (Suc n) \<le> f n"
  obtains N where "\<And>n. N \<le> n \<Longrightarrow> f n = f N"
proof -
  obtain N where "\<And>n. f N \<le> f n" using ex_has_least_nat [of "\<lambda>_. True" 0 f] by auto
  moreover have "f n \<le> f N" if "N \<le> n" for n using lift_Suc_antimono_le [of f] assms that by blast
  ultimately show ?thesis using that by (meson le_antisym)
qed

text \<open>
  A worker that is scheduled again and again, with a clock that passes each of its timeouts, is
  again and again outside an unexpired timeout when it moves.
\<close>

lemma fair_progress:
  assumes run: "fair_run m2j hz a r"
  shows "\<exists>m \<ge> n. r (Suc m) = worker_move m2j a (r m) \<and>
    (\<not> in_timeout (s_now (r m)) (s_wk (r m) a) \<or> worker_phase (s_wk (r (Suc m)) a) < worker_phase (s_wk (r m) a))"
proof (rule ccontr)
  note moves = fair_runD(1) [OF run] and fair = fair_runD(3) [OF run]
  assume none: "\<not> ?thesis"
  then have stuck: "in_timeout (s_now (r m)) (s_wk (r m) a)"
      "\<not> worker_phase (s_wk (r (Suc m)) a) < worker_phase (s_wk (r m) a)"
    if "n \<le> m" "r (Suc m) = worker_move m2j a (r m)" for m
    using that by blast+
  obtain m0 where m0: "m0 \<ge> n" "r (Suc m0) = worker_move m2j a (r m0)" using fair by blast
  obtain j t st where pc0: "s_wk (r m0) a \<in> {W_Spin j t st, W_Msleep j t st}"
    using in_timeoutD [OF stuck(1) [OF m0]] by blast
  have stays: "s_wk (r k) a \<in> {W_Spin j t st, W_Msleep j t st}" if "m0 \<le> k" for k
    using that
  proof (induction k rule: dec_induct)
    case base
    show ?case by (rule pc0)
  next
    case (step k)
    show ?case
    proof (cases "r (Suc k) = worker_move m2j a (r k)")
      case True
      then show ?thesis
        using timeout_loop(1) [OF step.IH, of m2j] stuck(2) [of k] step.IH step.hyps m0(1) by auto
    next
      case False
      then show ?thesis using worker_moves_alone [OF moves [of k], of a] step.IH by simp
    qed
  qed
  obtain k l where k: "m0 \<le> k" "k < l" and mv: "r (Suc k) = worker_move m2j a (r k)" "r (Suc l) = worker_move m2j a (r l)"
    and past: "\<And>m. m \<in> {k..l} \<Longrightarrow> t \<le> s_now (r m) - st"
    using fair_runD(4) [OF run pc0] by blast
  have asleep: "s_wk (r m) a = W_Msleep j t st" if "m \<in> {k..l}" "r (Suc m) = worker_move m2j a (r m)" for m
  proof -
    have "n \<le> m" "m0 \<le> m" "\<not> s_now (r m) - st < t" using that(1) past [OF that(1)] k m0(1) by (auto simp: not_less)
    with stuck(1) [OF _ that(2)] stays [of m] show ?thesis by auto
  qed
  have sleeps: "s_wk (r m) a = W_Spin j t st" if "Suc k \<le> m" "m \<le> l" for m
    using that
  proof (induction m rule: dec_induct)
    case base
    have "m0 \<le> Suc k" using k(1) by simp
    with timeout_loop(2) [of "r k" a j t st m2j] asleep [of k] stays [of "Suc k"] k(2) mv(1) show ?case by auto
  next
    case (step m)
    have "r (Suc m) \<noteq> worker_move m2j a (r m)" using asleep [of m] step.IH step.hyps step.prems by auto
    then show ?case using worker_moves_alone [OF moves [of m], of a] step.IH step.prems by simp
  qed
  from asleep [of l] sleeps [of l] k(2) mv(2) show False by auto
qed

text \<open>A task that is on a queue ends up retired.\<close>

lemma run_steps:
  assumes "fair_run m2j hz a r" and "m \<le> n"
  shows "steps (sys_step m2j hz) (r m) (r n)"
  using assms(2)
proof (induction n rule: dec_induct)
  case base
  show ?case by (rule steps_refl)
next
  case (step n)
  from steps_step [OF step.IH fair_runD(1) [OF assms(1)]] show ?case .
qed

lemma queued_path:
  assumes "running_system m2j hz s" and "i \<in> set (a_task_queue (accelerators (s_dev s) ! a))"
    and "a < NUM_ACCELERATORS" and "steps (sys_step m2j hz) s s'"
  obtains loc' where "sim_rel s' loc'" and "i < MAX_TASKS" and "loc' i \<in> {P_Queued a, P_Active a, P_Retired}"
proof -
  obtain loc where loc: "sim_rel s loc" using running_sim [OF assms(1)] .
  from located_at [OF sim_rel_located [OF loc], of i "P_Queued a"] assms(2,3)
  have i: "i < MAX_TASKS" "loc i = P_Queued a" by simp_all
  from life.sim_steps [OF assms(4) loc] obtain loc' where "steps life_step loc loc'" "sim_rel s' loc'" by blast
  with life_steps_stays [of loc loc' i a] i that show ?thesis by simp
qed

lemma ranks_fall_to_0:
  assumes fair: "fair_run m2j hz a r" and run: "\<And>n. running_system m2j hz (r n)" and a: "a < NUM_ACCELERATORS"
  shows "\<exists>n. task_rank (r n) a i = 0"
proof (rule ccontr)
  note moves = fair_runD(1) [OF fair] and idle = fair_runD(2) [OF fair]
  assume "\<not> ?thesis"
  then have pos: "0 < task_rank (r n) a i" for n by simp
  have sim: "\<exists>loc. sim_rel (r n) loc" for n using running_sim [OF run] by metis
  have al: "alive (r n)" for n using live.inv_reach [OF run] .
  have "task_rank (r (Suc n)) a i \<le> task_rank (r n) a i" for n
    using sim [of n] rank_no_increase [OF moves _ al idle a pos] by blast
  then obtain N where N: "\<And>n. N \<le> n \<Longrightarrow> task_rank (r n) a i = task_rank (r N) a i"
    using nat_settles [of "\<lambda>n. task_rank (r n) a i"] by blast
  obtain m where m: "m \<ge> N" "r (Suc m) = worker_move m2j a (r m)"
    "\<not> in_timeout (s_now (r m)) (s_wk (r m) a) \<or> worker_phase (s_wk (r (Suc m)) a) < worker_phase (s_wk (r m) a)"
    using fair_progress [OF fair, of N] by blast
  have "task_rank (r (Suc m)) a i < task_rank (r m) a i"
    using sim [of m] rank_decreases [OF _ al idle a pos, of m _ m2j] m(2,3) by auto
  with N [of m] N [of "Suc m"] m(1) show False by simp
qed

text \<open>C12. A queued task is finished: on every run in which the device is not being removed, the worker of
  its accelerator is scheduled again and again and the clock passes the timeouts, whatever the
  other workers and any number of system calls do in between, a task on a work queue comes to a
  point from which on its state is complete or cancelled and its completion is signalled. The
  tasks ahead of it, submissions behind it and cancellations do not keep it from that.\<close>

theorem queued_task_finishes:
  assumes "running_system m2j hz (r 0)" and "fair_run m2j hz a r" and "a < NUM_ACCELERATORS"
    and "i \<in> set (a_task_queue (accelerators (s_dev (r 0)) ! a))"
  shows "\<exists>n. \<forall>m \<ge> n. t_state (tasks (s_dev (r m)) ! i) \<in> {TASK_STATE_COMPLETE, TASK_STATE_CANCELLED} \<and>
    t_done (tasks (s_dev (r m)) ! i)"
proof -
  note path = run_steps [OF assms(2)]
  have run: "running_system m2j hz (r n)" for n using reach_steps [OF path assms(1)] by simp
  obtain n where n: "task_rank (r n) a i = 0" using ranks_fall_to_0 [OF assms(2) run assms(3)] by blast
  obtain loc where loc: "sim_rel (r n) loc" "i < MAX_TASKS" "loc i \<in> {P_Queued a, P_Active a, P_Retired}"
    using queued_path [OF assms(1,4,3) path [of 0 n]] by blast
  have "s_wk (r n) a \<noteq> W_Exit"
    using live.inv_reach [OF run] assms(3) fair_runD(2) [OF assms(2)] by (simp add: alive_def)
  with rank_0_iff [OF loc(1) assms(3) loc(2)] loc(3) n have ret: "loc i = P_Retired" by auto
  have "t_state (tasks (s_dev (r m)) ! i) \<in> {TASK_STATE_COMPLETE, TASK_STATE_CANCELLED} \<and>
      t_done (tasks (s_dev (r m)) ! i)" if m: "n \<le> m" for m
  proof -
    obtain loc' where l: "steps life_step loc loc'" "sim_rel (r m) loc'"
      using life.sim_steps [OF path [OF m] loc(1)] by blast
    have "loc' i = P_Retired" using life_steps_rank [OF l(1), of i] ret by (cases "loc' i") simp_all
    with retired_facts [OF l(2) loc(2)] show ?thesis by simp
  qed
  then show ?thesis by blast
qed

text \<open>
  The run of the witness: one worker and a clock that ticks before each of its steps, for ever,
  wrapping around again and again. The task has a timeout of five jiffies.
\<close>

primrec ticking :: "(u32 \<Rightarrow> u64) \<Rightarrow> nat \<Rightarrow> forge_sys \<Rightarrow> nat \<Rightarrow> forge_sys" where
  "ticking m2j a s 0 = s"
| "ticking m2j a s (Suc n) =
     (let s' = ticking m2j a s n in if even n then s'\<lparr>s_now := s_now s' + 1\<rparr> else worker_move m2j a s')"

definition loop_timeouts :: "(u32 \<Rightarrow> u64) \<Rightarrow> nat \<Rightarrow> forge_sys \<Rightarrow> bool" where
  "loop_timeouts m2j a s \<longleftrightarrow> s_sp s = S_Idle \<and>
     (\<forall>j t st. s_wk s a \<in> {W_Spin j t st, W_Msleep j t st} \<longrightarrow> (\<exists>ms. t = m2j ms))"

lemma loop_timeouts_move:
  assumes "loop_timeouts m2j a s"
  shows "loop_timeouts m2j a (worker_move m2j a s)"
proof -
  obtain pc ts ac where w: "accel_worker_thread m2j (s_now s) (s_stop s a) (s_wk s a)
      (tasks (s_dev s), accelerators (s_dev s) ! a) = (pc, (ts, ac))"
    and m: "worker_move m2j a s = s\<lparr>s_wk := (s_wk s)(a := pc),
       s_dev := (s_dev s)\<lparr>tasks := ts, accelerators := (accelerators (s_dev s))[a := ac]\<rparr>\<rparr>"
    by (rule worker_move_cases)
  have "\<forall>j t st. pc \<in> {W_Spin j t st, W_Msleep j t st} \<longrightarrow> (\<exists>ms. t = m2j ms)"
    using w assms by (cases "s_wk s a") (auto simp: loop_timeouts_def list_defs split: if_splits list.splits)
  then show ?thesis using assms by (simp add: loop_timeouts_def m)
qed

lemma ticking_timeouts: "loop_timeouts m2j a s \<Longrightarrow> loop_timeouts m2j a (ticking m2j a s n)"
proof (induction n)
  case (Suc n)
  then show ?case using loop_timeouts_move [of m2j a "ticking m2j a s n"] by (simp add: Let_def) (simp add: loop_timeouts_def)
qed simp

lemma worker_move_now [simp]: "s_now (worker_move m2j a s) = s_now s"
  by (simp add: worker_move_def split: prod.splits)

lemma ticking_now: "s_now (ticking m2j a s n) = s_now s + of_nat (Suc n div 2)"
proof (induction n)
  case (Suc n)
  then show ?case by (cases "even n") (auto simp: Let_def elim!: evenE oddE)
qed simp

lemma ticking_moves: "odd n \<Longrightarrow> ticking m2j a s (Suc n) = worker_move m2j a (ticking m2j a s n)"
  by simp

lemma plus_one_le: "t \<noteq> - 1 \<Longrightarrow> t \<le> t + (1 :: u64)"
proof -
  assume "t \<noteq> - 1"
  then have "1 + t \<noteq> 0" by (metis add_eq_0_iff)
  then show ?thesis by (simp add: word_le_nat_alt unatSuc add.commute [of t])
qed

lemma ticking_passes:
  assumes "t \<noteq> - 1"
  shows "\<exists>k \<ge> n. \<exists>l > k. ticking m2j a s (Suc k) = worker_move m2j a (ticking m2j a s k) \<and>
    ticking m2j a s (Suc l) = worker_move m2j a (ticking m2j a s l) \<and> (\<forall>m \<in> {k..l}. t \<le> s_now (ticking m2j a s m) - st)"
proof -
  define M where "M = n + unat (t + st - s_now s - 1 - of_nat n)"
  have "of_nat M = t + st - s_now s - 1" by (simp add: M_def)
  then have M: "s_now s + of_nat (Suc M) - st = t" "s_now s + of_nat (Suc (Suc M)) - st = t + 1"
    by (simp_all add: algebra_simps)
  have "t \<le> t + 1" using assms by (simp add: plus_one_le)
  moreover have "Suc m div 2 \<in> {Suc M, Suc (Suc M)}" if "m \<in> {2 * M + 1..2 * M + 3}" for m using that by auto
  ultimately have "\<forall>m \<in> {2 * M + 1..2 * M + 3}. t \<le> s_now (ticking m2j a s m) - st"
    unfolding ticking_now using M by (metis insert_iff order_refl singletonD)
  moreover have "n \<le> 2 * M + 1" by (simp add: M_def)
  ultimately show ?thesis
    using ticking_moves [of "2 * M + 1" m2j a s] ticking_moves [of "2 * M + 3" m2j a s]
    by (intro exI [of _ "2 * M + 1"] conjI exI [of _ "2 * M + 3"]) simp_all
qed

lemma ticking_fair:
  assumes "loop_timeouts m2j a s" and "\<And>ms. m2j ms \<noteq> - 1" and "a < NUM_ACCELERATORS"
  shows "fair_run m2j hz a (ticking m2j a s)"
  unfolding fair_run_def
proof (intro conjI allI impI)
  fix n
  show "sys_step m2j hz (ticking m2j a s n) (ticking m2j a s (Suc n))"
    using step_worker [OF assms(3)] step_clock by (simp add: Let_def)
  show "s_sp (ticking m2j a s n) = S_Idle"
    using ticking_timeouts [OF assms(1)] by (simp add: loop_timeouts_def)
  show "\<exists>m \<ge> n. ticking m2j a s (Suc m) = worker_move m2j a (ticking m2j a s m)"
    by (rule exI [of _ "2 * n + 1"]) simp
next
  fix n j t st
  assume "s_wk (ticking m2j a s n) a \<in> {W_Spin j t st, W_Msleep j t st}"
  with ticking_timeouts [OF assms(1), of n] obtain ms where "t = m2j ms" unfolding loop_timeouts_def by blast
  then have "t \<noteq> - 1" using assms(2) by simp
  then show "\<exists>k \<ge> n. \<exists>l > k. ticking m2j a s (Suc k) = worker_move m2j a (ticking m2j a s k) \<and>
    ticking m2j a s (Suc l) = worker_move m2j a (ticking m2j a s l) \<and> (\<forall>m \<in> {k..l}. t \<le> s_now (ticking m2j a s m) - st)"
    by (rule ticking_passes)
qed

definition timed_sys :: forge_sys where
  "timed_sys = demo_sys W_Loop (U_CopyOut (sample_desc\<lparr>td_task_id := 1\<rparr>)) (U_Ret 0) (submitted 0 1 sample_desc)
     (demo_accel\<lparr>a_task_queue := [0]\<rparr>)"

theorem queued_task_finishes_witness:
  "\<exists>n. t_timeout_ms (tasks (s_dev timed_sys) ! 0) = 5 \<and>
    t_state (tasks (s_dev (ticking unsigned 1 timed_sys n)) ! 0) \<in> {TASK_STATE_COMPLETE, TASK_STATE_CANCELLED} \<and>
    t_done (tasks (s_dev (ticking unsigned 1 timed_sys n)) ! 0)"
proof -
  have a: "(1 :: nat) < NUM_ACCELERATORS" by (simp add: NUM_ACCELERATORS_def)
  have "running_system unsigned 250 timed_sys"
    unfolding timed_sys_def by (rule performs_running [OF queued_run]) (simp_all add: sample_desc_def check_desc_def NUM_ACCELERATORS_def)
  then have r: "running_system unsigned 250 (ticking unsigned 1 timed_sys 0)" by simp
  have q: "0 \<in> set (a_task_queue (accelerators (s_dev (ticking unsigned 1 timed_sys 0)) ! 1))"
    by (simp add: timed_sys_def)
  have "loop_timeouts unsigned 1 timed_sys" by (simp add: loop_timeouts_def timed_sys_def) (simp add: demo_sys_def boot_def)
  moreover have "(unsigned :: u32 \<Rightarrow> u64) ms \<noteq> - 1" for ms
  proof
    assume "(unsigned :: u32 \<Rightarrow> u64) ms = - 1"
    then have "bit (unsigned ms :: u64) 63" by simp
    then show False using bit_imp_le_length [of ms 63] by (simp add: bit_unsigned_iff)
  qed
  ultimately have "fair_run unsigned 250 1 (ticking unsigned 1 timed_sys)" using ticking_fair a by blast
  from queued_task_finishes [OF r this a q] have "\<exists>n.
    t_state (tasks (s_dev (ticking unsigned 1 timed_sys n)) ! 0) \<in> {TASK_STATE_COMPLETE, TASK_STATE_CANCELLED} \<and>
    t_done (tasks (s_dev (ticking unsigned 1 timed_sys n)) ! 0)" by blast
  then show ?thesis by (simp add: timed_sys_def submitted_def fill_task_def sample_desc_def)
qed

end
