(* ===== verification/Time_Stamps.thy ===== *)
theory Time_Stamps
  imports Task_Progress
begin

text \<open>
  The two time stamps of a task and what a query makes of them: \<open>task_query\<close>
  (\<^verbatim>\<open>src/task_manager.c\<close>) reports the difference whether or not the worker
  (\<^verbatim>\<open>src/accel_manager.c\<close>) has come to stamp the completion.
\<close>

section \<open>Slots whose completion has not been stamped\<close>

text \<open>The worker has not come to the line that stamps its task.\<close>

definition before_stamp :: "worker_pc \<Rightarrow> bool" where
  "before_stamp pc \<longleftrightarrow> 12 \<le> worker_phase pc"

text \<open>The slots no worker has stamped since they were allocated.\<close>

definition unstamped :: "forge_sys \<Rightarrow> nat set" where
  "unstamped s = set (free_tasks (s_dev s)) \<union> {i. \<exists>u. holder (s_ut s u) = Some i} \<union>
     {i. \<exists>a < NUM_ACCELERATORS. i \<in> set (a_task_queue (accelerators (s_dev s) ! a)) \<or>
        working (s_wk s a) = Some i \<and> before_stamp (s_wk s a)}"

definition stamps_ok :: "forge_sys \<Rightarrow> bool" where
  "stamps_ok s \<longleftrightarrow> (\<forall>i \<in> unstamped s. t_complete_jiffies (tasks (s_dev s) ! i) = 0)"

lemma complete_upd:
  "(\<And>t. t_complete_jiffies (f t) = t_complete_jiffies t) \<Longrightarrow>
   t_complete_jiffies (upd_task i f ts ! j) = t_complete_jiffies (ts ! j)"
  by (cases "i < length ts") (auto simp: upd_task_def nth_list_update list_update_beyond)

lemma complete_upd_other: "i \<noteq> j \<Longrightarrow> t_complete_jiffies (upd_task i f ts ! j) = t_complete_jiffies (ts ! j)"
  by (simp add: upd_task_def)

lemma worker_stamps:
  assumes "accel_worker_thread m2j now stop pc (ts, ac) = (pc', (ts', ac'))"
  shows "pc \<noteq> W_Stamp j \<Longrightarrow> t_complete_jiffies (ts' ! j) = t_complete_jiffies (ts ! j)"
    and "set (a_task_queue ac') \<subseteq> set (a_task_queue ac)"
    and "working pc' = Some i \<Longrightarrow> before_stamp pc' \<Longrightarrow>
      i \<in> set (a_task_queue ac) \<or> working pc = Some i \<and> before_stamp pc \<and> pc \<noteq> W_Stamp i"
proof -
  show "pc \<noteq> W_Stamp j \<Longrightarrow> t_complete_jiffies (ts' ! j) = t_complete_jiffies (ts ! j)"
    using assms by (cases pc) (auto simp: list_defs complete_upd complete_upd_other split: if_splits list.splits)
  show "set (a_task_queue ac') \<subseteq> set (a_task_queue ac)"
    using assms by (cases pc) (auto simp: list_defs split: if_splits list.splits)
  show "working pc' = Some i \<Longrightarrow> before_stamp pc' \<Longrightarrow>
      i \<in> set (a_task_queue ac) \<or> working pc = Some i \<and> before_stamp pc \<and> pc \<noteq> W_Stamp i"
    using assms by (cases pc) (auto simp: list_defs before_stamp_def split: if_splits list.splits)
qed

lemma user_stamps:
  assumes "ioctl_thread hz now pc d = (pc', d')"
  shows "t_complete_jiffies (tasks d' ! j) \<in> {t_complete_jiffies (tasks d ! j), 0}"
    and "set (free_tasks d') \<subseteq> set (free_tasks d) \<union> set_option (holder pc)"
    and "set_option (holder pc') \<subseteq> set (free_tasks d) \<union> set_option (holder pc)"
proof -
  have "t_complete_jiffies (tasks d' ! j) \<in> {t_complete_jiffies (tasks d ! j), 0} \<and>
      set (free_tasks d') \<subseteq> set (free_tasks d) \<union> set_option (holder pc) \<and>
      set_option (holder pc') \<subseteq> set (free_tasks d) \<union> set_option (holder pc)"
  proof (cases "\<exists>desc. pc = U_Alloc desc")
    case True
    then show ?thesis
      using assms by (cases "free_tasks d"; cases "hd (free_tasks d) < length (tasks d)")
        (auto simp: Let_def task_alloc_def list_defs upd_task_def nth_list_update zero_task_def list_update_beyond)
  next
    case False
    with assms show ?thesis
      by (cases pc) (auto simp: task_free_def list_defs complete_upd fill_task_def split: if_splits)
  qed
  then show "t_complete_jiffies (tasks d' ! j) \<in> {t_complete_jiffies (tasks d ! j), 0}"
    and "set (free_tasks d') \<subseteq> set (free_tasks d) \<union> set_option (holder pc)"
    and "set_option (holder pc') \<subseteq> set (free_tasks d) \<union> set_option (holder pc)" by blast+
qed

lemma stamps_ok_worker:
  assumes "sim_rel s loc" and "stamps_ok s" and b: "b < NUM_ACCELERATORS"
  shows "stamps_ok (worker_move m2j b s)"
  unfolding stamps_ok_def
proof
  obtain pc ts ac where w: "accel_worker_thread m2j (s_now s) (s_stop s b) (s_wk s b)
      (tasks (s_dev s), accelerators (s_dev s) ! b) = (pc, (ts, ac))"
    and m: "worker_move m2j b s = s\<lparr>s_wk := (s_wk s)(b := pc),
       s_dev := (s_dev s)\<lparr>tasks := ts, accelerators := (accelerators (s_dev s))[b := ac]\<rparr>\<rparr>"
    by (rule worker_move_cases)
  note l = sim_rel_located [OF assms(1)] and at = located_at(2) [OF sim_rel_located [OF assms(1)]]
  have len: "length (accelerators (s_dev s)) = NUM_ACCELERATORS"
    using sim_partsD(2) [OF assms(1) [unfolded sim_rel_def]] .
  fix i assume i: "i \<in> unstamped (worker_move m2j b s)"
  have old: "i \<in> unstamped s"
    using i worker_stamps(2,3) [OF w] b len
    by (fastforce simp: unstamped_def m nth_list_update split: if_splits)
  have "s_wk s b \<noteq> W_Stamp i"
  proof
    assume st: "s_wk s b = W_Stamp i"
    then have "loc i = P_Active b" using at [of i "P_Active b"] b by simp
    moreover have "pc = W_SetComplete i" using w st by simp
    ultimately show False
      using i at [of i P_Free] at [of i "P_Held u" for u] at [of i "P_Queued a" for a] at [of i "P_Active a" for a]
        worker_stamps(2) [OF w] b len
      by (fastforce simp: unstamped_def m nth_list_update before_stamp_def split: if_splits)
  qed
  from worker_stamps(1) [OF w this] old assms(2) show "t_complete_jiffies (tasks (s_dev (worker_move m2j b s)) ! i) = 0"
    by (simp add: stamps_ok_def m)
qed

lemma stamps_ok_user:
  assumes "sim_rel s loc" and "stamps_ok s"
  shows "stamps_ok (user_move hz u s)"
  unfolding stamps_ok_def
proof
  obtain pc d where w: "ioctl_thread hz (s_now s) (s_ut s u) (s_dev s) = (pc, d)"
    and m: "user_move hz u s = s\<lparr>s_ut := (s_ut s)(u := pc), s_dev := d\<rparr>" by (rule user_move_cases)
  have len: "length (accelerators (s_dev s)) = NUM_ACCELERATORS"
    using sim_partsD(2) [OF assms(1) [unfolded sim_rel_def]] .
  have q: "a_task_queue (accelerators d ! a) = a_task_queue (accelerators (s_dev s) ! a) \<or>
      (\<exists>new. a_task_queue (accelerators d ! a) = a_task_queue (accelerators (s_dev s) ! a) @ new \<and>
        (\<forall>j \<in> set new. holder (s_ut s u) = Some j))" if "a < NUM_ACCELERATORS" for a
    using user_step_queue [OF w, of a] that len by metis
  fix i assume i: "i \<in> unstamped (user_move hz u s)"
  have "i \<in> unstamped s"
    using i user_stamps(2,3) [OF w] q
    by (fastforce simp: unstamped_def m split: if_splits)
  with user_stamps(1) [OF w, of i] assms(2) show "t_complete_jiffies (tasks (s_dev (user_move hz u s)) ! i) = 0"
    by (auto simp: stamps_ok_def m)
qed

lemma stamps_ok_step:
  assumes "sys_step m2j hz s s'" and "sim_rel s loc" and "stamps_ok s"
  shows "stamps_ok s'"
  using assms
proof (induction rule: sys_step.induct)
  case (step_worker b s)
  then show ?case by (intro stamps_ok_worker)
next
  case (step_call s u ret pc)
  then have "holder pc = None" by (cases pc) (simp_all add: call_entry_def)
  with step_call show ?case by (auto simp: stamps_ok_def unstamped_def split: if_splits)
next
  case (step_user s u)
  then show ?case by (intro stamps_ok_user)
next
  case (step_stop s pc st as)
  have "length (accelerators (s_dev s)) = NUM_ACCELERATORS"
    using sim_partsD(2) [OF step_stop(2) [unfolded sim_rel_def]] .
  with stop_thread_accel [OF step_stop(1)]
  have "a < NUM_ACCELERATORS \<Longrightarrow> a_task_queue (as ! a) = a_task_queue (accelerators (s_dev s) ! a)" for a
    by (auto simp: upd_accel_def nth_update_at)
  with step_stop(3) show ?case by (auto simp: stamps_ok_def unstamped_def)
qed (auto simp: stamps_ok_def unstamped_def split: if_splits)

lemma stamps_ok_init: "sys_init s \<Longrightarrow> stamps_ok s"
proof -
  assume "sys_init s"
  then obtain env d cs now where k: "kernel_errors env" "cortex_forge_probe env = (0, Some d, cs)"
    and s: "s = boot d now"
    by (auto simp: sys_init_def)
  have "free_tasks d = [0..<MAX_TASKS]" "tasks d = replicate MAX_TASKS zero_task"
    using probe_outcome(2) [OF k refl] by (simp_all add: pre_workers_def probe_setup_zero)
  then show ?thesis
    using init_accels_nth by (auto simp: stamps_ok_def unstamped_def s boot_def probed_accels [OF k] zero_task_def)
qed

interpretation stamped: invariant_system sys_init "sys_step m2j hz" "\<lambda>s. (\<exists>loc. sim_rel s loc) \<and> stamps_ok s" for m2j hz
  using sim_rel_init sim_sys_step by unfold_locales (auto intro: stamps_ok_init stamps_ok_step, blast+)

section \<open>The time a query reports\<close>

lemma usec_value:
  fixes ticks hz :: u64
  shows "unat (ticks * 1000000 div hz) = (unat ticks * 1000000 mod 2 ^ 64) div unat hz"
  by (simp add: unat_div unat_word_ariths)

lemma pending_unstamped:
  assumes "sim_rel s loc" and "i < MAX_TASKS" and "t_state (tasks (s_dev s) ! i) = TASK_STATE_PENDING"
  shows "i \<in> unstamped s"
proof -
  note R = sim_partsD [OF assms(1) [unfolded sim_rel_def]]
  have ok: "TASK_STATE_PENDING \<in> place_states (s_wk s) (s_ut s) (loc i)" using slots_okD(1) [OF R(5) assms(2)] assms(3) by simp
  have iff: "p \<noteq> P_Retired \<Longrightarrow> loc i = p \<longleftrightarrow> i \<in> occupants (free_tasks (s_dev s)) (queues (accelerators (s_dev s)))
      (\<lambda>a. working (s_wk s a)) (\<lambda>u. holder (s_ut s u)) p" for p
    using located_iff [OF R(3) assms(2)] .
  show ?thesis
  proof (cases "loc i")
    case (P_Active a)
    with ok have "\<exists>j. s_wk s a = W_SetRunning j" by (cases "s_wk s a") auto
    with P_Active iff [of "P_Active a"] show ?thesis by (auto simp: unstamped_def before_stamp_def split: if_splits)
  qed (use ok iff [of "loc i"] in \<open>auto simp: unstamped_def split: if_splits\<close>)
qed

text \<open>C24. What a query on a running driver gives as the execution time. It is the number of ticks
  between submission and completion (so the wait in the queue is in it) times a million in 64-bit
  arithmetic, divided by \<open>HZ\<close>: exact below \<open>2\<^sup>6\<^sup>4 / 10\<^sup>6\<close> ticks, wrapped beyond. For a task that
  has not been stamped, which is every pending task and every task its worker has in hand up to
  that line, the completion stamp is still 0 and the figure is computed from the negated
  submission time; and while such a task is running the status next to it is 2, the code the
  interface documents as complete, the one with which the figure is said to be valid.\<close>

theorem query_exec_time:
  assumes "running_system m2j hz s" and "i < MAX_TASKS" and "t = tasks (s_dev s) ! i" and "st = query_status hz t"
  shows "unat (ts_exec_usec st) =
      (unat (t_complete_jiffies t - t_submit_jiffies t) * 1000000 mod 2 ^ 64) div unat hz \<and>
    (unat (t_complete_jiffies t - t_submit_jiffies t) \<le> 18446744073709 \<longrightarrow>
      unat (ts_exec_usec st) = unat (t_complete_jiffies t - t_submit_jiffies t) * 1000000 div unat hz) \<and>
    (t_state t = TASK_STATE_PENDING \<or> (\<exists>a < NUM_ACCELERATORS. working (s_wk s a) = Some i \<and> before_stamp (s_wk s a)) \<longrightarrow>
      t_complete_jiffies t = 0 \<and> ts_exec_usec st = (- t_submit_jiffies t) * 1000000 div hz) \<and>
    (t_state t = TASK_STATE_RUNNING \<longrightarrow> ts_status st = CORTEX_FORGE_TASK_COMPLETE)"
proof -
  from stamped.inv_reach [OF assms(1)] obtain loc where loc: "sim_rel s loc" and ok: "stamps_ok s" by blast
  have "t_complete_jiffies t = 0"
    if "t_state t = TASK_STATE_PENDING \<or> (\<exists>a < NUM_ACCELERATORS. working (s_wk s a) = Some i \<and> before_stamp (s_wk s a))"
  proof -
    have "i \<in> unstamped s" using that pending_unstamped [OF loc assms(2)] assms(3) by (auto simp: unstamped_def)
    with ok assms(3) show ?thesis by (simp add: stamps_ok_def)
  qed
  moreover have "unat (ts_exec_usec st) =
      (unat (t_complete_jiffies t - t_submit_jiffies t) * 1000000 mod 2 ^ 64) div unat hz"
    unfolding assms(4) query_status_def cortex_forge_task_status.simps by (rule usec_value)
  ultimately show ?thesis by (auto simp: assms(4) query_status_def uapi_task_codes)
qed

theorem query_exec_time_witness:
  "ts_exec_usec (query_status 250 (tasks (s_dev (active_sys (U_Ret 0))) ! 0)) = 0 \<and>
   ts_status (query_status 250 (tasks (s_dev (active_sys (U_Ret 0))) ! 0)) = CORTEX_FORGE_TASK_COMPLETE"
proof -
  let ?t = "tasks (s_dev (active_sys (U_Ret 0))) ! 0"
  have "(0 :: nat) < MAX_TASKS" by simp
  note p = query_exec_time [OF running_active [of "\<lambda>_. 0" 250] this refl refl]
  have "t_state ?t = TASK_STATE_RUNNING" "t_submit_jiffies ?t = 0"
    "working (s_wk (active_sys (U_Ret 0)) 1) = Some 0" "before_stamp (s_wk (active_sys (U_Ret 0)) 1)"
    "(1 :: nat) < NUM_ACCELERATORS"
    by (simp_all add: active_sys_def before_stamp_def submitted_def NUM_ACCELERATORS_def)
  with p show ?thesis by force
qed

end
