(* ===== verification/Forge_Main.thy ===== *)
theory Forge_Main
  imports Ioctl_Spec
begin

text \<open>
  \<^verbatim>\<open>src/cortex_forge_main.c\<close>: the whole driver in one file, kept in the repository beside the
  modular sources that the build uses. Its structures are those of the headers. The functions
  here carry the prefix \<open>cfm_\<close>. The theory shows where the two drivers agree (the allocator
  contract, every ioctl command, the worker's processing of a task, a successful probe) and
  where they do not (the error path of probe, the class passed to \<open>device_create\<close>).
\<close>

section \<open>Structures\<close>

text \<open>The file declares its structures again, member for member those of the headers.\<close>

type_synonym cfm_task_state = task_state
type_synonym cfm_task = cortex_forge_task
type_synonym cfm_accel = cortex_forge_accel
type_synonym cfm_dev = cortex_forge_dev

section \<open>Task management\<close>

definition cfm_task_alloc :: "cfm_dev \<Rightarrow> nat option \<times> cfm_dev" where
  "cfm_task_alloc dev =
     (if \<not> list_empty (free_tasks dev) then
        (case list_first_entry (free_tasks dev) of
           None \<Rightarrow> (None, dev)
         | Some i \<Rightarrow>
             let dev1 = dev\<lparr>free_tasks := list_del i (free_tasks dev)\<rparr>;
                 dev2 = dev1\<lparr>tasks := upd_task i (\<lambda>_. zero_task) (tasks dev1)\<rparr>;
                 dev3 = dev2\<lparr>tasks := upd_task i (\<lambda>t. t\<lparr>t_done := False\<rparr>) (tasks dev2)\<rparr>;
                 dev4 = dev3\<lparr>next_task_id := next_task_id dev3 + 1\<rparr>;
                 dev5 = dev4\<lparr>tasks := upd_task i (\<lambda>t. t\<lparr>t_id := next_task_id dev4\<rparr>) (tasks dev4)\<rparr>
             in (Some i, dev5))
      else (None, dev))"

definition cfm_task_free :: "cfm_dev \<Rightarrow> nat \<Rightarrow> cfm_dev" where
  "cfm_task_free dev i =
     (let dev1 = dev\<lparr>tasks := upd_task i (\<lambda>t. t\<lparr>t_state := TASK_STATE_FREE\<rparr>) (tasks dev)\<rparr>
      in dev1\<lparr>free_tasks := list_add_tail i (free_tasks dev1)\<rparr>)"

definition cfm_task_submit :: "u64 \<Rightarrow> cfm_dev \<Rightarrow> nat \<Rightarrow> int \<times> cfm_dev" where
  "cfm_task_submit now dev i =
     (if t_accel_type (tasks dev ! i) \<ge> 3 then (neg_errno EINVAL, dev)
      else
        let a = unat (t_accel_type (tasks dev ! i));
            dev1 = dev\<lparr>tasks := upd_task i (\<lambda>t. t\<lparr>t_state := TASK_STATE_PENDING\<rparr>) (tasks dev)\<rparr>;
            dev2 = dev1\<lparr>tasks := upd_task i (\<lambda>t. t\<lparr>t_submit_jiffies := now\<rparr>) (tasks dev1)\<rparr>
        in (0, dev2\<lparr>accelerators := upd_accel a
              (\<lambda>ac. ac\<lparr>a_task_queue := list_add_tail i (a_task_queue ac)\<rparr>) (accelerators dev2)\<rparr>))"

text \<open>The two searches, over the remaining slot numbers.\<close>

fun cfm_task_query_from :: "'m uaccess \<Rightarrow> u64 \<Rightarrow> nat list \<Rightarrow> cfm_dev \<Rightarrow> u32 \<Rightarrow> u64 \<Rightarrow> 'm \<Rightarrow> int \<times> 'm" where
  "cfm_task_query_from ua hz [] dev task_id ustatus m = (neg_errno ENOENT, m)"
| "cfm_task_query_from ua hz (i # is) dev task_id ustatus m =
     (if t_id (tasks dev ! i) = task_id \<and> t_state (tasks dev ! i) \<noteq> TASK_STATE_FREE then
        (let t = tasks dev ! i;
             st = \<lparr>ts_task_id = t_id t, ts_status = task_state_val (t_state t),
                   ts_exec_usec = (t_complete_jiffies t - t_submit_jiffies t) * 1000000 div hz,
                   ts_error_code = t_error_code t, ts_reserved = [0, 0, 0]\<rparr>;
             (m1, ok) = copy_to_user ua m ustatus (enc_task_status st)
         in if \<not> ok then (neg_errno EFAULT, m1) else (0, m1))
      else cfm_task_query_from ua hz is dev task_id ustatus m)"

definition cfm_task_query :: "'m uaccess \<Rightarrow> u64 \<Rightarrow> cfm_dev \<Rightarrow> u32 \<Rightarrow> u64 \<Rightarrow> 'm \<Rightarrow> int \<times> 'm" where
  "cfm_task_query ua hz dev task_id ustatus m =
     cfm_task_query_from ua hz [0..<MAX_TASKS] dev task_id ustatus m"

fun cfm_task_cancel_from :: "nat list \<Rightarrow> cfm_dev \<Rightarrow> u32 \<Rightarrow> int \<times> cfm_dev" where
  "cfm_task_cancel_from [] dev task_id = (neg_errno ENOENT, dev)"
| "cfm_task_cancel_from (i # is) dev task_id =
     (if t_id (tasks dev ! i) = task_id \<and> t_state (tasks dev ! i) \<noteq> TASK_STATE_FREE then
        (0, dev\<lparr>tasks := upd_task i (\<lambda>t. t\<lparr>t_state := TASK_STATE_CANCELLED,
              t_error_code := word_of_int (neg_errno ECANCELED), t_done := True\<rparr>) (tasks dev)\<rparr>)
      else cfm_task_cancel_from is dev task_id)"

definition cfm_task_cancel :: "cfm_dev \<Rightarrow> u32 \<Rightarrow> int \<times> cfm_dev" where
  "cfm_task_cancel dev task_id = cfm_task_cancel_from [0..<MAX_TASKS] dev task_id"

section \<open>The worker\<close>

text \<open>
  One pass through the worker's loop with nobody interfering, as a function: it reads the clock
  and the stop flag from the environment at positions it counts, and the timeout loop has fuel.
  \<open>None\<close> means that the fuel did not suffice.
\<close>

fun cfm_spin :: "(nat \<Rightarrow> u64 \<times> bool) \<Rightarrow> u64 \<Rightarrow> u64 \<Rightarrow> bool \<Rightarrow> nat \<Rightarrow> nat \<Rightarrow> nat option" where
  "cfm_spin env timeout start is_running 0 k = None"
| "cfm_spin env timeout start is_running (Suc fuel) k =
     (if fst (env k) - start < timeout \<and> is_running then
        (if snd (env (Suc k)) then Some (Suc (Suc k))
         else cfm_spin env timeout start is_running fuel (Suc (Suc k)))
      else Some (Suc k))"

definition cfm_process :: "(u32 \<Rightarrow> u64) \<Rightarrow> (nat \<Rightarrow> u64 \<times> bool) \<Rightarrow> nat \<Rightarrow> nat \<Rightarrow>
    cortex_forge_task list \<times> cortex_forge_accel \<Rightarrow>
    (nat \<times> (cortex_forge_task list \<times> cortex_forge_accel)) option" where
  "cfm_process m2j env fuel i = (\<lambda>(ts, ac).
     let ts1 = upd_task i (\<lambda>t. t\<lparr>t_state := TASK_STATE_RUNNING\<rparr>) ts;
         ac1 = ac\<lparr>a_load_percent := min 100 (a_load_percent ac + 10)\<rparr>
     in case (if t_timeout_ms (ts1 ! i) > 0 then
                (let timeout = m2j (t_timeout_ms (ts1 ! i)); start = fst (env 6)
                 in cfm_spin env timeout start (t_state (ts1 ! i) = TASK_STATE_RUNNING) fuel 7)
              else Some 8) of
          None \<Rightarrow> None
        | Some k \<Rightarrow>
            let ts2 = upd_task i (\<lambda>t. t\<lparr>t_complete_jiffies := fst (env k)\<rparr>) ts1;
                ts3 = upd_task i (\<lambda>t. t\<lparr>t_state := TASK_STATE_COMPLETE\<rparr>) ts2;
                ts4 = upd_task i (\<lambda>t. t\<lparr>t_error_code := 0\<rparr>) ts3;
                ac2 = ac1\<lparr>a_load_percent := word_of_int (max 0 (sint (a_load_percent ac1) - 10))\<rparr>;
                ts5 = upd_task i (\<lambda>t. t\<lparr>t_done := True\<rparr>) ts4;
                ac3 = ac2\<lparr>a_active_tasks := list_del i (a_active_tasks ac2)\<rparr>
            in Some (k + 6, (ts5, ac3)))"

definition cfm_accel_worker_thread :: "(u32 \<Rightarrow> u64) \<Rightarrow> (nat \<Rightarrow> u64 \<times> bool) \<Rightarrow> nat \<Rightarrow>
    cortex_forge_task list \<times> cortex_forge_accel \<Rightarrow>
    (worker_pc \<times> nat \<times> (cortex_forge_task list \<times> cortex_forge_accel)) option" where
  "cfm_accel_worker_thread m2j env fuel = (\<lambda>(ts, ac).
     if a_running ac = 0 then Some (W_Exit, 1, (ts, ac))
     else if a_running ac = 0 then Some (W_Exit, 3, (ts, ac))
     else if \<not> list_empty (a_task_queue ac) then
       (case list_first_entry (a_task_queue ac) of
          None \<Rightarrow> None
        | Some i \<Rightarrow>
            let ac1 = ac\<lparr>a_task_queue := list_del i (a_task_queue ac)\<rparr>;
                ac2 = ac1\<lparr>a_active_tasks := list_add_tail i (a_active_tasks ac1)\<rparr>
            in map_option (\<lambda>(n, c). (W_Loop, n, c)) (cfm_process m2j env fuel i (ts, ac2)))
     else Some (W_Loop, 4, (ts, ac)))"

section \<open>The ioctl handler\<close>

definition cfm_open :: "nat \<Rightarrow> filp \<Rightarrow> int \<times> filp" where
  "cfm_open i_cdev filp = (0, filp\<lparr>private_data := PTR i_cdev\<rparr>)"

definition cfm_release :: "filp \<Rightarrow> int \<times> filp" where
  "cfm_release filp = (0, filp)"

definition cfm_ioctl_submit :: "'m uaccess \<Rightarrow> u64 \<Rightarrow> cfm_dev \<Rightarrow> 'm \<Rightarrow> u64 \<Rightarrow>
    int \<times> cfm_dev \<times> 'm" where
  "cfm_ioctl_submit ua now dev m uarg =
     (case copy_from_user ua m uarg (sizeof task_desc_decl) of
        None \<Rightarrow> (neg_errno EFAULT, dev, m)
      | Some bs \<Rightarrow>
          let desc = dec_task_desc bs in
          if td_accel_type desc \<ge> 3 then (neg_errno EINVAL, dev, m)
          else if td_flags desc \<noteq> 0 then (neg_errno EINVAL, dev, m)
          else if td_input_size desc > 64 * 1024 * 1024 then (neg_errno E2BIG, dev, m)
          else if td_output_size desc > 64 * 1024 * 1024 then (neg_errno E2BIG, dev, m)
          else case cfm_task_alloc dev of
            (None, dev1) \<Rightarrow> (neg_errno ENOMEM, dev1, m)
          | (Some i, dev1) \<Rightarrow>
              let dev2 = dev1\<lparr>tasks := upd_task i (\<lambda>t. t\<lparr>t_accel_type := td_accel_type desc,
                    t_priority := td_priority desc, t_input_addr := td_input_addr desc,
                    t_input_size := td_input_size desc, t_output_addr := td_output_addr desc,
                    t_output_size := td_output_size desc, t_timeout_ms := td_timeout_ms desc\<rparr>) (tasks dev1)\<rparr>;
                  (ret, dev3) = cfm_task_submit now dev2 i
              in if ret \<noteq> 0 then (ret, cfm_task_free dev3 i, m)
                 else
                   let desc1 = desc\<lparr>td_task_id := t_id (tasks dev3 ! i)\<rparr>;
                       (m1, ok) = copy_to_user ua m uarg (enc_task_desc desc1)
                   in if \<not> ok then (neg_errno EFAULT, dev3, m1) else (0, dev3, m1))"

definition cfm_ioctl_info :: "'m uaccess \<Rightarrow> cfm_dev \<Rightarrow> 'm \<Rightarrow> u64 \<Rightarrow>
    int \<times> cfm_dev \<times> 'm" where
  "cfm_ioctl_info ua dev m uarg =
     (case copy_from_user ua m uarg (sizeof accel_info_decl) of
        None \<Rightarrow> (neg_errno EFAULT, dev, m)
      | Some bs \<Rightarrow>
          let info = dec_accel_info bs in
          if ai_accel_type info \<ge> 3 then (neg_errno EINVAL, dev, m)
          else
            let accel = accelerators dev ! unat (ai_accel_type info);
                info1 = info\<lparr>ai_freq_hz := a_freq_hz accel, ai_temp_celsius := a_temp_celsius accel,
                  ai_load_percent := a_load_percent accel, ai_fw_version := a_fw_version accel,
                  ai_hw_version := a_hw_version accel, ai_mem_total := a_mem_total accel,
                  ai_mem_free := a_mem_free accel, ai_state := a_state accel\<rparr>;
                (m1, ok) = copy_to_user ua m uarg (enc_accel_info info1)
            in if \<not> ok then (neg_errno EFAULT, dev, m1) else (0, dev, m1))"

definition cfm_ioctl :: "'m uaccess \<Rightarrow> u64 \<Rightarrow> u64 \<Rightarrow> cfm_dev \<Rightarrow> 'm \<Rightarrow> u32 \<Rightarrow>
    u64 \<Rightarrow> int \<times> cfm_dev \<times> 'm" where
  "cfm_ioctl ua hz now dev m cmd arg =
     (if cmd = CORTEX_FORGE_IOCTL_SUBMIT_TASK then cfm_ioctl_submit ua now dev m arg
      else if cmd = CORTEX_FORGE_IOCTL_QUERY_TASK then
        (case copy_from_user ua m arg (sizeof task_status_decl) of
           None \<Rightarrow> (neg_errno EFAULT, dev, m)
         | Some bs \<Rightarrow>
             let (ret, m1) = cfm_task_query ua hz dev (ts_task_id (dec_task_status bs)) arg m
             in (ret, dev, m1))
      else if cmd = CORTEX_FORGE_IOCTL_CANCEL_TASK then
        (case copy_from_user ua m arg 4 of
           None \<Rightarrow> (neg_errno EFAULT, dev, m)
         | Some bs \<Rightarrow> let (ret, dev1) = cfm_task_cancel dev (le_get 4 0 bs) in (ret, dev1, m))
      else if cmd = CORTEX_FORGE_IOCTL_GET_ACCEL_INFO then cfm_ioctl_info ua dev m arg
      else if cmd = CORTEX_FORGE_IOCTL_SET_POWER then
        (case copy_from_user ua m arg 4 of
           None \<Rightarrow> (neg_errno EFAULT, dev, m)
         | Some bs \<Rightarrow> if (le_get 4 0 bs :: u32) > 2 then (neg_errno EINVAL, dev, m) else (0, dev, m))
      else if cmd = CORTEX_FORGE_IOCTL_GET_VERSION then
        (let (m1, ok) = copy_to_user ua m arg (bytes4 0x00010000)
         in if \<not> ok then (neg_errno EFAULT, dev, m1) else (0, dev, m1))
      else if cmd = CORTEX_FORGE_IOCTL_GET_PROFILE then
        (let pm = \<lparr>pm_compute_us = 1000, pm_memory_us = 500, pm_storage_us = 200, pm_network_us = 300,
               pm_thermal_celsius = 45, pm_power_mw = 15000, pm_reserved = [0, 0, 0, 0]\<rparr>;
             (m1, ok) = copy_to_user ua m arg (enc_profile_metrics pm)
         in if \<not> ok then (neg_errno EFAULT, dev, m1) else (0, dev, m1))
      else if cmd = CORTEX_FORGE_IOCTL_SET_ACCEL then
        (case copy_from_user ua m arg 4 of
           None \<Rightarrow> (neg_errno EFAULT, dev, m)
         | Some bs \<Rightarrow> if (le_get 4 0 bs :: u32) > 4 then (neg_errno EINVAL, dev, m) else (0, dev, m))
      else (neg_errno ENOTTY, dev, m))"

section \<open>Probe and remove\<close>

definition cfm_accel_init :: "cfm_accel \<Rightarrow> u32 \<Rightarrow> string \<Rightarrow> cfm_accel" where
  "cfm_accel_init accel ty nm = accel\<lparr>
     a_type := ty,
     a_name := strncpy (a_name accel) nm (length (a_name accel) - 1),
     a_freq_hz := 1000000000,
     a_temp_celsius := 40,
     a_load_percent := 0,
     a_fw_version := 0x00010000,
     a_hw_version := 0x02000000,
     a_mem_total := 1024 * 1024 * 1024,
     a_mem_free := 1024 * 1024 * 1024,
     a_state := 2,
     a_task_queue := [],
     a_active_tasks := [],
     a_running := 1\<rparr>"

fun cfm_pool_from :: "nat list \<Rightarrow> cfm_dev \<Rightarrow> cfm_dev" where
  "cfm_pool_from [] dev = dev"
| "cfm_pool_from (i # is) dev =
     cfm_pool_from is (dev\<lparr>tasks := upd_task i (\<lambda>t. t\<lparr>t_state := TASK_STATE_FREE, t_done := False\<rparr>) (tasks dev),
       free_tasks := list_add_tail i (free_tasks dev)\<rparr>)"

definition cfm_setup :: "cfm_dev \<Rightarrow> cfm_dev" where
  "cfm_setup dev =
     (let dev1 = dev\<lparr>free_tasks := [], next_task_id := 0\<rparr>;
          dev2 = cfm_pool_from [0..<MAX_TASKS] dev1;
          as1 = upd_accel 0 (\<lambda>a. cfm_accel_init a 0 ''nvdla0'') (accelerators dev2);
          as2 = upd_accel 1 (\<lambda>a. cfm_accel_init a 1 ''nvdla1'') as1;
          as3 = upd_accel 2 (\<lambda>a. cfm_accel_init a 2 ''pva0'') as2
      in dev2\<lparr>accelerators := as3\<rparr>)"

text \<open>Starting the workers in the order of the slot numbers; \<open>False\<close>: one could not be started.\<close>

fun cfm_start :: "(nat \<Rightarrow> kptr) \<Rightarrow> nat list \<Rightarrow> cfm_accel list \<Rightarrow>
    bool \<times> int \<times> cfm_accel list \<times> kcall list" where
  "cfm_start krun [] as = (True, 0, as, [])"
| "cfm_start krun (i # is) as =
     (let as1 = upd_accel i (\<lambda>a. a\<lparr>a_worker_thread := krun i\<rparr>) as in
      if IS_ERR (a_worker_thread (as1 ! i)) then
        (False, PTR_ERR (a_worker_thread (as1 ! i)), as1, [Kthread_Run i (krun i)])
      else
        (let (ok, ret, as2, cs) = cfm_start krun is as1 in (ok, ret, as2, Kthread_Run i (krun i) # cs)))"

text \<open>The loop at \<open>err_stop_workers\<close>, and that of remove, which does not test the pointer.\<close>

fun cfm_err_stop :: "nat list \<Rightarrow> cfm_accel list \<Rightarrow> cfm_accel list \<times> kcall list" where
  "cfm_err_stop [] as = (as, [])"
| "cfm_err_stop (i # is) as =
     (if a_worker_thread (as ! i) \<noteq> NULL then
        (let as1 = upd_accel i (\<lambda>a. a\<lparr>a_running := 0\<rparr>) as; (as2, cs) = cfm_err_stop is as1
         in (as2, Wake_Up i # Kthread_Stop (a_worker_thread (as1 ! i)) # cs))
      else cfm_err_stop is as)"

fun cfm_remove_stop :: "nat list \<Rightarrow> cfm_accel list \<Rightarrow> cfm_accel list \<times> kcall list" where
  "cfm_remove_stop [] as = (as, [])"
| "cfm_remove_stop (i # is) as =
     (let as1 = upd_accel i (\<lambda>a. a\<lparr>a_running := 0\<rparr>) as; (as2, cs) = cfm_remove_stop is as1
      in (as2, Wake_Up i # Kthread_Stop (a_worker_thread (as1 ! i)) # cs))"

definition cfm_fail :: "int \<Rightarrow> cfm_dev \<Rightarrow> kcall list \<Rightarrow> int \<times> cfm_dev option \<times> kcall list" where
  "cfm_fail ret dev cs =
     (let (as, cs') = cfm_err_stop [0..<3] (accelerators dev) in (ret, Some (dev\<lparr>accelerators := as\<rparr>), cs @ cs'))"

definition cfm_probe :: "probe_env \<Rightarrow> int \<times> cfm_dev option \<times> kcall list" where
  "cfm_probe env =
     (if \<not> pe_kzalloc env then (neg_errno ENOMEM, None, [])
      else
        let dev = (cfm_setup zero_dev)\<lparr>dev_base := pe_ioremap env\<rparr> in
        if IS_ERR (dev_base dev) then (PTR_ERR (dev_base dev), Some dev, [])
        else
        let dev = dev\<lparr>dev_num_clks := pe_clks env\<rparr> in
        if dev_num_clks dev < 0 then (dev_num_clks dev, Some dev, [])
        else
        let dev = dev\<lparr>dev_rst := pe_rst env\<rparr> in
        if IS_ERR (dev_rst dev) then (PTR_ERR (dev_rst dev), Some dev, [])
        else
        let dev = dev\<lparr>dev_irq := pe_irq env\<rparr> in
        if dev_irq dev < 0 then (dev_irq dev, Some dev, [])
        else
        let (ok, ret, as, cs) = cfm_start (pe_krun env) [0..<3] (accelerators dev);
            dev = dev\<lparr>accelerators := as\<rparr>
        in if \<not> ok then cfm_fail ret dev cs
        else if pe_chrdev env \<noteq> 0 then cfm_fail (pe_chrdev env) dev cs
        else
        let cs1 = cs @ [Alloc_Chrdev_Region] in
        if pe_cdev_add env \<noteq> 0 then cfm_fail (pe_cdev_add env) dev (cs1 @ [Unregister_Chrdev_Region])
        else
        let cs2 = cs1 @ [Cdev_Add];
            dev = dev\<lparr>dev_dev := pe_device_create env (dev_class dev)\<rparr>;
            cs3 = cs2 @ [Device_Create (dev_dev dev)]
        in if IS_ERR (dev_dev dev) then
             cfm_fail (PTR_ERR (dev_dev dev)) dev (cs3 @ [Cdev_Del, Unregister_Chrdev_Region])
           else (0, Some dev, cs3))"

definition cfm_remove :: "cfm_dev \<Rightarrow> cfm_dev \<times> kcall list" where
  "cfm_remove dev =
     (let (as, cs) = cfm_remove_stop [0..<3] (accelerators dev)
      in (dev\<lparr>accelerators := as\<rparr>, [Device_Destroy, Cdev_Del, Unregister_Chrdev_Region] @ cs))"

definition cfm_init :: "int \<Rightarrow> int \<Rightarrow> int \<times> kcall list" where
  "cfm_init creg preg =
     (if creg \<noteq> 0 then (creg, [])
      else if preg \<noteq> 0 then (preg, [Class_Register, Class_Unregister])
      else (preg, [Class_Register, Platform_Driver_Register]))"

definition cfm_exit :: "kcall list" where
  "cfm_exit = [Platform_Driver_Unregister, Class_Unregister]"

section \<open>The allocator contract\<close>

definition cfm_pool_valid :: "cortex_forge_dev \<Rightarrow> bool" where
  "cfm_pool_valid d \<longleftrightarrow> distinct (free_tasks d) \<and> (\<forall>i \<in> set (free_tasks d). i < length (tasks d))"

lemma cfm_task_alloc_eq:
  assumes "free_tasks d = i # fl" and "i < length (tasks d)"
  shows "cfm_task_alloc d = (Some i, d\<lparr>tasks := (tasks d)[i := zero_task\<lparr>t_id := next_task_id d + 1\<rparr>],
    free_tasks := fl, next_task_id := next_task_id d + 1\<rparr>)"
  using assms by (simp add: cfm_task_alloc_def list_defs Let_def upd_task_def zero_task_def)

interpretation cfm_pool: slot_allocator cfm_task_alloc free_tasks next_task_id
  "\<lambda>d i. t_id (tasks d ! i)" cfm_pool_valid
proof
  fix s :: cortex_forge_dev
  assume "free_tasks s = []"
  then show "cfm_task_alloc s = (None, s)" by (simp add: cfm_task_alloc_def list_empty_def)
next
  fix s :: cortex_forge_dev and i rest
  assume v: "cfm_pool_valid s" and fl: "free_tasks s = i # rest"
  then have i: "i < length (tasks s)" "i \<notin> set rest" by (simp_all add: cfm_pool_valid_def)
  then show "\<exists>s'. cfm_task_alloc s = (Some i, s') \<and> free_tasks s' = rest \<and>
      next_task_id s' = next_task_id s + 1 \<and>
      (\<lambda>j. t_id (tasks s' ! j)) = (\<lambda>j. t_id (tasks s ! j))(i := next_task_id s + 1) \<and> cfm_pool_valid s'"
    using v fl by (auto simp: cfm_task_alloc_eq [OF fl] cfm_pool_valid_def fun_eq_iff nth_list_update)
qed

text \<open>Both allocators satisfy one contract, and so a burst of allocations is the same in both: out
  of \<open>f\<close> free slots the first \<open>f\<close> requests get the free slots in the order of the free list with
  consecutive identifiers after the counter, and every further request gets none and changes
  nothing.\<close>

lemma allocation_bursts:
  assumes "pool_inv (tasks d) (free_tasks d) (next_task_id d)" and "n \<le> length (free_tasks d)"
  shows "\<exists>ts nid d'. alloc_n task_alloc n (tasks d, free_tasks d, next_task_id d) =
      (map Some (take n (free_tasks d)), (ts, drop n (free_tasks d), nid)) \<and>
    alloc_n cfm_task_alloc n d = (map Some (take n (free_tasks d)), d') \<and>
    free_tasks d' = drop n (free_tasks d) \<and> nid = next_task_id d + of_nat n \<and> next_task_id d' = nid \<and>
    (\<forall>k < n. t_id (ts ! (free_tasks d ! k)) = next_task_id d + of_nat (Suc k) \<and>
       t_id (tasks d' ! (free_tasks d ! k)) = next_task_id d + of_nat (Suc k)) \<and>
    (n = length (free_tasks d) \<longrightarrow> (\<forall>k. alloc_n cfm_task_alloc k d' = (replicate k None, d') \<and>
       alloc_n task_alloc k (ts, [], nid) = (replicate k None, (ts, [], nid))))"
proof -
  let ?s = "(tasks d, free_tasks d, next_task_id d)"
  have v: "pool_valid ?s" "cfm_pool_valid d" "distinct (free_tasks d)"
    using assms(1) by (auto simp: pool_valid_def cfm_pool_valid_def pool_inv_def)
  obtain ts fl nid where a: "alloc_n task_alloc n ?s = (map Some (take n (free_tasks d)), (ts, fl, nid))"
    "fl = drop n (free_tasks d)" "nid = next_task_id d + of_nat n"
    using pool.alloc_n_avail [OF v(1), of n] assms(2) by auto
  obtain d' where b: "alloc_n cfm_task_alloc n d = (map Some (take n (free_tasks d)), d')"
    "free_tasks d' = drop n (free_tasks d)" "next_task_id d' = next_task_id d + of_nat n"
    using cfm_pool.alloc_n_avail [OF v(2) assms(2)] by auto
  have "t_id (ts ! (free_tasks d ! k)) = next_task_id d + of_nat (Suc k)" if "k < n" for k
    using pool.alloc_ids [OF v(1), of n k] v(3) assms(2) that by (simp add: a(1))
  moreover have "t_id (tasks d' ! (free_tasks d ! k)) = next_task_id d + of_nat (Suc k)" if "k < n" for k
    using cfm_pool.alloc_ids [OF v(2,3) assms(2) that] by (simp add: b(1))
  moreover have "alloc_n cfm_task_alloc k d' = (replicate k None, d')" if "n = length (free_tasks d)" for k
    using cfm_pool.alloc_n_exhausted [of d' k] b(2) that by simp
  moreover have "alloc_n task_alloc k (ts, [], nid) = (replicate k None, (ts, [], nid))" for k
    using pool.alloc_n_exhausted [of "(ts, [], nid)" k] by simp
  ultimately show ?thesis using a b by auto
qed

section \<open>The two drivers agree on ioctl\<close>

lemma word3_le: "(w :: u32) \<ge> 3 \<longleftrightarrow> unat w \<ge> NUM_ACCELERATORS"
  by (simp add: word_le_nat_alt NUM_ACCELERATORS_def)

lemma cfm_query_Cons:
  "cfm_task_query_from ua hz (i # is) d tid p m =
     (if task_matches tid (tasks d ! i) then
        (case copy_to_user ua m p (enc_task_status (query_status hz (tasks d ! i))) of
             (m', ok) \<Rightarrow> if \<not> ok then (neg_errno EFAULT, m') else (0, m'))
      else cfm_task_query_from ua hz is d tid p m)"
  by (simp add: task_matches_def query_status_def Let_def)

lemma cfm_query_from:
  "cfm_task_query_from ua hz [i..<MAX_TASKS] d tid p m =
     (case task_lookup (tasks d) tid i of
        Some j \<Rightarrow> (case copy_to_user ua m p (enc_task_status (query_status hz (tasks d ! j))) of
             (m', ok) \<Rightarrow> if \<not> ok then (neg_errno EFAULT, m') else (0, m'))
      | None \<Rightarrow> (neg_errno ENOENT, m))"
proof (induction "tasks d" tid i rule: task_lookup.induct)
  case (1 tid i)
  then show ?case
    by (cases "i < MAX_TASKS"; cases "task_matches tid (tasks d ! i)")
      (simp_all add: task_lookup.simps [of "tasks d" tid i] upt_conv_Cons cfm_query_Cons
        del: cfm_task_query_from.simps(2))
qed

lemma cfm_cancel_Cons:
  "cfm_task_cancel_from (i # is) d tid =
     (if task_matches tid (tasks d ! i) then
        (0, d\<lparr>tasks := upd_task i (\<lambda>t. t\<lparr>t_state := TASK_STATE_CANCELLED,
              t_error_code := word_of_int (neg_errno ECANCELED), t_done := True\<rparr>) (tasks d)\<rparr>)
      else cfm_task_cancel_from is d tid)"
  by (simp add: task_matches_def)

lemma cfm_cancel_from:
  "cfm_task_cancel_from [i..<MAX_TASKS] d tid =
     (case task_lookup (tasks d) tid i of
        Some j \<Rightarrow> (0, d\<lparr>tasks := upd_task j (\<lambda>t. t\<lparr>t_state := TASK_STATE_CANCELLED,
              t_error_code := word_of_int (neg_errno ECANCELED), t_done := True\<rparr>) (tasks d)\<rparr>)
      | None \<Rightarrow> (neg_errno ENOENT, d))"
proof (induction "tasks d" tid i rule: task_lookup.induct)
  case (1 tid i)
  then show ?case
    by (cases "i < MAX_TASKS"; cases "task_matches tid (tasks d ! i)")
      (simp_all add: task_lookup.simps [of "tasks d" tid i] upt_conv_Cons cfm_cancel_Cons
        del: cfm_task_cancel_from.simps(2))
qed

lemma cfm_cancel_eq:
  "cfm_task_cancel d tid = (fst (task_cancel (tasks d) tid), d\<lparr>tasks := snd (task_cancel (tasks d) tid)\<rparr>)"
  by (cases "task_lookup (tasks d) tid 0") (simp_all add: cfm_task_cancel_def cfm_cancel_from task_cancel_def)

lemma cfm_query_eq: "cfm_task_query ua hz d tid p m = task_query ua hz (tasks d) tid p m"
  by (simp add: cfm_task_query_def cfm_query_from task_query_def)

lemma cfm_info_eq: "cfm_ioctl_info ua d m arg = ioctl_get_accel_info ua d m arg"
  unfolding cfm_ioctl_info_def ioctl_get_accel_info_def accel_get_info_def word3_le Let_def ..

lemma cfm_submit_eq:
  assumes inv: "dev_inv d"
  shows "cfm_ioctl_submit ua now d m arg = ioctl_submit_task ua now d m arg"
proof (cases "copy_from_user ua m arg (sizeof task_desc_decl)")
  case None
  then show ?thesis by (simp only: cfm_ioctl_submit_def ioctl_submit_task_def option.case)
next
  case (Some bs)
  let ?desc = "dec_task_desc bs"
  show ?thesis
  proof (cases "check_desc ?desc")
    case (Some e)
    with \<open>copy_from_user ua m arg (sizeof task_desc_decl) = Some bs\<close> show ?thesis
      by (auto simp: cfm_ioctl_submit_def ioctl_submit_task_def check_desc_def word3_le Let_def split: if_splits)
  next
    case None
    note ok = check_desc_NoneD [OF None]
    have bounds: "\<not> td_accel_type ?desc \<ge> 3" "td_flags ?desc = 0" "\<not> td_input_size ?desc > 64 * 1024 * 1024"
      "\<not> td_output_size ?desc > 64 * 1024 * 1024"
      using ok by (simp_all add: word3_le)
    show ?thesis
    proof (cases "free_tasks d")
      case Nil
      then show ?thesis
        using \<open>copy_from_user ua m arg (sizeof task_desc_decl) = Some bs\<close> None bounds submit_desc_exhausted [OF Nil, of now ?desc]
        by (simp add: cfm_ioctl_submit_def ioctl_submit_task_def cfm_task_alloc_def list_empty_def Let_def)
    next
      case (Cons i fl)
      have i: "i < length (tasks d)" using dev_inv_free [OF inv] Cons inv by simp
      have order: "d\<lparr>free_tasks := x, next_task_id := y, tasks := z, accelerators := w\<rparr> =
          d\<lparr>tasks := z, free_tasks := x, next_task_id := y, accelerators := w\<rparr>" for x y z w
        by (cases d) simp
      show ?thesis
        using \<open>copy_from_user ua m arg (sizeof task_desc_decl) = Some bs\<close> None bounds i
        by (simp add: cfm_ioctl_submit_def ioctl_submit_task_def submit_desc_ok [OF Cons i None]
            cfm_task_alloc_eq [OF Cons i] cfm_task_submit_def Let_def upd_task_def upd_accel_def
            submitted_def fill_task_def zero_task_def list_add_tail_def order)
    qed
  qed
qed

lemma cfm_ioctl_eq:
  assumes "dev_inv d"
  shows "cfm_ioctl ua hz now d m cmd arg = cortex_forge_ioctl ua hz now d m cmd arg"
  using cfm_submit_eq [OF assms, of ua now m arg]
  by (simp add: cfm_ioctl_def cortex_forge_ioctl_def ioctl_query_task_def ioctl_cancel_task_def
      ioctl_set_power_def ioctl_get_version_def ioctl_get_profile_def ioctl_set_accel_def
      cfm_query_eq cfm_cancel_eq cfm_info_eq profile_metrics_def Let_def case_prod_beta
      cong: if_cong option.case_cong)

text \<open>C16. The two drivers agree on every ioctl command: on a device that satisfies the invariant the
  handler of the single-file driver returns the same value, device and user memory as that of
  the modular one, for every command number, argument and user memory.\<close>

theorem monolith_ioctl_agrees:
  assumes "dev_inv d"
  shows "cfm_ioctl ua hz now d m cmd arg = cortex_forge_ioctl ua hz now d m cmd arg"
  using assms by (rule cfm_ioctl_eq)

theorem monolith_ioctl_agrees_witness:
  "cfm_ioctl flat_uaccess 250 7 fresh_dev (um_holding 0x1000 (enc_task_desc sample_desc)) CORTEX_FORGE_IOCTL_SUBMIT_TASK 0x1000 =
   cortex_forge_ioctl flat_uaccess 250 7 fresh_dev (um_holding 0x1000 (enc_task_desc sample_desc))
     CORTEX_FORGE_IOCTL_SUBMIT_TASK 0x1000"
  by (rule monolith_ioctl_agrees [OF fresh_dev_facts(1)])

section \<open>Probe of the monolith\<close>

lemma cfm_pool_from_eq:
  "distinct is \<Longrightarrow> \<forall>i \<in> set is. i < length (tasks d) \<and> t_state (tasks d ! i) = TASK_STATE_FREE \<and> \<not> t_done (tasks d ! i) \<Longrightarrow>
   cfm_pool_from is d = d\<lparr>free_tasks := free_tasks d @ is\<rparr>"
proof (induction "is" arbitrary: d)
  case Nil
  then show ?case by simp
next
  case (Cons i "is")
  have "upd_task i (\<lambda>t. t\<lparr>t_state := TASK_STATE_FREE, t_done := False\<rparr>) (tasks d) = tasks d"
    using Cons.prems(2) by (simp add: upd_task_def list_update_same_conv)
  then show ?case using Cons.IH [of "d\<lparr>free_tasks := free_tasks d @ [i]\<rparr>"] Cons.prems
    by (simp add: list_add_tail_def)
qed

lemma cfm_accel_init_eq: "cfm_accel_init a ty nm = accel_init a ty nm"
  by (simp add: cfm_accel_init_def accel_init_def)

lemma cfm_setup_zero: "cfm_setup zero_dev = probe_setup zero_dev"
proof -
  have "cfm_pool_from [0..<MAX_TASKS] (zero_dev\<lparr>free_tasks := [], next_task_id := 0\<rparr>) =
      zero_dev\<lparr>free_tasks := [0..<MAX_TASKS], next_task_id := 0\<rparr>"
    by (subst cfm_pool_from_eq) (simp_all add: zero_dev_def zero_task_def)
  then show ?thesis unfolding probe_setup_zero
    by (simp add: cfm_setup_def cfm_accel_init_eq Let_def zero_dev_def upd_accel_def
        init_accels_def NUM_ACCELERATORS_def numeral_eq_Suc ACCEL_TYPE_DLA0_def ACCEL_TYPE_DLA1_def ACCEL_TYPE_PVA0_def)
qed

lemma cfm_start_ok:
  assumes "length as = NUM_ACCELERATORS" and "\<forall>i < NUM_ACCELERATORS. \<not> IS_ERR (krun i)"
  shows "cfm_start krun [0..<3] as =
    (True, 0, with_workers krun NUM_ACCELERATORS as, map (\<lambda>i. Kthread_Run i (krun i)) [0..<NUM_ACCELERATORS])"
proof -
  obtain x y z where as: "as = [x, y, z]"
    using assms(1) by (auto simp: NUM_ACCELERATORS_def dest: length_three)
  have "\<not> IS_ERR (krun 0)" "\<not> IS_ERR (krun 1)" "\<not> IS_ERR (krun 2)"
    using assms(2) by (simp_all add: NUM_ACCELERATORS_def)
  then show ?thesis
    by (simp add: with_workers_def NUM_ACCELERATORS_def as upd_accel_def numeral_eq_Suc Let_def)
qed

lemma cfm_start_fail:
  assumes "length as = NUM_ACCELERATORS" and "n < NUM_ACCELERATORS" and "IS_ERR (krun n)"
    and "\<forall>i < n. \<not> IS_ERR (krun i)"
  shows "cfm_start krun [0..<3] as = (False, PTR_ERR (krun n), with_workers krun (Suc n) as,
    map (\<lambda>i. Kthread_Run i (krun i)) [0..<Suc n])"
proof -
  obtain x y z where as: "as = [x, y, z]"
    using assms(1) by (auto simp: NUM_ACCELERATORS_def dest: length_three)
  consider "n = 0" | "n = 1" | "n = 2"
    using assms(2) by (fastforce simp: NUM_ACCELERATORS_def less_Suc_eq numeral_eq_Suc)
  then show ?thesis
    by cases (use assms(3,4) in \<open>simp_all add: with_workers_def as upd_accel_def numeral_eq_Suc Let_def less_Suc_eq\<close>)
qed

lemma cfm_err_stop_calls:
  "\<forall>i \<in> set is. i < length as \<Longrightarrow> snd (cfm_err_stop is as) = concat (map (stop_calls as) is)"
proof (induction "is" arbitrary: as)
  case Nil
  then show ?case by simp
next
  case (Cons i "is")
  let ?as = "upd_accel i (\<lambda>a. a\<lparr>a_running := 0\<rparr>) as"
  have "stop_calls ?as = stop_calls as"
    using Cons.prems by (auto simp: stop_calls_def nth_upd_accel fun_eq_iff)
  then show ?case
    using Cons.IH [of as] Cons.IH [of ?as] Cons.prems
    by (auto simp: Let_def stop_calls_def nth_upd_accel split: prod.splits)
qed

text \<open>The error path replays to nothing held exactly when no thread failed to start.\<close>

lemma cfm_fail_balanced:
  assumes w: "\<forall>i < NUM_ACCELERATORS. \<not> IS_ERR (pe_krun env i)"
    and d: "accelerators d = with_workers (pe_krun env) NUM_ACCELERATORS init_accels"
    and cs0: "replay cs0 (no_resources\<lparr>r_workers := filter is_ptr (map (pe_krun env) [0..<NUM_ACCELERATORS])\<rparr>) =
      Some (no_resources\<lparr>r_workers := filter is_ptr (map (pe_krun env) [0..<NUM_ACCELERATORS])\<rparr>)"
    and e: "cfm_fail ret d (run_calls env @ cs0) = (ret', d', cs)"
  shows "replay cs no_resources = Some no_resources \<and> ret' = ret"
proof -
  let ?ws = "filter is_ptr (map (pe_krun env) [0..<NUM_ACCELERATORS])"
  let ?as = "with_workers (pe_krun env) NUM_ACCELERATORS init_accels"
  have ws: "map (\<lambda>i. a_worker_thread (?as ! i)) [0..<NUM_ACCELERATORS] = map (pe_krun env) [0..<NUM_ACCELERATORS]"
    by (simp add: nth_with_workers)
  have stop: "replay (concat (map (stop_calls ?as) [0..<NUM_ACCELERATORS])) (no_resources\<lparr>r_workers := ?ws\<rparr>) =
      Some no_resources"
    by (subst replay_stops) (use w in \<open>simp add: nth_with_workers\<close>, simp only: ws, simp, simp add: no_resources_def)
  have run: "replay (run_calls env) no_resources = Some (no_resources\<lparr>r_workers := ?ws\<rparr>)"
    unfolding replay_runs by (simp add: no_resources_def)
  have "snd (cfm_err_stop [0..<3] ?as) = concat (map (stop_calls ?as) [0..<NUM_ACCELERATORS])"
    by (subst cfm_err_stop_calls) (simp_all add: NUM_ACCELERATORS_def)
  with e have "cs = run_calls env @ cs0 @ concat (map (stop_calls ?as) [0..<NUM_ACCELERATORS])" "ret' = ret"
    by (auto simp: cfm_fail_def d split: prod.splits)
  then show ?thesis by (simp only: replay_append run option.case cs0 stop simp_thms)
qed

lemma replay_stop_err:
  assumes "r_workers r = filter is_ptr (map krun [0..<n])" and "IS_ERR (krun n)" and "\<forall>i < n. \<not> IS_ERR (krun i)"
    and "\<forall>i \<le> n. a_worker_thread (as ! i) = krun i"
  shows "replay (concat (map (stop_calls as) [0..<Suc n]) @ cs) r = None"
proof -
  have ws: "map (\<lambda>i. a_worker_thread (as ! i)) [0..<n] = map krun [0..<n]" using assms(4) by simp
  have "replay (concat (map (stop_calls as) [0..<n])) r = Some (r\<lparr>r_workers := []\<rparr>)"
    by (rule replay_stops) (use assms(3,4) in simp, simp only: ws assms(1))
  then show ?thesis using assms(2,4) by (auto simp: replay_append stop_calls_def IS_ERR_iff)
qed

lemma cfm_probe_thread_fails:
  assumes "hw_ok env" and n: "n < NUM_ACCELERATORS" "IS_ERR (pe_krun env n)" "\<forall>i < n. \<not> IS_ERR (pe_krun env i)"
    and "cfm_probe env = (ret, dev, cs)"
  shows "ret = PTR_ERR (pe_krun env n) \<and> replay cs no_resources = None"
proof -
  let ?as = "with_workers (pe_krun env) (Suc n) init_accels"
  let ?r = "no_resources\<lparr>r_workers := filter is_ptr (map (pe_krun env) [0..<n])\<rparr>"
  have "cfm_probe env = cfm_fail (PTR_ERR (pe_krun env n)) ((pre_workers env)\<lparr>accelerators := ?as\<rparr>)
      (map (\<lambda>i. Kthread_Run i (pe_krun env i)) [0..<Suc n])"
    using assms(1) cfm_start_fail [OF length_init_accels n]
    by (simp add: hw_ok_def cfm_probe_def cfm_setup_zero pre_workers_def probe_setup_zero)
  with assms(5) have ret: "ret = PTR_ERR (pe_krun env n)" and cs: "cs = map (\<lambda>i. Kthread_Run i (pe_krun env i)) [0..<Suc n] @
      snd (cfm_err_stop [0..<3] ?as)"
    by (auto simp: cfm_fail_def split: prod.splits)
  have "\<not> is_ptr (pe_krun env n)" using n(2) by (auto simp: IS_ERR_iff)
  then have run: "replay (map (\<lambda>i. Kthread_Run i (pe_krun env i)) [0..<Suc n]) no_resources = Some ?r"
    unfolding replay_runs by (simp add: no_resources_def)
  have three: "[0..<3] = [0..<Suc n] @ [Suc n..<3]"
    using n(1) upt_add_eq_append [of 0 "Suc n" "3 - Suc n"] by (simp add: NUM_ACCELERATORS_def)
  have "snd (cfm_err_stop [0..<3] ?as) = concat (map (stop_calls ?as) [0..<3])"
    by (rule cfm_err_stop_calls) (simp add: NUM_ACCELERATORS_def)
  then have "snd (cfm_err_stop [0..<3] ?as) = concat (map (stop_calls ?as) [0..<Suc n]) @ concat (map (stop_calls ?as) [Suc n..<3])"
    by (simp only: three map_append concat_append)
  moreover have "replay (concat (map (stop_calls ?as) [0..<Suc n]) @ concat (map (stop_calls ?as) [Suc n..<3])) ?r = None"
    by (rule replay_stop_err [of _ "pe_krun env"]) (use n in \<open>simp_all add: nth_with_workers\<close>)
  ultimately show ?thesis using ret by (simp only: cs replay_append run option.case simp_thms)
qed

lemma cfm_probe_threads_ok:
  assumes k: "kernel_errors env" and hw: "hw_ok env" and w: "\<forall>i < NUM_ACCELERATORS. \<not> IS_ERR (pe_krun env i)"
    and p: "cfm_probe env = (ret, dev, cs)"
  shows "replay cs no_resources = Some (if ret = 0 then all_resources env else no_resources) \<and>
    (ret = 0 \<longrightarrow> \<not> IS_ERR (pe_device_create env NULL) \<and>
       dev = Some ((pre_workers env)\<lparr>accelerators := with_workers (pe_krun env) NUM_ACCELERATORS init_accels,
         dev_dev := pe_device_create env NULL\<rparr>))"
proof -
  let ?d = "(pre_workers env)\<lparr>accelerators := with_workers (pe_krun env) NUM_ACCELERATORS init_accels\<rparr>"
  let ?dv = "pe_device_create env NULL"
  have "dev_class ?d = NULL" by (simp add: pre_workers_def probe_setup_zero) (simp add: zero_dev_def)
  then have eq: "cfm_probe env =
    (if pe_chrdev env \<noteq> 0 then cfm_fail (pe_chrdev env) ?d (run_calls env @ [])
     else if pe_cdev_add env \<noteq> 0 then
       cfm_fail (pe_cdev_add env) ?d (run_calls env @ [Alloc_Chrdev_Region, Unregister_Chrdev_Region])
     else if IS_ERR ?dv then
       cfm_fail (PTR_ERR ?dv) (?d\<lparr>dev_dev := ?dv\<rparr>)
         (run_calls env @ [Alloc_Chrdev_Region, Cdev_Add, Device_Create ?dv, Cdev_Del, Unregister_Chrdev_Region])
     else (0, Some (?d\<lparr>dev_dev := ?dv\<rparr>), run_calls env @ [Alloc_Chrdev_Region, Cdev_Add, Device_Create ?dv]))"
    using hw cfm_start_ok [OF length_init_accels w]
    by (simp add: hw_ok_def cfm_probe_def cfm_setup_zero pre_workers_def probe_setup_zero)
  have acc: "accelerators ?d = with_workers (pe_krun env) NUM_ACCELERATORS init_accels"
    "accelerators (?d\<lparr>dev_dev := ?dv\<rparr>) = with_workers (pe_krun env) NUM_ACCELERATORS init_accels"
    by simp_all
  have neg: "IS_ERR ?dv \<Longrightarrow> PTR_ERR ?dv \<noteq> 0"
    using k unfolding IS_ERR_iff kernel_errors_def by fastforce
  have run: "replay (run_calls env) no_resources =
      Some (no_resources\<lparr>r_workers := filter is_ptr (map (pe_krun env) [0..<NUM_ACCELERATORS])\<rparr>)"
    unfolding replay_runs by (simp add: no_resources_def)
  consider (region) "pe_chrdev env \<noteq> 0" | (cdev) "pe_chrdev env = 0" "pe_cdev_add env \<noteq> 0"
    | (device) "pe_chrdev env = 0" "pe_cdev_add env = 0" "IS_ERR ?dv"
    | (ok) "pe_chrdev env = 0" "pe_cdev_add env = 0" "\<not> IS_ERR ?dv"
    by blast
  then show ?thesis
  proof cases
    case region
    with p eq have e: "cfm_fail (pe_chrdev env) ?d (run_calls env @ []) = (ret, dev, cs)" by simp
    from cfm_fail_balanced [OF w acc(1) _ e] region show ?thesis by simp
  next
    case cdev
    with p eq have e: "cfm_fail (pe_cdev_add env) ?d
        (run_calls env @ [Alloc_Chrdev_Region, Unregister_Chrdev_Region]) = (ret, dev, cs)" by simp
    from cfm_fail_balanced [OF w acc(1) _ e] cdev show ?thesis by (simp add: no_resources_def)
  next
    case device
    with p eq have e: "cfm_fail (PTR_ERR ?dv) (?d\<lparr>dev_dev := ?dv\<rparr>)
        (run_calls env @ [Alloc_Chrdev_Region, Cdev_Add, Device_Create ?dv, Cdev_Del,
          Unregister_Chrdev_Region]) = (ret, dev, cs)" by simp
    from cfm_fail_balanced [OF w acc(2) _ e] device neg show ?thesis by (simp add: no_resources_def)
  next
    case ok
    with p eq have "ret = 0" "dev = Some (?d\<lparr>dev_dev := ?dv\<rparr>)"
      "cs = run_calls env @ [Alloc_Chrdev_Region, Cdev_Add, Device_Create ?dv]"
      by auto
    with ok run show ?thesis by (simp add: replay_append all_resources_def no_resources_def)
  qed
qed

text \<open>C35. The error path of the monolith's probe, once the hardware resources are there. If no thread
  fails to start it is balanced like that of the modular driver. If one fails, the loop at
  \<open>err_stop_workers\<close> hands the error pointer to \<open>kthread_stop\<close>: the calls do not replay. And
  since the class pointer it passes to \<open>device_create\<close> is never set, probe succeeds only where
  \<open>device_create\<close> accepts a null class.\<close>

theorem monolith_probe_error_path:
  assumes "kernel_errors env" and "hw_ok env" and "cfm_probe env = (ret, dev, cs)"
  shows "replay cs no_resources =
      (if \<exists>i < NUM_ACCELERATORS. IS_ERR (pe_krun env i) then None
       else Some (if ret = 0 then all_resources env else no_resources)) \<and>
    (IS_ERR (pe_device_create env NULL) \<longrightarrow> ret \<noteq> 0)"
proof (rule start_cases [of "pe_krun env"])
  assume "\<forall>i < NUM_ACCELERATORS. \<not> IS_ERR (pe_krun env i)"
  with cfm_probe_threads_ok [OF assms(1,2) this assms(3)] show ?thesis by auto
next
  fix n assume n: "n < NUM_ACCELERATORS" "IS_ERR (pe_krun env n)" "\<forall>i < n. \<not> IS_ERR (pe_krun env i)"
  moreover have "PTR_ERR (pe_krun env n) \<noteq> 0"
    using n(2) assms(1) unfolding IS_ERR_iff kernel_errors_def by fastforce
  ultimately show ?thesis using cfm_probe_thread_fails [OF assms(2) n assms(3)] by auto
qed

theorem monolith_probe_error_path_witness:
  "\<exists>ret dev cs. cfm_probe thread_fails_env = (ret, dev, cs) \<and> replay cs no_resources = None"
proof -
  obtain ret dev cs where p: "cfm_probe thread_fails_env = (ret, dev, cs)"
    by (cases "cfm_probe thread_fails_env")
  have "hw_ok thread_fails_env" by (simp add: hw_ok_def thread_fails_env_def good_env_def)
  moreover have "\<exists>i < NUM_ACCELERATORS. IS_ERR (pe_krun thread_fails_env i)"
    by (rule exI [of _ 2]) (simp add: NUM_ACCELERATORS_def thread_fails_env_def)
  ultimately show ?thesis using monolith_probe_error_path [OF _ _ p] p by simp
qed

section \<open>The two workers agree\<close>

lemma cfm_spin_run:
  "cfm_spin env timeout start (t_state (ts ! i) = TASK_STATE_RUNNING) fuel k = Some k' \<Longrightarrow>
   \<exists>n. k' = k + n \<and> worker_run m2j (\<lambda>j. env (k + j)) n (W_Spin i timeout start, (ts, ac)) = (W_Stamp i, (ts, ac))"
proof (induction env timeout start "t_state (ts ! i) = TASK_STATE_RUNNING" fuel k rule: cfm_spin.induct)
  case (1 env timeout start k)
  then show ?case by simp
next
  case (2 env timeout start fuel k)
  show ?case
  proof (cases "fst (env k) - start < timeout \<and> t_state (ts ! i) = TASK_STATE_RUNNING")
    case False
    with "2.prems" have "k' = k + 1" by (simp split: if_splits)
    moreover have "worker_run m2j (\<lambda>j. env (k + j)) 1 (W_Spin i timeout start, (ts, ac)) = (W_Stamp i, (ts, ac))"
      using False by auto
    ultimately show ?thesis by blast
  next
    case True
    show ?thesis
    proof (cases "snd (env (Suc k))")
      case stop: True
      with True "2.prems" have "k' = k + 2" by simp
      moreover have "worker_run m2j (\<lambda>j. env (k + j)) 2 (W_Spin i timeout start, (ts, ac)) = (W_Stamp i, (ts, ac))"
        using True stop by (simp add: numeral_2_eq_2)
      ultimately show ?thesis by blast
    next
      case go: False
      from "2.hyps" [OF True go] "2.prems" True go obtain n where n: "k' = Suc (Suc k) + n"
        "worker_run m2j (\<lambda>j. env (Suc (Suc k) + j)) n (W_Spin i timeout start, (ts, ac)) = (W_Stamp i, (ts, ac))"
        by auto
      then have "worker_run m2j (\<lambda>j. env (k + j)) (Suc (Suc n)) (W_Spin i timeout start, (ts, ac)) = (W_Stamp i, (ts, ac))"
        using True go by simp
      with n(1) show ?thesis by (intro exI [of _ "Suc (Suc n)"]) simp
    qed
  qed
qed

lemma cfm_spin_fuel:
  assumes "sleeps_advance m2j (\<lambda>j. env (k + j)) (W_Spin i timeout start, (ts, ac))"
    and "unat timeout \<le> unat (fst (env k) - start) + d" and "d < fuel"
  shows "\<exists>k'. cfm_spin env timeout start (t_state (ts ! i) = TASK_STATE_RUNNING) fuel k = Some k'"
  using assms
proof (induction d arbitrary: fuel k)
  case 0
  then have "\<not> fst (env k) - start < timeout" by (simp add: word_less_nat_alt)
  with 0(3) show ?case by (cases fuel) simp_all
next
  case (Suc d)
  obtain f where f: "fuel = Suc f" "d < f" using Suc.prems(3) by (cases fuel) auto
  show ?case
  proof (cases "fst (env k) - start < timeout \<and> t_state (ts ! i) = TASK_STATE_RUNNING \<and> \<not> snd (env (Suc k))")
    case True
    note next_test = sleeps_advance_spin [OF Suc.prems(1)]
    have "unat (fst (env k) - start) < unat (fst (env (Suc (Suc k))) - start)" using next_test(1) True by simp
    moreover have "sleeps_advance m2j (\<lambda>j. env (Suc (Suc k) + j)) (W_Spin i timeout start, (ts, ac))"
      using next_test(2) True by simp
    ultimately show ?thesis using Suc.IH [of "Suc (Suc k)" f] Suc.prems(2) f True by simp
  next
    case False
    with f show ?thesis by auto
  qed
qed

text \<open>The three parts of \<open>cfm_process\<close>: before the wait, the wait, and after it.\<close>

definition cfm_wait :: "(u32 \<Rightarrow> u64) \<Rightarrow> (nat \<Rightarrow> u64 \<times> bool) \<Rightarrow> nat \<Rightarrow> cortex_forge_task \<Rightarrow> nat option" where
  "cfm_wait m2j env fuel t =
     (if t_timeout_ms t > 0 then cfm_spin env (m2j (t_timeout_ms t)) (fst (env 6)) (t_state t = TASK_STATE_RUNNING) fuel 7
      else Some 8)"

lemma cfm_process_eq:
  assumes "i < length ts" and "ts1 = upd_task i (\<lambda>t. t\<lparr>t_state := TASK_STATE_RUNNING\<rparr>) ts"
  shows "cfm_process m2j env fuel i (ts, ac) =
    map_option (\<lambda>k. (k + 6, (upd_task i (\<lambda>t. t\<lparr>t_complete_jiffies := fst (env k), t_state := TASK_STATE_COMPLETE,
        t_error_code := 0, t_done := True\<rparr>) ts1,
      ac\<lparr>a_load_percent := load_down (load_up (a_load_percent ac)),
         a_active_tasks := list_del i (a_active_tasks ac)\<rparr>))) (cfm_wait m2j env fuel (ts1 ! i))"
proof -
  have "i < length ts1" using assms by simp
  then show ?thesis
    unfolding cfm_process_def cfm_wait_def Let_def prod.case assms(2) [symmetric]
    by (simp add: load_up_def load_down_def upd_task_def split: option.splits)
qed

lemma cfm_process_run:
  assumes i: "i < length ts"
    and p: "cfm_process m2j env fuel i (ts, ac) = Some (n, c)"
  shows "\<exists>m. n = 4 + m \<and> worker_run m2j (\<lambda>k. env (4 + k)) m (W_SetRunning i, (ts, ac)) = (W_Loop, c)"
proof -
  define ts1 where "ts1 = upd_task i (\<lambda>t. t\<lparr>t_state := TASK_STATE_RUNNING\<rparr>) ts"
  define ac1 where "ac1 = ac\<lparr>a_load_percent := load_up (a_load_percent ac)\<rparr>"
  have len: "i < length ts1" using i by (simp add: ts1_def)
  from p obtain k where k: "cfm_wait m2j env fuel (ts1 ! i) = Some k" and n: "n = k + 6"
    and c: "c = (upd_task i (\<lambda>t. t\<lparr>t_complete_jiffies := fst (env k), t_state := TASK_STATE_COMPLETE,
        t_error_code := 0, t_done := True\<rparr>) ts1, ac1\<lparr>a_load_percent := load_down (a_load_percent ac1),
         a_active_tasks := list_del i (a_active_tasks ac1)\<rparr>)"
    by (auto simp: cfm_process_eq [OF i ts1_def] ac1_def)
  have "\<exists>m. k = 6 + m \<and> worker_run m2j (\<lambda>j. env (6 + j)) m (W_Start i, (ts1, ac1)) = (W_Stamp i, (ts1, ac1))"
  proof (cases "t_timeout_ms (ts1 ! i) > 0")
    case True
    with k obtain m where "k = 7 + m" "worker_run m2j (\<lambda>j. env (7 + j)) m
        (W_Spin i (m2j (t_timeout_ms (ts1 ! i))) (fst (env 6)), (ts1, ac1)) = (W_Stamp i, (ts1, ac1))"
      using cfm_spin_run by (fastforce simp: cfm_wait_def)
    with True show ?thesis by (intro exI [of _ "Suc m"]) simp
  next
    case False
    with k show ?thesis by (intro exI [of _ 2]) (simp add: numeral_2_eq_2 cfm_wait_def)
  qed
  then obtain m where m: "k = 6 + m" "worker_run m2j (\<lambda>j. env (6 + j)) m (W_Start i, (ts1, ac1)) = (W_Stamp i, (ts1, ac1))"
    by blast
  have two: "worker_run m2j (\<lambda>k. env (4 + k)) 2 (W_SetRunning i, (ts, ac)) = (W_Start i, (ts1, ac1))"
    by (simp add: numeral_2_eq_2 ts1_def ac1_def)
  have "worker_run m2j (\<lambda>k. env (4 + k)) (2 + (m + 6)) (W_SetRunning i, (ts, ac)) =
      worker_run m2j (\<lambda>j. env (k + j)) 6 (W_Stamp i, (ts1, ac1))"
    unfolding worker_run_add two using m by (simp add: add.assoc [symmetric])
  also have "\<dots> = (W_Loop, c)"
    unfolding worker_finishes [OF len] c by simp
  finally show ?thesis using m(1) n by (intro exI [of _ "2 + (m + 6)"]) simp
qed

lemma cfm_wait_fuel:
  assumes "sleeps_advance m2j (\<lambda>k. env (6 + k)) (W_Start i, (ts, ac))" and "unat (m2j (t_timeout_ms (ts ! i))) < fuel"
  shows "\<exists>k. cfm_wait m2j env fuel (ts ! i) = Some k"
proof (cases "t_timeout_ms (ts ! i) > 0")
  case True
  let ?T = "m2j (t_timeout_ms (ts ! i))"
  have "worker_run m2j (\<lambda>k. env (6 + k)) 1 (W_Start i, (ts, ac)) = (W_Spin i ?T (fst (env 6)), (ts, ac))"
    using True by simp
  from sleeps_advance_shift [OF assms(1) this]
  have "sleeps_advance m2j (\<lambda>k. env (7 + k)) (W_Spin i ?T (fst (env 6)), (ts, ac))" by simp
  from cfm_spin_fuel [OF this, of "unat ?T" fuel] assms(2) True show ?thesis by (simp add: cfm_wait_def)
qed (simp add: cfm_wait_def)

text \<open>C17. With nobody interfering, one pass of the monolith's worker loop is the modular worker run for
  the corresponding number of steps: same end of the pass, same tasks, same accelerator. And the
  pass ends: fuel above the task's timeout in jiffies is enough, if the clock advances with every
  \<open>msleep(1)\<close> of its timeout loop.\<close>

theorem monolith_worker_agrees:
  assumes "\<forall>i \<in> set (a_task_queue ac). i < length ts"
    and "sleeps_advance m2j env (W_Loop, (ts, ac))" and "\<forall>i \<in> set (a_task_queue ac). unat (m2j (t_timeout_ms (ts ! i))) \<le> K"
    and "K < fuel"
  shows "\<exists>pc n c. cfm_accel_worker_thread m2j env fuel (ts, ac) = Some (pc, n, c) \<and>
    worker_run m2j env n (W_Loop, (ts, ac)) = (pc, c) \<and> (pc = W_Loop \<longleftrightarrow> a_running ac \<noteq> 0)"
proof (cases "a_running ac = 0")
  case True
  then have "cfm_accel_worker_thread m2j env fuel (ts, ac) = Some (W_Exit, 1, (ts, ac))"
    "worker_run m2j env 1 (W_Loop, (ts, ac)) = (W_Exit, (ts, ac))"
    by (simp_all add: cfm_accel_worker_thread_def)
  with True show ?thesis by blast
next
  case running: False
  show ?thesis
  proof (cases "a_task_queue ac")
    case Nil
    with running have "cfm_accel_worker_thread m2j env fuel (ts, ac) = Some (W_Loop, 4, (ts, ac))"
      "worker_run m2j env 4 (W_Loop, (ts, ac)) = (W_Loop, (ts, ac))"
      by (simp_all add: cfm_accel_worker_thread_def list_empty_def numeral_eq_Suc)
    with running show ?thesis by blast
  next
    case (Cons i q)
    let ?ac = "ac\<lparr>a_task_queue := q, a_active_tasks := list_add_tail i (a_active_tasks ac)\<rparr>"
    let ?ts1 = "upd_task i (\<lambda>t. t\<lparr>t_state := TASK_STATE_RUNNING\<rparr>) ts"
    let ?ac1 = "?ac\<lparr>a_load_percent := load_up (a_load_percent ac)\<rparr>"
    have i: "i < length ts" and T: "unat (m2j (t_timeout_ms (?ts1 ! i))) < fuel"
      using assms(1,3,4) Cons by (force simp: nth_upd_task)+
    have four: "worker_run m2j env 4 (W_Loop, (ts, ac)) = (W_SetRunning i, (ts, ?ac))"
      using running Cons by (simp add: numeral_eq_Suc list_defs)
    have "worker_run m2j (\<lambda>k. env (4 + k)) 2 (W_SetRunning i, (ts, ?ac)) = (W_Start i, (?ts1, ?ac1))"
      by (simp add: numeral_2_eq_2)
    with four have "worker_run m2j env (4 + 2) (W_Loop, (ts, ac)) = (W_Start i, (?ts1, ?ac1))"
      by (simp only: worker_run_add)
    then obtain k where "cfm_wait m2j env fuel (?ts1 ! i) = Some k"
      using cfm_wait_fuel [OF sleeps_advance_shift [OF assms(2), of 6] T] by auto
    then obtain n c where p: "cfm_process m2j env fuel i (ts, ?ac) = Some (n, c)"
      by (simp add: cfm_process_eq [OF i refl])
    obtain m where m: "n = 4 + m" "worker_run m2j (\<lambda>k. env (4 + k)) m (W_SetRunning i, (ts, ?ac)) = (W_Loop, c)"
      using cfm_process_run [OF i p] by blast
    from four m have "worker_run m2j env n (W_Loop, (ts, ac)) = (W_Loop, c)" by (simp add: worker_run_add)
    moreover have "cfm_accel_worker_thread m2j env fuel (ts, ac) = Some (W_Loop, n, c)"
      using running Cons p by (simp add: cfm_accel_worker_thread_def list_defs)
    ultimately show ?thesis using running by blast
  qed
qed

theorem monolith_worker_agrees_witness:
  "\<exists>n c. cfm_accel_worker_thread unsigned (\<lambda>k. (of_nat k, False)) 4
       ([zero_task\<lparr>t_timeout_ms := 3\<rparr>], (hd init_accels)\<lparr>a_task_queue := [0]\<rparr>) = Some (W_Loop, n, c) \<and>
     worker_run unsigned (\<lambda>k. (of_nat k, False)) n
       (W_Loop, ([zero_task\<lparr>t_timeout_ms := 3\<rparr>], (hd init_accels)\<lparr>a_task_queue := [0]\<rparr>)) = (W_Loop, c)"
proof -
  let ?ts = "[zero_task\<lparr>t_timeout_ms := 3\<rparr>]" and ?ac = "(hd init_accels)\<lparr>a_task_queue := [0]\<rparr>"
  obtain ts where "worker_run unsigned (\<lambda>k. (of_nat k, False)) 16 (W_Loop, (?ts, ?ac)) = (W_Loop, (ts, ?ac\<lparr>a_task_queue := []\<rparr>))"
    using timed_pass [of ?ac 0 "[]" ?ts "\<lambda>k. (of_nat k, False)" unsigned] by (auto simp: init_accels_def accel_init_def)
  then have "sleeps_advance unsigned (\<lambda>k. (of_nat k, False)) (W_Loop, (?ts, ?ac))"
    by (rule ticking_clock) simp_all
  then show ?thesis
    using monolith_worker_agrees [of "(hd init_accels)\<lparr>a_task_queue := [0]\<rparr>" "[zero_task\<lparr>t_timeout_ms := 3\<rparr>]"
        unsigned "\<lambda>k. (of_nat k, False)" 3 4]
    by (auto simp: init_accels_def accel_init_def)
qed

end
