(* ===== verification/Lib_Forge.thy ===== *)
theory Lib_Forge
  imports Forge_Main
begin

text \<open>
  \<^verbatim>\<open>lib/src/libcortex-forge.c\<close> and \<^verbatim>\<open>lib/include/libcortex-forge.h\<close>: the user-space library. It
  declares its own structures and derives its own command numbers from them. The C library
  and the system calls are parameters: \<open>open\<close> yields a descriptor or an error number,
  \<open>calloc\<close> succeeds or not, and \<open>sys fd cmd arg w\<close> is what the kernel does with an ioctl on a
  world \<open>w\<close> (device and user memory). A pointer argument is an address or, for a null
  pointer, \<open>None\<close>. What the library relies on in a driver is the locale \<open>forge_driver\<close>,
  interpreted on the handlers of both drivers.
\<close>

section \<open>Structures and command numbers\<close>

definition lib_task_desc_decl :: struct_decl where
  "lib_task_desc_decl =
     [(''task_id'', CU32), (''accel_type'', CU32), (''priority'', CU32), (''input_size'', CU32),
      (''output_size'', CU32), (''input_addr'', CPtr), (''output_addr'', CPtr),
      (''timeout_ms'', CU32), (''flags'', CU32)]"

definition lib_task_status_decl :: struct_decl where
  "lib_task_status_decl =
     [(''task_id'', CU32), (''status'', CU32), (''exec_usec'', CU64), (''error_code'', CS32)]"

definition lib_accel_info_decl :: struct_decl where
  "lib_accel_info_decl =
     [(''accel_type'', CU32), (''freq_hz'', CU32), (''temp_celsius'', CS32),
      (''load_percent'', CU32), (''fw_version'', CU32), (''hw_version'', CU32),
      (''mem_total'', CU64), (''mem_free'', CU64), (''state'', CU32)]"

text \<open>The constants of the public header.\<close>

definition lib_accel_codes :: "(string \<times> u32) list" where
  "lib_accel_codes = [(''DLA0'', 0), (''DLA1'', 1), (''PVA0'', 2)]"

definition lib_task_codes :: "(string \<times> u32) list" where
  "lib_task_codes = [(''PENDING'', 0), (''RUNNING'', 1), (''COMPLETE'', 2), (''FAILED'', 3), (''CANCELLED'', 4)]"

definition LIB_MAGIC :: u32 where "LIB_MAGIC = 0xCF"

definition LIB_IOCTL_SUBMIT_TASK :: u32 where
  "LIB_IOCTL_SUBMIT_TASK = IOWR LIB_MAGIC 1 (sizeof lib_task_desc_decl)"
definition LIB_IOCTL_QUERY_TASK :: u32 where
  "LIB_IOCTL_QUERY_TASK = IOWR LIB_MAGIC 2 (sizeof lib_task_status_decl)"
definition LIB_IOCTL_CANCEL_TASK :: u32 where
  "LIB_IOCTL_CANCEL_TASK = IOW LIB_MAGIC 3 4"
definition LIB_IOCTL_GET_ACCEL_INFO :: u32 where
  "LIB_IOCTL_GET_ACCEL_INFO = IOR LIB_MAGIC 4 (sizeof lib_accel_info_decl)"
definition LIB_IOCTL_SET_POWER :: u32 where
  "LIB_IOCTL_SET_POWER = IOW LIB_MAGIC 5 4"
definition LIB_IOCTL_GET_VERSION :: u32 where
  "LIB_IOCTL_GET_VERSION = IOR LIB_MAGIC 6 4"

section \<open>State\<close>

text \<open>
  A handle, and what the calling thread and process hold: \<open>errno\<close>, the open descriptors, and
  the numbers of allocated handles and of initialised mutexes.
\<close>

record cortex_forge_handle =
  h_fd :: int
  h_locked :: bool
  h_path :: "char list"

record lib_state =
  l_errno :: int
  l_fds :: "int list"
  l_handles :: nat
  l_mutexes :: nat

section \<open>Opening and closing\<close>

definition lib_open :: "(string \<Rightarrow> int + int) \<Rightarrow> bool \<Rightarrow> string option \<Rightarrow> lib_state \<Rightarrow>
    cortex_forge_handle option \<times> lib_state" where
  "lib_open sys_open calloc_ok p st =
     (case p of
        None \<Rightarrow> (None, st\<lparr>l_errno := errno_code EINVAL\<rparr>)
      | Some path \<Rightarrow>
          (case sys_open path of
             Inl e \<Rightarrow> (None, st\<lparr>l_errno := e\<rparr>)
           | Inr fd \<Rightarrow>
               let st1 = st\<lparr>l_fds := fd # l_fds st\<rparr> in
               if \<not> calloc_ok then
                 (None, st1\<lparr>l_errno := errno_code ENOMEM, l_fds := remove1 fd (l_fds st1)\<rparr>)
               else
                 (Some \<lparr>h_fd = fd, h_locked = False,
                    h_path = strncpy (replicate 256 (CHR 0x00)) path 255\<rparr>,
                  st1\<lparr>l_handles := l_handles st1 + 1, l_mutexes := l_mutexes st1 + 1\<rparr>)))"

definition lib_close :: "cortex_forge_handle option \<Rightarrow> lib_state \<Rightarrow> lib_state" where
  "lib_close h st =
     (case h of
        None \<Rightarrow> st
      | Some hh \<Rightarrow>
          let st1 = st\<lparr>l_mutexes := l_mutexes st - 1\<rparr>;
              st2 = st1\<lparr>l_fds := remove1 (h_fd hh) (l_fds st1)\<rparr>
          in st2\<lparr>l_handles := l_handles st2 - 1\<rparr>)"

section \<open>The calls\<close>

text \<open>The C library's \<open>ioctl\<close>: an error range result of the kernel becomes \<open>-1\<close> and \<open>errno\<close>.\<close>

type_synonym 'w syscall = "int \<Rightarrow> u32 \<Rightarrow> u64 \<Rightarrow> 'w \<Rightarrow> int \<times> 'w"

definition libc_ioctl :: "'w syscall \<Rightarrow> int \<Rightarrow> u32 \<Rightarrow> u64 \<Rightarrow> lib_state \<times> 'w \<Rightarrow> int \<times> lib_state \<times> 'w" where
  "libc_ioctl sys fd cmd arg = (\<lambda>(st, w).
     let (r, w1) = sys fd cmd arg w
     in if - 4095 \<le> r \<and> r < 0 then (- 1, st\<lparr>l_errno := - r\<rparr>, w1) else (r, st, w1))"

text \<open>
  The body all six calls share, after their argument checks: lock, ioctl, unlock, and the
  result from \<open>errno\<close>. \<open>None\<close>: the handle's mutex is already held and the call blocks.
\<close>

definition locked_ioctl :: "'w syscall \<Rightarrow> cortex_forge_handle \<Rightarrow> u32 \<Rightarrow> u64 \<Rightarrow> lib_state \<times> 'w \<Rightarrow>
    (int \<times> cortex_forge_handle \<times> lib_state \<times> 'w) option" where
  "locked_ioctl sys h cmd arg s =
     (if h_locked h then None
      else
        let h1 = h\<lparr>h_locked := True\<rparr>;
            (r, st, w) = libc_ioctl sys (h_fd h1) cmd arg s;
            h2 = h1\<lparr>h_locked := False\<rparr>
        in Some (if r < 0 then - l_errno st else 0, h2, st, w))"

type_synonym 'w lib_result = "(int \<times> cortex_forge_handle option \<times> lib_state \<times> 'w) option"

definition lib_call :: "'w syscall \<Rightarrow> u32 \<Rightarrow> cortex_forge_handle option \<Rightarrow> u64 option \<Rightarrow>
    lib_state \<times> 'w \<Rightarrow> 'w lib_result" where
  "lib_call sys cmd h p s =
     (case (h, p) of
        (Some hh, Some a) \<Rightarrow>
          map_option (\<lambda>(r, h1, st, w). (r, Some h1, st, w)) (locked_ioctl sys hh cmd a s)
      | _ \<Rightarrow> Some (neg_errno EINVAL, h, fst s, snd s))"

definition cortex_forge_submit_task :: "'w syscall \<Rightarrow> cortex_forge_handle option \<Rightarrow> u64 option \<Rightarrow>
    lib_state \<times> 'w \<Rightarrow> 'w lib_result" where
  "cortex_forge_submit_task sys h d s = lib_call sys LIB_IOCTL_SUBMIT_TASK h d s"

definition cortex_forge_query_task :: "'w syscall \<Rightarrow> cortex_forge_handle option \<Rightarrow> u64 option \<Rightarrow>
    lib_state \<times> 'w \<Rightarrow> 'w lib_result" where
  "cortex_forge_query_task sys h p s = lib_call sys LIB_IOCTL_QUERY_TASK h p s"

definition cortex_forge_get_accel_info :: "'w syscall \<Rightarrow> cortex_forge_handle option \<Rightarrow> u64 option \<Rightarrow>
    lib_state \<times> 'w \<Rightarrow> 'w lib_result" where
  "cortex_forge_get_accel_info sys h i s = lib_call sys LIB_IOCTL_GET_ACCEL_INFO h i s"

definition cortex_forge_get_version :: "'w syscall \<Rightarrow> cortex_forge_handle option \<Rightarrow> u64 option \<Rightarrow>
    lib_state \<times> 'w \<Rightarrow> 'w lib_result" where
  "cortex_forge_get_version sys h v s = lib_call sys LIB_IOCTL_GET_VERSION h v s"

text \<open>
  Two calls pass the address of a parameter, a local object of the call: \<open>push\<close> puts its bytes
  on the stack of the world and gives its address.
\<close>

definition cortex_forge_cancel_task :: "'w syscall \<Rightarrow> (u8 list \<Rightarrow> 'w \<Rightarrow> u64 \<times> 'w) \<Rightarrow>
    cortex_forge_handle option \<Rightarrow> u32 \<Rightarrow> lib_state \<times> 'w \<Rightarrow> 'w lib_result" where
  "cortex_forge_cancel_task sys push h tid s =
     (if h = None then Some (neg_errno EINVAL, h, fst s, snd s)
      else let (a, w) = push (bytes4 tid) (snd s) in lib_call sys LIB_IOCTL_CANCEL_TASK h (Some a) (fst s, w))"

definition cortex_forge_set_power :: "'w syscall \<Rightarrow> (u8 list \<Rightarrow> 'w \<Rightarrow> u64 \<times> 'w) \<Rightarrow>
    cortex_forge_handle option \<Rightarrow> u32 \<Rightarrow> lib_state \<times> 'w \<Rightarrow> 'w lib_result" where
  "cortex_forge_set_power sys push h mode s =
     (if h = None then Some (neg_errno EINVAL, h, fst s, snd s)
      else let (a, w) = push (bytes4 mode) (snd s) in lib_call sys LIB_IOCTL_SET_POWER h (Some a) (fst s, w))"

text \<open>\<open>strerror\<close> is the C library's.\<close>

definition cortex_forge_strerror :: "(int \<Rightarrow> string) \<Rightarrow> int \<Rightarrow> string" where
  "cortex_forge_strerror strerror e =
     (if e = 0 then ''Success''
      else if e = neg_errno EINVAL then ''Invalid argument''
      else if e = neg_errno EFAULT then ''Bad address''
      else if e = neg_errno ENOMEM then ''Out of memory''
      else if e = neg_errno ENOENT then ''Task not found''
      else if e = neg_errno ENOTTY then ''Invalid ioctl command''
      else if e = neg_errno EBUSY then ''Device busy''
      else if e = neg_errno ETIMEDOUT then ''Operation timed out''
      else if e = neg_errno E2BIG then ''Data too large''
      else if e = neg_errno ECANCELED then ''Task cancelled''
      else strerror (- e))"

lemmas lib_calls =
  cortex_forge_submit_task_def cortex_forge_query_task_def cortex_forge_get_accel_info_def
  cortex_forge_get_version_def cortex_forge_cancel_task_def cortex_forge_set_power_def

section \<open>The contract of a driver\<close>

lemma lib_sizes [simp]:
  "sizeof lib_task_desc_decl = 48" "sizeof lib_task_status_decl = 24" "sizeof lib_accel_info_decl = 48"
  by (simp_all add: sizeof_def struct_align_def align_up_def lib_task_desc_decl_def
      lib_task_status_decl_def lib_accel_info_decl_def)

lemma lib_values:
  "LIB_IOCTL_SUBMIT_TASK = 0xC030CF01" "LIB_IOCTL_QUERY_TASK = 0xC018CF02"
  "LIB_IOCTL_GET_ACCEL_INFO = 0x8030CF04" "LIB_IOCTL_CANCEL_TASK = CORTEX_FORGE_IOCTL_CANCEL_TASK"
  "LIB_IOCTL_SET_POWER = CORTEX_FORGE_IOCTL_SET_POWER" "LIB_IOCTL_GET_VERSION = CORTEX_FORGE_IOCTL_GET_VERSION"
  by (simp_all add: LIB_IOCTL_SUBMIT_TASK_def LIB_IOCTL_QUERY_TASK_def LIB_IOCTL_GET_ACCEL_INFO_def
      LIB_IOCTL_CANCEL_TASK_def LIB_IOCTL_SET_POWER_def LIB_IOCTL_GET_VERSION_def LIB_MAGIC_def
      ioctl_cmd_defs ioctl_encoding_defs)

definition driver_errors :: "errno list" where
  "driver_errors = [EFAULT, EINVAL, E2BIG, ENOMEM, ENOENT, ENOTTY]"

text \<open>The kernel with the device open at descriptor \<open>fd0\<close>; \<open>-9\<close> is \<open>-EBADF\<close>.\<close>

definition drv_syscall :: "('m uaccess \<Rightarrow> u64 \<Rightarrow> u64 \<Rightarrow> cortex_forge_dev \<Rightarrow> 'm \<Rightarrow> u32 \<Rightarrow> u64 \<Rightarrow>
    int \<times> cortex_forge_dev \<times> 'm) \<Rightarrow> 'm uaccess \<Rightarrow> u64 \<Rightarrow> u64 \<Rightarrow> int \<Rightarrow> (cortex_forge_dev \<times> 'm) syscall" where
  "drv_syscall handler ua hz now fd0 fd cmd a = (\<lambda>(d, m).
     if fd = fd0 then (let (r, d1, m1) = handler ua hz now d m cmd a in (r, (d1, m1))) else (- 9, (d, m)))"

locale forge_driver =
  fixes handler :: "'m uaccess \<Rightarrow> u64 \<Rightarrow> u64 \<Rightarrow> cortex_forge_dev \<Rightarrow> 'm \<Rightarrow> u32 \<Rightarrow> u64 \<Rightarrow>
    int \<times> cortex_forge_dev \<times> 'm"
  assumes unknown: "cmd \<notin> set ioctl_commands \<Longrightarrow> handler ua hz now d m cmd a = (neg_errno ENOTTY, d, m)"
    and cancel: "dev_inv d \<Longrightarrow> copy_from_user ua m a 4 = Some bs \<Longrightarrow>
      handler ua hz now d m CORTEX_FORGE_IOCTL_CANCEL_TASK a =
        (fst (task_cancel (tasks d) (le_get 4 0 bs)), d\<lparr>tasks := snd (task_cancel (tasks d) (le_get 4 0 bs))\<rparr>, m)"
    and power: "dev_inv d \<Longrightarrow> copy_from_user ua m a 4 = Some bs \<Longrightarrow>
      handler ua hz now d m CORTEX_FORGE_IOCTL_SET_POWER a =
        ((if (le_get 4 0 bs :: u32) > 2 then neg_errno EINVAL else 0), d, m)"
    and version: "dev_inv d \<Longrightarrow> copy_to_user ua m a (bytes4 0x00010000) = (m1, ok) \<Longrightarrow>
      handler ua hz now d m CORTEX_FORGE_IOCTL_GET_VERSION a = ((if ok then 0 else neg_errno EFAULT), d, m1)"
    and errors: "dev_inv d \<Longrightarrow> handler ua hz now d m cmd a = (r, d1, m1) \<Longrightarrow>
      r = 0 \<or> r \<in> neg_errno ` set driver_errors"
begin

lemma call_result:
  assumes "dev_inv d" and "\<not> h_locked h" and "h_fd h = fd0" and "handler ua hz now d m cmd a = (r, d1, m1)"
  shows "lib_call (drv_syscall handler ua hz now fd0) cmd (Some h) (Some a) (st, (d, m)) =
    Some (r, Some h, (if r = 0 then st else st\<lparr>l_errno := - r\<rparr>), (d1, m1))"
proof -
  have "h\<lparr>h_locked := False\<rparr> = h" using assms(2) by simp
  moreover from errors [OF assms(1,4)] consider "r = 0" | e where "r = neg_errno e" "e \<in> set driver_errors"
    by auto
  then have "r = 0 \<or> - 4095 \<le> r \<and> r < 0"
    by cases (auto simp: driver_errors_def neg_errno_def)
  ultimately show ?thesis
    using assms(2-4) by (auto simp: lib_call_def locked_ioctl_def libc_ioctl_def drv_syscall_def)
qed

lemma mismatched_call:
  assumes "dev_inv d" and "\<not> h_locked h" and "h_fd h = fd0"
    and "cmd \<in> {LIB_IOCTL_SUBMIT_TASK, LIB_IOCTL_QUERY_TASK, LIB_IOCTL_GET_ACCEL_INFO}"
  shows "lib_call (drv_syscall handler ua hz now fd0) cmd (Some h) (Some a) (st, (d, m)) =
    Some (neg_errno ENOTTY, Some h, st\<lparr>l_errno := errno_code ENOTTY\<rparr>, (d, m))"
proof -
  have "cmd \<notin> set ioctl_commands"
    using assms(4) by (auto simp: ioctl_commands_def ioctl_values lib_values)
  from call_result [OF assms(1-3) unknown [OF this]] show ?thesis by (simp add: neg_errno_def)
qed

end

lemma ioctl_return_codes:
  assumes inv: "dev_inv d" and r: "cortex_forge_ioctl ua hz now d m cmd a = (r, d1, m1)"
  shows "r = 0 \<or> r \<in> neg_errno ` set driver_errors"
proof (cases "cmd = CORTEX_FORGE_IOCTL_SUBMIT_TASK")
  case True
  with r have s: "ioctl_submit_task ua now d m a = (r, d1, m1)" by (simp add: ioctl_dispatch)
  show ?thesis
  proof (cases "copy_from_user ua m a 80")
    case None
    with s show ?thesis by (auto simp: ioctl_submit_task_def driver_errors_def)
  next
    case (Some bs)
    show ?thesis
    proof (cases "check_desc (dec_task_desc bs)")
      case None
      with inv show ?thesis
        by (rule submit_desc_cases [where now = now])
          (use s Some None in \<open>auto simp: ioctl_submit_task_def driver_errors_def Let_def split: prod.splits if_splits\<close>)
    next
      case (Some e)
      then have "e \<in> {EINVAL, E2BIG}" by (auto simp: check_desc_def split: if_splits)
      with s Some \<open>copy_from_user ua m a 80 = Some bs\<close> show ?thesis
        by (auto simp: ioctl_submit_task_def driver_errors_def)
    qed
  qed
next
  case False
  with r show ?thesis
    unfolding cortex_forge_ioctl_def read_only_handlers ioctl_cancel_task_def task_query_def task_cancel_def
    by (auto simp: driver_errors_def Let_def split: if_splits option.splits prod.splits)
qed

lemma modular_cancel:
  "copy_from_user ua m a 4 = Some bs \<Longrightarrow> cortex_forge_ioctl ua hz now d m CORTEX_FORGE_IOCTL_CANCEL_TASK a =
    (fst (task_cancel (tasks d) (le_get 4 0 bs)), d\<lparr>tasks := snd (task_cancel (tasks d) (le_get 4 0 bs))\<rparr>, m)"
  by (simp add: ioctl_dispatch ioctl_cancel_task_def split: prod.splits)

interpretation modular: forge_driver cortex_forge_ioctl
proof
  fix d :: cortex_forge_dev and ua :: "'m uaccess" and hz now m cmd a r d1 m1
  assume "dev_inv d" "cortex_forge_ioctl ua hz now d m cmd a = (r, d1, m1)"
  then show "r = 0 \<or> r \<in> neg_errno ` set driver_errors" by (rule ioctl_return_codes)
qed (auto simp: modular_cancel ioctl_commands_def cortex_forge_ioctl_def ioctl_values ioctl_cancel_task_def
    ioctl_set_power_def ioctl_get_version_def split: prod.splits)

lemma cfm_unknown:
  "cmd \<notin> set ioctl_commands \<Longrightarrow> cfm_ioctl ua hz now d m cmd a = (neg_errno ENOTTY, d, m)"
  by (simp add: ioctl_commands_def cfm_ioctl_def)

interpretation monolith: forge_driver cfm_ioctl
  by unfold_locales
    (simp_all add: cfm_unknown cfm_ioctl_eq modular.cancel modular.power modular.version, rule modular.errors)

section \<open>Properties\<close>

text \<open>
  One declaration is laid out as the beginning of another: the same members at the same offsets
  and of the same sizes, followed in the longer one by the reserved member only.
\<close>

definition layout_prefix :: "struct_decl \<Rightarrow> struct_decl \<Rightarrow> bool" where
  "layout_prefix lib drv \<longleftrightarrow>
     field_offsets 0 lib = take (length lib) (field_offsets 0 drv) \<and>
     map (\<lambda>(f, t). (f, csize t)) lib = take (length lib) (map (\<lambda>(f, t). (f, csize t)) drv) \<and>
     map fst (drop (length lib) drv) = [''reserved'']"

text \<open>The library's view of the interface is the driver's but for the reserved members: each of its
  three structures is laid out as the beginning of the driver's structure of the same name, 32
  or 8 bytes shorter; its command numbers agree with the driver's in direction, type and number
  and differ in the size field only; and its constants for accelerators and task states are
  those of the user header.\<close>

lemma library_layout_prefix:
  "layout_prefix lib_task_desc_decl task_desc_decl \<and> sizeof lib_task_desc_decl + 32 = sizeof task_desc_decl \<and>
   layout_prefix lib_task_status_decl task_status_decl \<and> sizeof lib_task_status_decl + 8 = sizeof task_status_decl \<and>
   layout_prefix lib_accel_info_decl accel_info_decl \<and> sizeof lib_accel_info_decl + 8 = sizeof accel_info_decl \<and>
   LIB_IOCTL_SUBMIT_TASK + push_bit 16 32 = CORTEX_FORGE_IOCTL_SUBMIT_TASK \<and>
   LIB_IOCTL_QUERY_TASK + push_bit 16 8 = CORTEX_FORGE_IOCTL_QUERY_TASK \<and>
   LIB_IOCTL_GET_ACCEL_INFO + push_bit 16 8 = CORTEX_FORGE_IOCTL_GET_ACCEL_INFO \<and>
   map snd lib_accel_codes = [CORTEX_FORGE_ACCEL_DLA0, CORTEX_FORGE_ACCEL_DLA1, CORTEX_FORGE_ACCEL_PVA0] \<and>
   map snd lib_task_codes = [CORTEX_FORGE_TASK_PENDING, CORTEX_FORGE_TASK_RUNNING, CORTEX_FORGE_TASK_COMPLETE,
     CORTEX_FORGE_TASK_FAILED, CORTEX_FORGE_TASK_CANCELLED]"
proof (intro conjI)
  show "layout_prefix lib_task_desc_decl task_desc_decl"
    by (simp add: layout_prefix_def lib_task_desc_decl_def task_desc_decl_def align_up_def)
  show "layout_prefix lib_task_status_decl task_status_decl"
    by (simp add: layout_prefix_def lib_task_status_decl_def task_status_decl_def align_up_def)
  show "layout_prefix lib_accel_info_decl accel_info_decl"
    by (simp add: layout_prefix_def lib_accel_info_decl_def accel_info_decl_def align_up_def)
qed (simp_all add: lib_values ioctl_values uapi_task_codes uapi_accel_codes lib_accel_codes_def lib_task_codes_def push_bit_eq_mult)

text \<open>C36. The library's structures lack the reserved members of the driver's, so its numbers for
  submit, query and accelerator information are not those of the driver: on either driver each of
  these three calls returns \<open>-ENOTTY\<close> for every handle and argument, and neither the device nor
  user memory changes.\<close>

theorem library_calls_mismatched:
  assumes "dev_inv d" and "\<not> h_locked h" and "h_fd h = fd0"
    and "handler = cortex_forge_ioctl \<or> handler = cfm_ioctl"
    and "call \<in> {cortex_forge_submit_task, cortex_forge_query_task, cortex_forge_get_accel_info}"
  shows "call (drv_syscall handler ua hz now fd0) (Some h) (Some a) (st, (d, m)) =
    Some (neg_errno ENOTTY, Some h, st\<lparr>l_errno := 25\<rparr>, (d, m))"
proof -
  have "\<exists>cmd \<in> {LIB_IOCTL_SUBMIT_TASK, LIB_IOCTL_QUERY_TASK, LIB_IOCTL_GET_ACCEL_INFO}.
      call (drv_syscall handler ua hz now fd0) (Some h) (Some a) (st, (d, m)) =
      lib_call (drv_syscall handler ua hz now fd0) cmd (Some h) (Some a) (st, (d, m))"
    using assms(5) by (auto simp: lib_calls)
  then obtain cmd where cmd: "cmd \<in> {LIB_IOCTL_SUBMIT_TASK, LIB_IOCTL_QUERY_TASK, LIB_IOCTL_GET_ACCEL_INFO}"
    and c: "call (drv_syscall handler ua hz now fd0) (Some h) (Some a) (st, (d, m)) =
      lib_call (drv_syscall handler ua hz now fd0) cmd (Some h) (Some a) (st, (d, m))" ..
  from assms(4) show ?thesis
  proof
    assume "handler = cortex_forge_ioctl"
    then show ?thesis unfolding c by (simp only: modular.mismatched_call [OF assms(1-3) cmd] errno_code.simps)
  next
    assume "handler = cfm_ioctl"
    then show ?thesis unfolding c by (simp only: monolith.mismatched_call [OF assms(1-3) cmd] errno_code.simps)
  qed
qed

theorem library_calls_mismatched_witness:
  "cortex_forge_submit_task (drv_syscall cortex_forge_ioctl flat_uaccess 250 7 3)
     (Some \<lparr>h_fd = 3, h_locked = False, h_path = []\<rparr>) (Some 0x1000)
     (\<lparr>l_errno = 0, l_fds = [3], l_handles = 1, l_mutexes = 1\<rparr>, (fresh_dev, um_holding 0x1000 (enc_task_desc sample_desc))) =
   Some (- 25, Some \<lparr>h_fd = 3, h_locked = False, h_path = []\<rparr>,
     \<lparr>l_errno = 25, l_fds = [3], l_handles = 1, l_mutexes = 1\<rparr>, (fresh_dev, um_holding 0x1000 (enc_task_desc sample_desc)))"
  using library_calls_mismatched [OF fresh_dev_facts(1), of "\<lparr>h_fd = 3, h_locked = False, h_path = []\<rparr>" 3
      cortex_forge_ioctl cortex_forge_submit_task flat_uaccess 250 7 "0x1000"
      "\<lparr>l_errno = 0, l_fds = [3], l_handles = 1, l_mutexes = 1\<rparr>" "um_holding 0x1000 (enc_task_desc sample_desc)"]
  by (simp add: neg_errno_def)

lemma lib_cancel:
  assumes "dev_inv d" and "\<not> h_locked h" and "h_fd h = fd0"
    and "push (bytes4 w) (d, m) = (sp, (d, m1))" and "copy_from_user ua m1 sp 4 = Some (bytes4 w)"
  shows "\<exists>r ts st'. cortex_forge_cancel_task (drv_syscall cortex_forge_ioctl ua hz now fd0) push (Some h) w (st, (d, m)) =
      Some (r, Some h, st', (d\<lparr>tasks := ts\<rparr>, m1)) \<and> spec_cancel w (abs_dev d) = (r, abs_dev (d\<lparr>tasks := ts\<rparr>))"
proof -
  obtain r ts where c: "task_cancel (tasks d) w = (r, ts)" by (cases "task_cancel (tasks d) w")
  have "cortex_forge_ioctl ua hz now d m1 LIB_IOCTL_CANCEL_TASK sp = (r, d\<lparr>tasks := ts\<rparr>, m1)"
    using modular.cancel [OF assms(1,5)] by (simp add: lib_values le_get_le_bytes4 c)
  from modular.call_result [OF assms(1-3) this] cancel_abs [OF assms(1) c]
  show ?thesis by (simp add: lib_calls assms(4)) blast
qed

lemma lib_power:
  assumes "dev_inv d" and "\<not> h_locked h" and "h_fd h = fd0"
    and "push (bytes4 w) (d, m) = (sp, (d, m1))" and "copy_from_user ua m1 sp 4 = Some (bytes4 w)"
  shows "\<exists>st'. cortex_forge_set_power (drv_syscall cortex_forge_ioctl ua hz now fd0) push (Some h) w (st, (d, m)) =
      Some (if w \<le> 2 then 0 else neg_errno EINVAL, Some h, st', (d, m1))"
proof -
  have "cortex_forge_ioctl ua hz now d m1 LIB_IOCTL_SET_POWER sp = (if w \<le> 2 then 0 else neg_errno EINVAL, d, m1)"
    using modular.power [OF assms(1,5)] by (auto simp: lib_values le_get_le_bytes4 not_less)
  from modular.call_result [OF assms(1-3) this] show ?thesis by (simp add: lib_calls assms(4))
qed

lemma lib_version:
  assumes "user_access ua" and "dev_inv d" and "\<not> h_locked h" and "h_fd h = fd0"
    and "copy_to_user ua m v (bytes4 0x00010000) = (m2, True)"
  shows "cortex_forge_get_version (drv_syscall cortex_forge_ioctl ua hz now fd0) (Some h) (Some v) (st, (d, m)) =
        Some (0, Some h, st, (d, m2)) \<and>
      (\<exists>bs. copy_from_user ua m2 v 4 = Some bs \<and> (le_get 4 0 bs :: u32) = 0x00010000)"
proof -
  have "cortex_forge_ioctl ua hz now d m LIB_IOCTL_GET_VERSION v = (0, d, m2)"
    using modular.version [OF assms(2,5)] by (simp add: lib_values)
  from modular.call_result [OF assms(2-4) this] user_access.to_from [OF assms(1,5)]
  show ?thesis by (simp add: lib_calls le_get_le_bytes4)
qed

text \<open>C37. The calls whose arguments are single words reach the driver as meant. Where the kernel can
  read the caller's stack, cancelling through the library is the abstract cancellation of that
  identifier with the driver's result returned unchanged, and setting the power mode accepts
  exactly the modes 0, 1 and 2; the version call leaves the word 0x00010000 where it was asked
  to. The handle is left unlocked.\<close>

theorem library_word_calls:
  assumes "user_access ua" and "dev_inv d" and "\<not> h_locked h" and "h_fd h = fd0"
    and "push (bytes4 w) (d, m) = (sp, (d, m1))" and "copy_from_user ua m1 sp 4 = Some (bytes4 w)"
    and "copy_to_user ua m v (bytes4 0x00010000) = (m2, True)"
  shows "(\<exists>r ts st'. cortex_forge_cancel_task (drv_syscall cortex_forge_ioctl ua hz now fd0) push (Some h) w (st, (d, m)) =
      Some (r, Some h, st', (d\<lparr>tasks := ts\<rparr>, m1)) \<and> spec_cancel w (abs_dev d) = (r, abs_dev (d\<lparr>tasks := ts\<rparr>))) \<and>
    (\<exists>st'. cortex_forge_set_power (drv_syscall cortex_forge_ioctl ua hz now fd0) push (Some h) w (st, (d, m)) =
      Some (if w \<le> 2 then 0 else neg_errno EINVAL, Some h, st', (d, m1))) \<and>
    cortex_forge_get_version (drv_syscall cortex_forge_ioctl ua hz now fd0) (Some h) (Some v) (st, (d, m)) =
      Some (0, Some h, st, (d, m2)) \<and>
    (\<exists>bs. copy_from_user ua m2 v 4 = Some bs \<and> (le_get 4 0 bs :: u32) = 0x00010000)"
  by (intro conjI lib_cancel [where push = push, OF assms(2-6)] lib_power [where push = push, OF assms(2-6)]
      lib_version [OF assms(1-4,7), THEN conjunct1] lib_version [OF assms(1-4,7), THEN conjunct2])

text \<open>A stack for the examples: the word at one fixed address of a memory that is all mapped.\<close>

definition push_at :: "u64 \<Rightarrow> u8 list \<Rightarrow> cortex_forge_dev \<times> umem \<Rightarrow> u64 \<times> (cortex_forge_dev \<times> umem)" where
  "push_at sp bs = (\<lambda>(d, m). (sp, (d, um_store m sp bs)))"

theorem library_word_calls_witness:
  "\<exists>st' ts m1. cortex_forge_cancel_task (drv_syscall cortex_forge_ioctl flat_uaccess 250 7 3) (push_at 0x7000)
      (Some \<lparr>h_fd = 3, h_locked = False, h_path = []\<rparr>) 9
      (\<lparr>l_errno = 0, l_fds = [3], l_handles = 1, l_mutexes = 1\<rparr>, (fresh_dev, um_holding 0 [])) =
    Some (neg_errno ENOENT, Some \<lparr>h_fd = 3, h_locked = False, h_path = []\<rparr>, st', (fresh_dev\<lparr>tasks := ts\<rparr>, m1)) \<and>
    abs_dev (fresh_dev\<lparr>tasks := ts\<rparr>) = abs_dev fresh_dev"
proof -
  let ?h = "\<lparr>h_fd = 3, h_locked = False, h_path = []\<rparr>" and ?m = "um_holding 0 []"
  let ?st = "\<lparr>l_errno = 0, l_fds = [3], l_handles = 1, l_mutexes = 1\<rparr>"
  have rd: "copy_from_user flat_uaccess (um_store ?m 0x7000 (bytes4 9)) 0x7000 4 = Some (bytes4 9)"
    using flat.to_from [OF um_holding_write, of "bytes4 9" 0 "[]" "0x7000"] by simp
  have push: "push_at 0x7000 (bytes4 9) (fresh_dev, ?m) = (0x7000, (fresh_dev, um_store ?m 0x7000 (bytes4 9)))"
    by (simp add: push_at_def)
  have wr: "copy_to_user flat_uaccess ?m 0x8000 (bytes4 0x00010000) = (um_store ?m 0x8000 (bytes4 0x00010000), True)"
    by (rule um_holding_write)
  have h: "\<not> h_locked ?h" "h_fd ?h = 3" by simp_all
  from library_word_calls [where push = "push_at 0x7000", OF flat.user_access_axioms fresh_dev_facts(1) h push rd wr, of 250 7 ?st]
  obtain r ts st' where r: "cortex_forge_cancel_task (drv_syscall cortex_forge_ioctl flat_uaccess 250 7 3) (push_at 0x7000)
      (Some ?h) 9 (?st, (fresh_dev, ?m)) = Some (r, Some ?h, st', (fresh_dev\<lparr>tasks := ts\<rparr>, um_store ?m 0x7000 (bytes4 9)))"
    "spec_cancel 9 (abs_dev fresh_dev) = (r, abs_dev (fresh_dev\<lparr>tasks := ts\<rparr>))"
    by auto
  have "task_lookup (tasks fresh_dev) 9 0 = None"
    by (simp add: task_lookup_None_iff task_matches_def zero_task_def)
  then have "sp_table (abs_dev fresh_dev) 9 = None" by (simp add: abs_dev_def abs_table_def)
  then have "spec_cancel 9 (abs_dev fresh_dev) = (neg_errno ENOENT, abs_dev fresh_dev)"
    by (simp only: spec_cancel_def option.case)
  with r show ?thesis by auto
qed

text \<open>C38. Handles are not leaked. If opening fails, for a null path, by the kernel's refusal or for
  want of memory, no descriptor, handle or mutex is left and \<open>errno\<close> says why; if it succeeds
  the process holds one of each more, the stored path is the given one cut to 255 characters and
  always terminated, and closing the handle brings the process back to where it was. Closing a
  null handle does nothing.\<close>

theorem library_open_close:
  assumes "\<forall>path. p = Some path \<longrightarrow> CHR 0x00 \<notin> set path"
  shows "(case lib_open sys_open calloc_ok p st of
      (None, st1) \<Rightarrow> st1\<lparr>l_errno := l_errno st\<rparr> = st \<and>
        l_errno st1 = (case p of None \<Rightarrow> errno_code EINVAL
          | Some path \<Rightarrow> (case sys_open path of Inl e \<Rightarrow> e | Inr fd \<Rightarrow> errno_code ENOMEM))
    | (Some h, st1) \<Rightarrow> calloc_ok \<and> (\<exists>path. p = Some path \<and> sys_open path = Inr (h_fd h) \<and>
        cstr (h_path h) = take 255 path \<and> length (h_path h) = 256) \<and> \<not> h_locked h \<and>
        l_fds st1 = h_fd h # l_fds st \<and> l_handles st1 = l_handles st + 1 \<and> l_mutexes st1 = l_mutexes st + 1 \<and>
        lib_close (Some h) st1 = st) \<and>
    lib_close None st = st"
proof (cases p)
  case None
  then show ?thesis by (simp add: lib_open_def lib_close_def)
next
  case (Some path)
  have "cstr (strncpy (replicate 256 (CHR 0x00)) path 255) = take 255 path"
    by (rule cstr_strncpy) (use assms Some in simp_all)
  with Some show ?thesis
    by (cases "sys_open path") (simp_all add: lib_open_def lib_close_def Let_def)
qed

theorem library_open_close_witness:
  "\<exists>h st1. lib_open (\<lambda>_. Inr 3) True (Some ''/dev/cortex-forge0'')
      \<lparr>l_errno = 0, l_fds = [], l_handles = 0, l_mutexes = 0\<rparr> = (Some h, st1) \<and>
    cstr (h_path h) = ''/dev/cortex-forge0'' \<and> l_fds st1 = [3] \<and>
    lib_close (Some h) st1 = \<lparr>l_errno = 0, l_fds = [], l_handles = 0, l_mutexes = 0\<rparr>"
proof -
  let ?st = "\<lparr>l_errno = 0, l_fds = [], l_handles = 0, l_mutexes = 0\<rparr>"
  obtain h st1 where o: "lib_open (\<lambda>_. Inr 3) True (Some ''/dev/cortex-forge0'') ?st = (Some h, st1)"
    by (simp add: lib_open_def Let_def)
  have "\<forall>path. Some ''/dev/cortex-forge0'' = Some path \<longrightarrow> CHR 0x00 \<notin> set path" by auto
  from library_open_close [where sys_open = "\<lambda>_. Inr 3" and calloc_ok = True and st = ?st, OF this] o show ?thesis by auto
qed

text \<open>Whatever a library call on the driver returns, the library can name it itself: the result is
  0 or a negative error number for which \<open>cortex_forge_strerror\<close> has a text of its own, without
  falling back on the C library, and different codes have different texts. A null handle or
  pointer gives \<open>-EINVAL\<close> without entering the kernel.\<close>

lemma library_errors_named:
  assumes "dev_inv d" and "\<And>hh. h = Some hh \<Longrightarrow> \<not> h_locked hh \<and> h_fd hh = fd0"
    and "lib_call (drv_syscall cortex_forge_ioctl ua hz now fd0) cmd h p (st, (d, m)) = Some (r, h', st', world)"
  shows "r \<le> 0 \<and> (\<exists>msg. \<forall>strerror. cortex_forge_strerror strerror r = msg) \<and>
    (\<forall>strerror e f. cortex_forge_strerror strerror (neg_errno e) = cortex_forge_strerror strerror (neg_errno f) \<longrightarrow> e = f) \<and>
    (h = None \<or> p = None \<longrightarrow> r = neg_errno EINVAL \<and> st' = st \<and> world = (d, m))"
proof -
  have named: "\<exists>msg. \<forall>strerror. cortex_forge_strerror strerror (neg_errno e) = msg" for e
    by (cases e) (auto simp: cortex_forge_strerror_def)
  have inj: "\<forall>strerror e f. cortex_forge_strerror strerror (neg_errno e) = cortex_forge_strerror strerror (neg_errno f) \<longrightarrow> e = f"
  proof (intro allI)
    fix strerror :: "int \<Rightarrow> string" and e f :: errno
    show "cortex_forge_strerror strerror (neg_errno e) = cortex_forge_strerror strerror (neg_errno f) \<longrightarrow> e = f"
      by (cases e; cases f) (simp_all add: cortex_forge_strerror_def)
  qed
  have null: "h = None \<or> p = None \<Longrightarrow> r = neg_errno EINVAL \<and> st' = st \<and> world = (d, m)"
    using assms(3) by (auto simp: lib_call_def split: option.splits)
  have "r = 0 \<or> (\<exists>e. r = neg_errno e)"
  proof (cases "h = None \<or> p = None")
    case True
    then show ?thesis using null by blast
  next
    case False
    then obtain hh a where hp: "h = Some hh" "p = Some a" by auto
    obtain r' d1 m1 where i: "cortex_forge_ioctl ua hz now d m cmd a = (r', d1, m1)"
      by (cases "cortex_forge_ioctl ua hz now d m cmd a")
    have "r = r'" using modular.call_result [OF assms(1) _ _ i] assms(2,3) hp by simp
    then show ?thesis using ioctl_return_codes [OF assms(1) i] by auto
  qed
  then have "r \<le> 0" "\<exists>msg. \<forall>strerror. cortex_forge_strerror strerror r = msg"
    using named by (auto simp: cortex_forge_strerror_def [of _ 0] less_imp_le)
  then show ?thesis using inj null by blast
qed

end
