(* ===== verification/Test_Suite.thy ===== *)
theory Test_Suite
  imports Lib_Forge "HOL-Library.Monad_Syntax"
begin

text \<open>
  \<^verbatim>\<open>test/cortex-forge_test.c\<close>: the program that tests the driver through the library. Each of its
  tests is a function of the world (device and user memory) and of the process's library
  state; what it needs of the process is the record \<open>client\<close>. Results are optional because a
  library call on a handle whose mutex is held does not return.
\<close>

section \<open>The process\<close>

text \<open>
  \<open>c_push\<close> puts a local object on the stack, \<open>c_peek\<close> reads the process's own memory, \<open>c_uninit\<close> is
  what an uninitialised word holds, \<open>c_rand t k\<close> the two random numbers of the \<open>k\<close>-th operation of
  thread \<open>t\<close>.
\<close>

record 'w client =
  c_sys :: "'w syscall"
  c_open :: "string \<Rightarrow> int + int"
  c_calloc :: bool
  c_push :: "u8 list \<Rightarrow> 'w \<Rightarrow> u64 \<times> 'w"
  c_peek :: "u64 \<Rightarrow> nat \<Rightarrow> 'w \<Rightarrow> u8 list"
  c_strerror :: "int \<Rightarrow> string"
  c_uninit :: "u8 list"
  c_rand :: "nat \<Rightarrow> nat \<Rightarrow> u32 \<times> u32"

datatype verdict = Pass | Fail string | Skip

type_synonym 'w test = "lib_state \<times> 'w \<Rightarrow> (verdict \<times> lib_state \<times> 'w) option"

type_synonym 'w session = "cortex_forge_handle option \<times> lib_state \<times> 'w"

text \<open>A structure cleared by \<open>memset\<close>, and an assignment to one of its 32-bit members.\<close>

definition zeroed :: "struct_decl \<Rightarrow> u8 list" where
  "zeroed decl = replicate (sizeof decl) 0"

definition set_u32 :: "struct_decl \<Rightarrow> string \<Rightarrow> u32 \<Rightarrow> u8 list \<Rightarrow> u8 list" where
  "set_u32 decl field w bs =
     (let off = offsetof decl field in take off bs @ bytes4 w @ drop (off + 4) bs)"

definition test_desc :: "(string \<times> u32) list \<Rightarrow> u8 list" where
  "test_desc fs = fold (\<lambda>(field, w). set_u32 lib_task_desc_decl field w) fs (zeroed lib_task_desc_decl)"

text \<open>
  Library calls on a local structure: the result and the member of the structure that the tests
  read afterwards.
\<close>

definition submit_local :: "'w client \<Rightarrow> u8 list \<Rightarrow> 'w session \<Rightarrow> (int \<times> u32 \<times> 'w session) option" where
  "submit_local c desc = (\<lambda>(h, st, w).
     let (a, w1) = c_push c desc w in
     do { (r, h1, st1, w2) \<leftarrow> cortex_forge_submit_task (c_sys c) h (Some a) (st, w1);
          Some (r, le_get 4 (offsetof lib_task_desc_decl ''task_id'') (c_peek c a 48 w2), h1, st1, w2) })"

definition query_local :: "'w client \<Rightarrow> u32 \<Rightarrow> 'w session \<Rightarrow> (int \<times> u32 \<times> 'w session) option" where
  "query_local c tid = (\<lambda>(h, st, w).
     let (a, w1) = c_push c (set_u32 lib_task_status_decl ''task_id'' tid (zeroed lib_task_status_decl)) w in
     do { (r, h1, st1, w2) \<leftarrow> cortex_forge_query_task (c_sys c) h (Some a) (st, w1);
          Some (r, le_get 4 (offsetof lib_task_status_decl ''task_id'') (c_peek c a 24 w2), h1, st1, w2) })"

definition info_local :: "'w client \<Rightarrow> u32 \<Rightarrow> 'w session \<Rightarrow> (int \<times> 'w session) option" where
  "info_local c ty = (\<lambda>(h, st, w).
     let (a, w1) = c_push c (set_u32 lib_accel_info_decl ''accel_type'' ty (zeroed lib_accel_info_decl)) w in
     cortex_forge_get_accel_info (c_sys c) h (Some a) (st, w1))"

definition version_local :: "'w client \<Rightarrow> 'w session \<Rightarrow> (int \<times> u32 \<times> 'w session) option" where
  "version_local c = (\<lambda>(h, st, w).
     let (a, w1) = c_push c (c_uninit c) w in
     do { (r, h1, st1, w2) \<leftarrow> cortex_forge_get_version (c_sys c) h (Some a) (st, w1);
          Some (r, le_get 4 0 (c_peek c a 4 w2), h1, st1, w2) })"

definition cancel_local :: "'w client \<Rightarrow> u32 \<Rightarrow> 'w session \<Rightarrow> (int \<times> 'w session) option" where
  "cancel_local c tid = (\<lambda>(h, st, w). cortex_forge_cancel_task (c_sys c) (c_push c) h tid (st, w))"

definition power_local :: "'w client \<Rightarrow> u32 \<Rightarrow> 'w session \<Rightarrow> (int \<times> 'w session) option" where
  "power_local c mode = (\<lambda>(h, st, w). cortex_forge_set_power (c_sys c) (c_push c) h mode (st, w))"

section \<open>The tests\<close>

definition DEVICE :: string where
  "DEVICE = ''/dev/cortex-forge0''"

text \<open>
  The frame all tests of the device share: open it, or skip; every way out of the body closes the
  handle.
\<close>

definition device_test :: "'w client \<Rightarrow> ('w session \<Rightarrow> (verdict \<times> 'w session) option) \<Rightarrow>
    'w test" where
  "device_test c body = (\<lambda>(st, w).
     case lib_open (c_open c) (c_calloc c) (Some DEVICE) st of
       (None, st1) \<Rightarrow> Some (Skip, st1, w)
     | (Some h, st1) \<Rightarrow>
         do { (v, h1, st2, w2) \<leftarrow> body (Some h, st1, w); Some (v, lib_close h1 st2, w2) })"

definition t_open_close :: "'w client \<Rightarrow> 'w test" where
  "t_open_close c = device_test c (\<lambda>s. Some (Pass, s))"

definition t_submit_dla0 :: "'w client \<Rightarrow> 'w test" where
  "t_submit_dla0 c = device_test c (\<lambda>s. do {
     (r, tid, s) \<leftarrow> submit_local c (test_desc [(''accel_type'', 0), (''priority'', 128),
       (''input_size'', 4096), (''output_size'', 4096)]) s;
     Some (if r \<noteq> 0 then Fail ''submit failed'' else if tid = 0 then Fail ''no task_id'' else Pass, s) })"

definition t_submit_dla1 :: "'w client \<Rightarrow> 'w test" where
  "t_submit_dla1 c = device_test c (\<lambda>s. do {
     (r, tid, s) \<leftarrow> submit_local c (test_desc [(''accel_type'', 1), (''priority'', 64),
       (''input_size'', 8192), (''output_size'', 8192)]) s;
     Some (if r \<noteq> 0 then Fail ''submit failed'' else Pass, s) })"

definition t_submit_pva :: "'w client \<Rightarrow> 'w test" where
  "t_submit_pva c = device_test c (\<lambda>s. do {
     (r, tid, s) \<leftarrow> submit_local c (test_desc [(''accel_type'', 2), (''priority'', 255),
       (''input_size'', 2048), (''output_size'', 2048)]) s;
     Some (if r \<noteq> 0 then Fail ''submit failed'' else Pass, s) })"

definition t_submit_query :: "'w client \<Rightarrow> 'w test" where
  "t_submit_query c = device_test c (\<lambda>s. do {
     (r, tid, s) \<leftarrow> submit_local c (test_desc [(''accel_type'', 0), (''input_size'', 1024),
       (''output_size'', 1024)]) s;
     if r \<noteq> 0 then Some (Fail ''submit'', s)
     else do {
       (r, tid', s) \<leftarrow> query_local c tid s;
       Some (if r \<noteq> 0 then Fail ''query'' else if tid' \<noteq> tid then Fail ''id mismatch'' else Pass, s) } })"

definition t_submit_cancel :: "'w client \<Rightarrow> 'w test" where
  "t_submit_cancel c = device_test c (\<lambda>s. do {
     (r, tid, s) \<leftarrow> submit_local c (test_desc [(''accel_type'', 0), (''timeout_ms'', 5000)]) s;
     if r \<noteq> 0 then Some (Fail ''submit'', s)
     else do {
       (r, s) \<leftarrow> cancel_local c tid s;
       Some (if r \<noteq> 0 then Fail ''cancel'' else Pass, s) } })"

fun get_info_from :: "'w client \<Rightarrow> u32 list \<Rightarrow> 'w session \<Rightarrow> (verdict \<times> 'w session) option" where
  "get_info_from c [] s = Some (Pass, s)"
| "get_info_from c (i # is) s = do {
     (r, s) \<leftarrow> info_local c i s;
     if r \<noteq> 0 then Some (Fail ''get_info failed'', s) else get_info_from c is s }"

definition t_get_info_all :: "'w client \<Rightarrow> 'w test" where
  "t_get_info_all c = device_test c (get_info_from c [0, 1, 2])"

definition t_get_version :: "'w client \<Rightarrow> 'w test" where
  "t_get_version c = device_test c (\<lambda>s. do {
     (r, v, s) \<leftarrow> version_local c s;
     Some (if r \<noteq> 0 \<or> v = 0 then Fail ''get_version failed'' else Pass, s) })"

definition t_set_power :: "'w client \<Rightarrow> 'w test" where
  "t_set_power c = device_test c (\<lambda>s. do {
     (r, s) \<leftarrow> power_local c 1 s;
     Some (if r \<noteq> 0 then Fail ''set_power failed'' else Pass, s) })"

definition t_invalid_type :: "'w client \<Rightarrow> 'w test" where
  "t_invalid_type c = device_test c (\<lambda>s. do {
     (r, tid, s) \<leftarrow> submit_local c (test_desc [(''accel_type'', 99)]) s;
     Some (if r \<noteq> neg_errno EINVAL then Fail ''expected -EINVAL'' else Pass, s) })"

definition t_query_nonexist :: "'w client \<Rightarrow> 'w test" where
  "t_query_nonexist c = device_test c (\<lambda>s. do {
     (r, tid, s) \<leftarrow> query_local c 999999 s;
     Some (if r \<noteq> neg_errno ENOENT then Fail ''expected -ENOENT'' else Pass, s) })"

definition t_cancel_nonexist :: "'w client \<Rightarrow> 'w test" where
  "t_cancel_nonexist c = device_test c (\<lambda>s. do {
     (r, s) \<leftarrow> cancel_local c 999999 s;
     Some (if r \<noteq> neg_errno ENOENT then Fail ''expected -ENOENT'' else Pass, s) })"

definition t_null_handle :: "'w client \<Rightarrow> 'w test" where
  "t_null_handle c s = do {
     (r, _, s) \<leftarrow> cortex_forge_submit_task (c_sys c) None None s;
     if r \<noteq> neg_errno EINVAL then Some (Fail ''submit'', s) else do {
     (r, _, s) \<leftarrow> cortex_forge_query_task (c_sys c) None None s;
     if r \<noteq> neg_errno EINVAL then Some (Fail ''query'', s) else do {
     (r, _, s) \<leftarrow> cortex_forge_cancel_task (c_sys c) (c_push c) None 0 s;
     if r \<noteq> neg_errno EINVAL then Some (Fail ''cancel'', s) else do {
     (r, _, s) \<leftarrow> cortex_forge_get_accel_info (c_sys c) None None s;
     if r \<noteq> neg_errno EINVAL then Some (Fail ''get_info'', s) else do {
     (r, _, s) \<leftarrow> cortex_forge_get_version (c_sys c) None None s;
     if r \<noteq> neg_errno EINVAL then Some (Fail ''get_version'', s) else Some (Pass, s) } } } } }"

fun submit_many :: "'w client \<Rightarrow> u32 list \<Rightarrow> u32 list \<Rightarrow> 'w session \<Rightarrow> (u32 list option \<times> 'w session) option" where
  "submit_many c [] ids s = Some (Some ids, s)"
| "submit_many c (i # is) ids s = do {
     (r, tid, s) \<leftarrow> submit_local c (test_desc [(''accel_type'', i mod 3), (''priority'', i * 10),
       (''input_size'', 1024), (''output_size'', 1024)]) s;
     if r \<noteq> 0 then Some (None, s) else submit_many c is (ids @ [tid]) s }"

fun query_many :: "'w client \<Rightarrow> u32 list \<Rightarrow> 'w session \<Rightarrow> (verdict \<times> 'w session) option" where
  "query_many c [] s = Some (Pass, s)"
| "query_many c (tid # ids) s = do {
     (r, _, s) \<leftarrow> query_local c tid s;
     if r \<noteq> 0 then Some (Fail ''query'', s) else query_many c ids s }"

definition t_multiple :: "'w client \<Rightarrow> 'w test" where
  "t_multiple c = device_test c (\<lambda>s. do {
     (ids, s) \<leftarrow> submit_many c [0, 1, 2, 3, 4, 5, 6, 7, 8, 9] [] s;
     case ids of None \<Rightarrow> Some (Fail ''submit'', s) | Some ids \<Rightarrow> query_many c ids s })"

definition t_strerror :: "'w client \<Rightarrow> 'w test" where
  "t_strerror c s =
     (let str = cortex_forge_strerror (c_strerror c) in
      Some (if str 0 \<noteq> ''Success'' then Fail ''Success''
            else if length (str (neg_errno EINVAL)) = 0 then Fail ''empty''
            else if length (str (neg_errno ENOMEM)) = 0 then Fail ''empty''
            else Pass, s))"

text \<open>
  The four threads of the last test share the handle. Its mutex makes a library call atomic, so a
  schedule is the list of the threads that make the next call. A thread has done \<open>w_done\<close> of its
  operations, counted \<open>w_errs\<close> errors, and is about to submit or, after a submission that succeeded,
  to query that task.
\<close>

record wthread =
  w_done :: nat
  w_errs :: nat
  w_query :: "u32 option"

definition OPS :: nat where "OPS = 25"

definition worker :: "'w client \<Rightarrow> nat \<Rightarrow> wthread \<Rightarrow> 'w session \<Rightarrow> (wthread \<times> 'w session) option" where
  "worker c t th s =
     (if w_done th < OPS then
        (case w_query th of
           Some tid \<Rightarrow> do {
             (r, _, s) \<leftarrow> query_local c tid s;
             Some (th\<lparr>w_done := w_done th + 1, w_query := None\<rparr>, s) }
         | None \<Rightarrow> do {
             (r, tid, s) \<leftarrow> submit_local c (test_desc [(''accel_type'', fst (c_rand c t (w_done th)) mod 3),
               (''priority'', snd (c_rand c t (w_done th)) mod 256), (''input_size'', 1024),
               (''output_size'', 1024)]) s;
             Some (if r = 0 then th\<lparr>w_query := Some tid\<rparr>
                   else th\<lparr>w_done := w_done th + 1, w_errs := w_errs th + 1\<rparr>, s) })
      else Some (th, s))"

fun workers :: "'w client \<Rightarrow> nat list \<Rightarrow> (nat \<Rightarrow> wthread) \<Rightarrow> 'w session \<Rightarrow> ((nat \<Rightarrow> wthread) \<times> 'w session) option" where
  "workers c [] ths s = Some (ths, s)"
| "workers c (t # sched) ths s = do {
     (th, s) \<leftarrow> worker c t (ths t) s;
     workers c sched (ths(t := th)) s }"

text \<open>\<open>None\<close> also when the schedule ends before the threads do: \<open>pthread_join\<close> still waits.\<close>

definition t_concurrent :: "'w client \<Rightarrow> nat list \<Rightarrow> 'w test" where
  "t_concurrent c sched = device_test c (\<lambda>s. do {
     (ths, s) \<leftarrow> workers c sched (\<lambda>_. \<lparr>w_done = 0, w_errs = 0, w_query = None\<rparr>) s;
     if \<forall>t < 4. w_done (ths t) = OPS then
       Some (if 0 < (\<Sum>t < 4. w_errs (ths t)) then Fail ''concurrent errors'' else Pass, s)
     else None })"

section \<open>The program\<close>

fun run_tests :: "'w test list \<Rightarrow> lib_state \<times> 'w \<Rightarrow>
    (verdict list \<times> lib_state \<times> 'w) option" where
  "run_tests [] s = Some ([], s)"
| "run_tests (t # ts) s = do { (v, s) \<leftarrow> t s; (vs, s) \<leftarrow> run_tests ts s; Some (v # vs, s) }"

definition failed :: "verdict list \<Rightarrow> nat" where
  "failed vs = length (filter (\<lambda>v. case v of Fail m \<Rightarrow> True | _ \<Rightarrow> False) vs)"

definition test_main :: "'w client \<Rightarrow> nat list \<Rightarrow> lib_state \<times> 'w \<Rightarrow> (verdict list \<times> int \<times> lib_state \<times> 'w) option" where
  "test_main c sched s = do {
     (vs, s) \<leftarrow> run_tests [t_open_close c, t_submit_dla0 c, t_submit_dla1 c, t_submit_pva c,
       t_submit_query c, t_submit_cancel c, t_get_info_all c, t_get_version c,
       t_set_power c, t_invalid_type c, t_query_nonexist c, t_cancel_nonexist c,
       t_null_handle c, t_multiple c, t_strerror c, t_concurrent c sched] s;
     Some (vs, if failed vs > 0 then 1 else 0, s) }"

section \<open>The tests on a driver\<close>

lemma length_set_u32:
  "offsetof decl field + 4 \<le> length bs \<Longrightarrow> length (set_u32 decl field w bs) = length bs"
  by (simp add: set_u32_def Let_def)

text \<open>
  The handle the tests get, and the sessions they go through: the handle unlocked, the device as it
  was, memory usable.
\<close>

definition test_handle :: "int \<Rightarrow> cortex_forge_handle" where
  "test_handle fd0 = \<lparr>h_fd = fd0, h_locked = False, h_path = strncpy (replicate 256 (CHR 0x00)) DEVICE 255\<rparr>"

definition session_at :: "int \<Rightarrow> ('m \<Rightarrow> bool) \<Rightarrow> cortex_forge_dev \<Rightarrow> (cortex_forge_dev \<times> 'm) session \<Rightarrow> bool" where
  "session_at fd0 mem_ok d s \<longleftrightarrow> (\<exists>st m. s = (Some (test_handle fd0), st, (d, m)) \<and> mem_ok m)"

definition process_at :: "('m \<Rightarrow> bool) \<Rightarrow> cortex_forge_dev \<Rightarrow> lib_state \<times> (cortex_forge_dev \<times> 'm) \<Rightarrow> bool" where
  "process_at mem_ok d s \<longleftrightarrow> (\<exists>st m. s = (st, (d, m)) \<and> mem_ok m)"

lemma test_handle_facts: "\<not> h_locked (test_handle fd0)" "h_fd (test_handle fd0) = fd0"
  by (simp_all add: test_handle_def)

lemma no_such_task: "dev_inv d \<Longrightarrow> task_lookup (tasks d) 999999 0 = None"
proof (rule ccontr)
  assume inv: "dev_inv d" and "task_lookup (tasks d) 999999 0 \<noteq> None"
  then obtain i where "task_lookup (tasks d) 999999 0 = Some i" by blast
  with pool_inv_lookup [OF dev_inv_pool [OF inv]]
  have i: "i < MAX_TASKS" "i \<notin> set (free_tasks d)" "t_id (tasks d ! i) = 999999" by simp_all
  have "pool_inv (tasks d) (free_tasks d) (next_task_id d)" using inv by (rule dev_inv_pool)
  then have "unat (t_id (tasks d ! i)) \<le> unat (next_task_id d)" and "unat (next_task_id d) \<le> MAX_TASKS"
    using i(1,2) unfolding pool_inv_def by (blast, linarith)
  then show False by (simp add: i(3) MAX_TASKS_def)
qed

lemma null_handle_passes: "t_null_handle c s = Some (Pass, s)"
  by (simp add: t_null_handle_def lib_calls lib_call_def)

lemma strerror_passes: "t_strerror c s = Some (Pass, s)"
  by (simp add: t_strerror_def cortex_forge_strerror_def neg_errno_def)

text \<open>Running one test after the other, with a property of the process that each of them keeps.\<close>

lemma run_test:
  assumes "\<And>s. P s \<Longrightarrow> \<exists>s'. t s = Some (v, s') \<and> P s'"
    and "\<And>s. P s \<Longrightarrow> \<exists>s'. run_tests ts s = Some (vs, s') \<and> P s'"
    and "P s"
  shows "\<exists>s'. run_tests (t # ts) s = Some (v # vs, s') \<and> P s'"
proof -
  from assms(1) [OF assms(3)] obtain s1 where s1: "t s = Some (v, s1)" "P s1" by blast
  from assms(2) [OF s1(2)] s1(1) show ?thesis by auto
qed

lemma run_no_test: "P s \<Longrightarrow> \<exists>s'. run_tests [] s = Some ([], s') \<and> P s'"
  by simp

text \<open>
  A process on a system with the driver: the device opens at \<open>fd0\<close>, memory is allocated, and the
  stack is memory the kernel can copy from and to, all of it in memories that satisfy \<open>mem_ok\<close>.
\<close>

locale test_client = forge_driver handler
  for handler :: "'m uaccess \<Rightarrow> u64 \<Rightarrow> u64 \<Rightarrow> cortex_forge_dev \<Rightarrow> 'm \<Rightarrow> u32 \<Rightarrow> u64 \<Rightarrow>
    int \<times> cortex_forge_dev \<times> 'm" +
  fixes ua :: "'m uaccess" and hz now :: u64 and fd0 :: int and mem_ok :: "'m \<Rightarrow> bool"
    and c :: "(cortex_forge_dev \<times> 'm) client"
  assumes user: "user_access ua"
    and sys: "c_sys c = drv_syscall handler ua hz now fd0"
    and opens: "c_open c DEVICE = Inr fd0" and allocates: "c_calloc c"
    and push: "mem_ok m \<Longrightarrow> \<exists>a m'. c_push c bs (d, m) = (a, (d, m')) \<and> mem_ok m' \<and>
      (length bs = 4 \<longrightarrow> copy_from_user ua m' a 4 = Some bs)"
    and writes: "mem_ok m \<Longrightarrow> \<exists>m'. copy_to_user ua m a bs = (m', True) \<and> mem_ok m'"
    and peek: "copy_from_user ua m a n = Some bs \<Longrightarrow> c_peek c a n (d, m) = bs"
begin

lemma submit_fails:
  assumes "dev_inv d" and "session_at fd0 mem_ok d s"
  shows "\<exists>tid s'. submit_local c desc s = Some (neg_errno ENOTTY, tid, s') \<and> session_at fd0 mem_ok d s'"
proof -
  from assms(2) obtain st m where s: "s = (Some (test_handle fd0), st, (d, m))" "mem_ok m" by (auto simp: session_at_def)
  from push [OF s(2)] obtain a m' where "c_push c desc (d, m) = (a, (d, m'))" "mem_ok m'" by blast
  with s(1) show ?thesis
    by (simp add: submit_local_def sys lib_calls mismatched_call [OF assms(1) test_handle_facts] session_at_def)
qed

lemma query_fails:
  assumes "dev_inv d" and "session_at fd0 mem_ok d s"
  shows "\<exists>tid' s'. query_local c tid s = Some (neg_errno ENOTTY, tid', s') \<and> session_at fd0 mem_ok d s'"
proof -
  from assms(2) obtain st m where s: "s = (Some (test_handle fd0), st, (d, m))" "mem_ok m" by (auto simp: session_at_def)
  from push [OF s(2)] obtain a m' where
    "c_push c (set_u32 lib_task_status_decl ''task_id'' tid (zeroed lib_task_status_decl)) (d, m) = (a, (d, m'))"
    "mem_ok m'" by blast
  with s(1) show ?thesis
    by (simp add: query_local_def sys lib_calls mismatched_call [OF assms(1) test_handle_facts] session_at_def)
qed

lemma info_fails:
  assumes "dev_inv d" and "session_at fd0 mem_ok d s"
  shows "\<exists>s'. info_local c ty s = Some (neg_errno ENOTTY, s') \<and> session_at fd0 mem_ok d s'"
proof -
  from assms(2) obtain st m where s: "s = (Some (test_handle fd0), st, (d, m))" "mem_ok m" by (auto simp: session_at_def)
  from push [OF s(2)] obtain a m' where
    "c_push c (set_u32 lib_accel_info_decl ''accel_type'' ty (zeroed lib_accel_info_decl)) (d, m) = (a, (d, m'))"
    "mem_ok m'" by blast
  with s(1) show ?thesis
    by (simp add: info_local_def sys lib_calls mismatched_call [OF assms(1) test_handle_facts] session_at_def)
qed

lemma version_works:
  assumes "dev_inv d" and "session_at fd0 mem_ok d s"
  shows "\<exists>s'. version_local c s = Some (0, 0x00010000, s') \<and> session_at fd0 mem_ok d s'"
proof -
  from assms(2) obtain st m where s: "s = (Some (test_handle fd0), st, (d, m))" "mem_ok m" by (auto simp: session_at_def)
  from push [OF s(2)] obtain a m1 where p: "c_push c (c_uninit c) (d, m) = (a, (d, m1))" "mem_ok m1" by blast
  from writes [OF p(2)] obtain m2 where w: "copy_to_user ua m1 a (bytes4 0x00010000) = (m2, True)" "mem_ok m2" by blast
  from version [OF assms(1) w(1)] have "handler ua hz now d m1 LIB_IOCTL_GET_VERSION a = (0, d, m2)"
    by (simp add: lib_values)
  note r = call_result [OF assms(1) test_handle_facts this]
  have "c_peek c a 4 (d, m2) = bytes4 0x00010000"
    using peek [OF user_access.to_from [OF user w(1)]] by simp
  with s(1) p(1) w(2) show ?thesis
    by (simp add: version_local_def sys lib_calls r session_at_def le_get_le_bytes4)
qed

lemma power_works:
  assumes "dev_inv d" and "session_at fd0 mem_ok d s" and "mode \<le> 2"
  shows "\<exists>s'. power_local c mode s = Some (0, s') \<and> session_at fd0 mem_ok d s'"
proof -
  from assms(2) obtain st m where s: "s = (Some (test_handle fd0), st, (d, m))" "mem_ok m" by (auto simp: session_at_def)
  obtain a m1 where
    p: "c_push c (bytes4 mode) (d, m) = (a, (d, m1))" "mem_ok m1" "copy_from_user ua m1 a 4 = Some (bytes4 mode)"
    using push [OF s(2), of "bytes4 mode" d] by auto
  from power [OF assms(1) p(3)] assms(3) have "handler ua hz now d m1 LIB_IOCTL_SET_POWER a = (0, d, m1)"
    by (simp add: lib_values le_get_le_bytes4)
  from call_result [OF assms(1) test_handle_facts this] s(1) p show ?thesis
    by (simp add: power_local_def sys lib_calls session_at_def)
qed

lemma cancel_unknown:
  assumes "dev_inv d" and "session_at fd0 mem_ok d s" and "task_lookup (tasks d) tid 0 = None"
  shows "\<exists>s'. cancel_local c tid s = Some (neg_errno ENOENT, s') \<and> session_at fd0 mem_ok d s'"
proof -
  from assms(2) obtain st m where s: "s = (Some (test_handle fd0), st, (d, m))" "mem_ok m" by (auto simp: session_at_def)
  obtain a m1 where
    p: "c_push c (bytes4 tid) (d, m) = (a, (d, m1))" "mem_ok m1" "copy_from_user ua m1 a 4 = Some (bytes4 tid)"
    using push [OF s(2), of "bytes4 tid" d] by auto
  from cancel [OF assms(1) p(3)] assms(3) have "handler ua hz now d m1 LIB_IOCTL_CANCEL_TASK a = (neg_errno ENOENT, d, m1)"
    by (simp add: lib_values le_get_le_bytes4 task_cancel_def)
  from call_result [OF assms(1) test_handle_facts this] s(1) p show ?thesis
    by (simp add: cancel_local_def sys lib_calls session_at_def)
qed

lemma device_test_runs:
  assumes "process_at mem_ok d s" and "\<And>s. session_at fd0 mem_ok d s \<Longrightarrow> \<exists>s'. body s = Some (v, s') \<and> session_at fd0 mem_ok d s'"
  shows "\<exists>s'. device_test c body s = Some (v, s') \<and> process_at mem_ok d s'"
proof -
  from assms(1) obtain st m where s: "s = (st, (d, m))" "mem_ok m" by (auto simp: process_at_def)
  obtain st1 where o: "lib_open (c_open c) (c_calloc c) (Some DEVICE) st = (Some (test_handle fd0), st1)"
    by (simp add: lib_open_def opens allocates test_handle_def)
  have "session_at fd0 mem_ok d (Some (test_handle fd0), st1, (d, m))" using s(2) by (simp add: session_at_def)
  from assms(2) [OF this] obtain s' where "body (Some (test_handle fd0), st1, (d, m)) = Some (v, s')" "session_at fd0 mem_ok d s'" by blast
  with s(1) o show ?thesis by (auto simp: device_test_def session_at_def process_at_def)
qed

text \<open>The tests whose first call is one that the driver does not know, and their verdicts.\<close>

lemma submit_test:
  assumes "dev_inv d" and "process_at mem_ok d s" and "\<And>tid s'. k (neg_errno ENOTTY, tid, s') = Some (v, s')"
  shows "\<exists>s'. device_test c (\<lambda>s. submit_local c desc s \<bind> k) s = Some (v, s') \<and> process_at mem_ok d s'"
proof (rule device_test_runs [OF assms(2)])
  fix s assume "session_at fd0 mem_ok d s"
  from submit_fails [OF assms(1) this, of desc] obtain tid s' where
    "submit_local c desc s = Some (neg_errno ENOTTY, tid, s')" "session_at fd0 mem_ok d s'" by blast
  with assms(3) show "\<exists>s'. submit_local c desc s \<bind> k = Some (v, s') \<and> session_at fd0 mem_ok d s'" by simp
qed

lemma submission_verdicts:
  assumes "dev_inv d" and "process_at mem_ok d s"
  shows "\<exists>s'. t_submit_dla0 c s = Some (Fail ''submit failed'', s') \<and> process_at mem_ok d s'"
    and "\<exists>s'. t_submit_dla1 c s = Some (Fail ''submit failed'', s') \<and> process_at mem_ok d s'"
    and "\<exists>s'. t_submit_pva c s = Some (Fail ''submit failed'', s') \<and> process_at mem_ok d s'"
    and "\<exists>s'. t_submit_query c s = Some (Fail ''submit'', s') \<and> process_at mem_ok d s'"
    and "\<exists>s'. t_submit_cancel c s = Some (Fail ''submit'', s') \<and> process_at mem_ok d s'"
    and "\<exists>s'. t_invalid_type c s = Some (Fail ''expected -EINVAL'', s') \<and> process_at mem_ok d s'"
    and "\<exists>s'. t_multiple c s = Some (Fail ''submit'', s') \<and> process_at mem_ok d s'"
  unfolding t_submit_dla0_def t_submit_dla1_def t_submit_pva_def t_submit_query_def t_submit_cancel_def
    t_invalid_type_def t_multiple_def
  unfolding submit_many.simps Option.bind_assoc
  by (rule submit_test [OF assms], simp add: neg_errno_def)+

lemma call_verdicts:
  assumes inv: "dev_inv d" and p: "process_at mem_ok d s"
  shows "\<exists>s'. t_open_close c s = Some (Pass, s') \<and> process_at mem_ok d s'"
    and "\<exists>s'. t_get_info_all c s = Some (Fail ''get_info failed'', s') \<and> process_at mem_ok d s'"
    and "\<exists>s'. t_query_nonexist c s = Some (Fail ''expected -ENOENT'', s') \<and> process_at mem_ok d s'"
    and "\<exists>s'. t_get_version c s = Some (Pass, s') \<and> process_at mem_ok d s'"
    and "\<exists>s'. t_set_power c s = Some (Pass, s') \<and> process_at mem_ok d s'"
    and "\<exists>s'. t_cancel_nonexist c s = Some (Pass, s') \<and> process_at mem_ok d s'"
proof -
  show "\<exists>s'. t_open_close c s = Some (Pass, s') \<and> process_at mem_ok d s'"
    unfolding t_open_close_def by (rule device_test_runs [OF p]) simp
  show "\<exists>s'. t_get_info_all c s = Some (Fail ''get_info failed'', s') \<and> process_at mem_ok d s'"
    unfolding t_get_info_all_def
    by (rule device_test_runs [OF p]) (use info_fails [OF inv, where ty = 0] in \<open>force simp: neg_errno_def\<close>)
  show "\<exists>s'. t_query_nonexist c s = Some (Fail ''expected -ENOENT'', s') \<and> process_at mem_ok d s'"
    unfolding t_query_nonexist_def
    by (rule device_test_runs [OF p]) (use query_fails [OF inv, where tid = 999999] in \<open>force simp: neg_errno_def\<close>)
  show "\<exists>s'. t_get_version c s = Some (Pass, s') \<and> process_at mem_ok d s'"
    unfolding t_get_version_def by (rule device_test_runs [OF p]) (use version_works [OF inv] in force)
  show "\<exists>s'. t_set_power c s = Some (Pass, s') \<and> process_at mem_ok d s'"
    unfolding t_set_power_def
    by (rule device_test_runs [OF p]) (use power_works [OF inv, where mode = 1] in force)
  show "\<exists>s'. t_cancel_nonexist c s = Some (Pass, s') \<and> process_at mem_ok d s'"
    unfolding t_cancel_nonexist_def
    by (rule device_test_runs [OF p]) (use cancel_unknown [OF inv _ no_such_task [OF inv]] in force)
qed

lemma workers_fail:
  assumes "dev_inv d" and "session_at fd0 mem_ok d s" and "\<And>t. w_query (ths t) = None \<and> w_done (ths t) \<le> OPS"
  shows "\<exists>ths' s'. workers c sched ths s = Some (ths', s') \<and> session_at fd0 mem_ok d s' \<and>
    (\<forall>t. w_done (ths' t) = min OPS (w_done (ths t) + count_list sched t) \<and>
         w_errs (ths' t) + w_done (ths t) = w_errs (ths t) + w_done (ths' t))"
  using assms(2,3)
proof (induction sched arbitrary: ths s)
  case Nil
  then show ?case by (simp add: min_absorb2)
next
  case (Cons t sched)
  obtain th s1 where w: "worker c t (ths t) s = Some (th, s1)" "session_at fd0 mem_ok d s1"
    "w_query th = None" "w_done th = min OPS (Suc (w_done (ths t)))"
    "w_errs th + w_done (ths t) = w_errs (ths t) + w_done th"
  proof (cases "w_done (ths t) < OPS")
    case True
    from submit_fails [OF assms(1) Cons.prems(1)] obtain tid s1 where
      "submit_local c (test_desc [(''accel_type'', fst (c_rand c t (w_done (ths t))) mod 3),
         (''priority'', snd (c_rand c t (w_done (ths t))) mod 256), (''input_size'', 1024),
         (''output_size'', 1024)]) s = Some (neg_errno ENOTTY, tid, s1)" "session_at fd0 mem_ok d s1" by blast
    with True Cons.prems(2) [of t] show ?thesis
      by (intro that [of "(ths t)\<lparr>w_done := w_done (ths t) + 1, w_errs := w_errs (ths t) + 1\<rparr>" s1])
        (simp_all add: worker_def neg_errno_def)
  next
    case False
    then have "w_done (ths t) = OPS" using Cons.prems(2) [of t] by simp
    with Cons.prems show ?thesis by (intro that [of "ths t" s]) (simp_all add: worker_def)
  qed
  have "w_query ((ths(t := th)) u) = None \<and> w_done ((ths(t := th)) u) \<le> OPS" for u
    using Cons.prems(2) w(3,4) by simp
  from Cons.IH [OF w(2), of "ths(t := th)", OF this] obtain ths' s' where r: "workers c sched (ths(t := th)) s1 = Some (ths', s')"
    "session_at fd0 mem_ok d s'"
    "\<And>u. w_done (ths' u) = min OPS (w_done ((ths(t := th)) u) + count_list sched u)"
    "\<And>u. w_errs (ths' u) + w_done ((ths(t := th)) u) = w_errs ((ths(t := th)) u) + w_done (ths' u)" by blast
  have "w_done (ths' u) = min OPS (w_done (ths u) + count_list (t # sched) u) \<and>
      w_errs (ths' u) + w_done (ths u) = w_errs (ths u) + w_done (ths' u)" for u
    using r(3) [of u] r(4) [of u] w(4,5) by (cases "u = t") (auto simp: min_def)
  with w(1) r(1,2) show ?case by auto
qed

lemma concurrent_verdict:
  assumes "dev_inv d" and "process_at mem_ok d s" and "\<And>t. t < 4 \<Longrightarrow> OPS \<le> count_list sched t"
  shows "\<exists>s'. t_concurrent c sched s = Some (Fail ''concurrent errors'', s') \<and> process_at mem_ok d s'"
  unfolding t_concurrent_def
proof (rule device_test_runs [OF assms(2)])
  fix s assume s: "session_at fd0 mem_ok d s"
  let ?new = "\<lparr>w_done = 0, w_errs = 0, w_query = None\<rparr>"
  from workers_fail [OF assms(1) s, of "\<lambda>_. ?new" sched] obtain ths s' where
    r: "workers c sched (\<lambda>_. ?new) s = Some (ths, s')" "session_at fd0 mem_ok d s'"
    "\<And>t. w_done (ths t) = min OPS (count_list sched t)" "\<And>t. w_errs (ths t) = w_done (ths t)" by auto
  have "w_done (ths t) = OPS" if "t < 4" for t using that assms(3) r(3) by (simp add: min_absorb1)
  then have "\<forall>t < 4. w_done (ths t) = OPS" "0 < (\<Sum>t < 4. w_errs (ths t))"
    by (simp_all add: r(4) OPS_def)
  with r(1,2) show "\<exists>s'. do { (ths, s) \<leftarrow> workers c sched (\<lambda>_. ?new) s;
     if \<forall>t < 4. w_done (ths t) = OPS then
       Some (if 0 < (\<Sum>t < 4. w_errs (ths t)) then Fail ''concurrent errors'' else Pass, s)
     else None } = Some (Fail ''concurrent errors'', s') \<and> session_at fd0 mem_ok d s'" by simp
qed

lemma suite_verdicts:
  assumes inv: "dev_inv d" and "process_at mem_ok d s" and "\<And>t. t < 4 \<Longrightarrow> OPS \<le> count_list sched t"
  shows "\<exists>s'. test_main c sched s =
    Some ([Pass, Fail ''submit failed'', Fail ''submit failed'', Fail ''submit failed'', Fail ''submit'',
      Fail ''submit'', Fail ''get_info failed'', Pass, Pass, Fail ''expected -EINVAL'', Fail ''expected -ENOENT'',
      Pass, Pass, Fail ''submit'', Pass, Fail ''concurrent errors''], 1, s') \<and> process_at mem_ok d s'"
proof -
  have "\<exists>s'. run_tests [t_open_close c, t_submit_dla0 c, t_submit_dla1 c, t_submit_pva c,
       t_submit_query c, t_submit_cancel c, t_get_info_all c, t_get_version c,
       t_set_power c, t_invalid_type c, t_query_nonexist c, t_cancel_nonexist c,
       t_null_handle c, t_multiple c, t_strerror c, t_concurrent c sched] s =
    Some ([Pass, Fail ''submit failed'', Fail ''submit failed'', Fail ''submit failed'', Fail ''submit'',
      Fail ''submit'', Fail ''get_info failed'', Pass, Pass, Fail ''expected -EINVAL'', Fail ''expected -ENOENT'',
      Pass, Pass, Fail ''submit'', Pass, Fail ''concurrent errors''], s') \<and> process_at mem_ok d s'"
    using assms(2)
    by (intro run_test [where P = "process_at mem_ok d"] run_no_test [where P = "process_at mem_ok d"]
        call_verdicts [OF inv] submission_verdicts [OF inv] concurrent_verdict [OF inv])
      (simp_all add: null_handle_passes strerror_passes assms(3))
  then show ?thesis by (auto simp: test_main_def failed_def simp del: run_tests.simps)
qed

end

text \<open>
  The process with a flat memory: structures of different sizes are at different places of its
  stack, all of memory is mapped, and the device opens at descriptor 3 on either driver.
\<close>

definition flat_client :: "(umem uaccess \<Rightarrow> u64 \<Rightarrow> u64 \<Rightarrow> cortex_forge_dev \<Rightarrow> umem \<Rightarrow> u32 \<Rightarrow> u64 \<Rightarrow>
    int \<times> cortex_forge_dev \<times> umem) \<Rightarrow> u64 \<Rightarrow> u64 \<Rightarrow> (int \<Rightarrow> string) \<Rightarrow> u8 list \<Rightarrow> (nat \<Rightarrow> nat \<Rightarrow> u32 \<times> u32) \<Rightarrow>
    (cortex_forge_dev \<times> umem) client" where
  "flat_client handler hz now str uninit rand = \<lparr>c_sys = drv_syscall handler flat_uaccess hz now 3,
     c_open = (\<lambda>path. if path = DEVICE then Inr 3 else Inl 2), c_calloc = True,
     c_push = (\<lambda>bs. push_at (0x7000 + 256 * of_nat (length bs)) bs),
     c_peek = (\<lambda>a n (d, m). map (um_byte m) (um_addrs a n)), c_strerror = str, c_uninit = uninit,
     c_rand = rand\<rparr>"

definition all_mapped :: "umem \<Rightarrow> bool" where
  "all_mapped m \<longleftrightarrow> um_mapped m = (\<lambda>_. True) \<and> um_writable m = (\<lambda>_. True)"

lemma all_mapped_store: "all_mapped m \<Longrightarrow> all_mapped (um_store m a bs)"
  by (simp add: all_mapped_def um_store_def)

lemma all_mapped_write: "all_mapped m \<Longrightarrow> copy_to_user flat_uaccess m a bs = (um_store m a bs, True)"
  by (simp add: all_mapped_def flat_uaccess_def um_write_def Let_def)

lemma flat_push:
  assumes "all_mapped m"
  shows "\<exists>a m'. push_at sp bs (d, m) = (a, (d, m')) \<and> all_mapped m' \<and>
    (length bs = 4 \<longrightarrow> copy_from_user flat_uaccess m' a 4 = Some bs)"
  using flat.to_from [OF all_mapped_write [OF assms], of bs sp] all_mapped_store [OF assms]
  by (auto simp: push_at_def)

lemma flat_client_ok:
  assumes "forge_driver handler"
  shows "test_client handler flat_uaccess hz now 3 all_mapped (flat_client handler hz now str uninit rand)"
proof (rule test_client.intro [OF assms], unfold_locales)
  show "\<exists>a m'. c_push (flat_client handler hz now str uninit rand) bs (d, m) = (a, (d, m')) \<and> all_mapped m' \<and>
      (length bs = 4 \<longrightarrow> copy_from_user flat_uaccess m' a 4 = Some bs)" if "all_mapped m" for m bs d
    using flat_push [OF that] by (simp add: flat_client_def)
  show "\<exists>m'. copy_to_user flat_uaccess m a bs = (m', True) \<and> all_mapped m'" if "all_mapped m" for m a bs
    using all_mapped_write [OF that] all_mapped_store [OF that] by blast
  show "c_peek (flat_client handler hz now str uninit rand) a n (d, m) = bs"
    if "copy_from_user flat_uaccess m a n = Some bs" for m a n bs d
    using that by (auto simp: flat_client_def flat_uaccess_def um_read_def split: if_splits)
qed (simp_all add: flat_client_def flat.to_from flat.from_length)

interpretation suite: test_client cortex_forge_ioctl flat_uaccess hz now 3 all_mapped
    "flat_client cortex_forge_ioctl hz now str uninit rand" for hz now str uninit rand
  by (rule flat_client_ok [OF modular.forge_driver_axioms])

interpretation suite_monolith: test_client cfm_ioctl flat_uaccess hz now 3 all_mapped
    "flat_client cfm_ioctl hz now str uninit rand" for hz now str uninit rand
  by (rule flat_client_ok [OF monolith.forge_driver_axioms])

section \<open>What the test program reports\<close>

text \<open>C39. The repository's test program, run against either driver with nobody else using the device and
  on any schedule of its last test's threads in which each gets its 25 turns: it terminates with
  6 tests passed and 10 failed and exit status 1, whatever tasks the device held before. Exactly
  the tests that submit, query or ask for accelerator information fail, those that expect an
  error included, because the library's commands are unknown to the driver; the device is left
  as it was.\<close>

theorem test_suite_outcome:
  assumes "dev_inv d" and "all_mapped m" and "\<forall>t < 4. 25 \<le> count_list sched t"
    and "handler = cortex_forge_ioctl \<or> handler = cfm_ioctl"
  shows "\<exists>st' m'. test_main (flat_client handler hz now str uninit rand) sched (st, (d, m)) =
    Some ([Pass, Fail ''submit failed'', Fail ''submit failed'', Fail ''submit failed'', Fail ''submit'',
      Fail ''submit'', Fail ''get_info failed'', Pass, Pass, Fail ''expected -EINVAL'', Fail ''expected -ENOENT'',
      Pass, Pass, Fail ''submit'', Pass, Fail ''concurrent errors''], 1, st', (d, m'))"
proof -
  have p: "process_at all_mapped d (st, (d, m))" using assms(2) by (simp add: process_at_def)
  have o: "\<And>t. t < 4 \<Longrightarrow> OPS \<le> count_list sched t" using assms(3) by (simp add: OPS_def)
  have "\<exists>s'. test_main (flat_client handler hz now str uninit rand) sched (st, (d, m)) =
    Some ([Pass, Fail ''submit failed'', Fail ''submit failed'', Fail ''submit failed'', Fail ''submit'',
      Fail ''submit'', Fail ''get_info failed'', Pass, Pass, Fail ''expected -EINVAL'', Fail ''expected -ENOENT'',
      Pass, Pass, Fail ''submit'', Pass, Fail ''concurrent errors''], 1, s') \<and> process_at all_mapped d s'"
    using suite.suite_verdicts [OF assms(1) p o] suite_monolith.suite_verdicts [OF assms(1) p o] assms(4)
    by blast
  then show ?thesis by (auto simp: process_at_def)
qed

theorem test_suite_outcome_witness:
  "\<exists>vs st' m'. test_main (flat_client cortex_forge_ioctl 250 7 (\<lambda>_. ''error'') [1, 2, 3, 4] (\<lambda>t k. (0, 0)))
      (concat (replicate 25 [0, 1, 2, 3]))
      (\<lparr>l_errno = 0, l_fds = [], l_handles = 0, l_mutexes = 0\<rparr>, (fresh_dev, um_holding 0 [])) =
    Some (vs, 1, st', (fresh_dev, m')) \<and> failed vs = 10"
proof -
  have f: "\<forall>t < 4. 25 \<le> count_list (concat (replicate 25 [0, 1, 2, 3])) (t :: nat)"
    by (auto simp: eval_nat_numeral less_Suc_eq)
  have "all_mapped (um_holding 0 [])" by (simp add: all_mapped_def um_holding_def um_store_def)
  from test_suite_outcome [OF fresh_dev_facts(1) this f, of cortex_forge_ioctl 250 7 "\<lambda>_. ''error''" "[1, 2, 3, 4]"
      "\<lambda>t k. (0, 0)" "\<lparr>l_errno = 0, l_fds = [], l_handles = 0, l_mutexes = 0\<rparr>"]
  show ?thesis by (auto simp: failed_def)
qed

text \<open>Where the device cannot be opened the tests of the device are skipped, and the program reports success.\<close>

lemma test_suite_without_driver:
  assumes "c_open c DEVICE = Inl e"
  shows "\<exists>vs st'. test_main c sched (st, w) = Some (vs, 0, st', w) \<and> failed vs = 0 \<and> length (filter ((=) Skip) vs) = 14"
proof -
  have "device_test c body (st, w) = Some (Skip, st\<lparr>l_errno := e\<rparr>, w)" for body st
    by (simp add: device_test_def lib_open_def assms)
  then show ?thesis
    by (simp add: test_main_def t_open_close_def t_submit_dla0_def t_submit_dla1_def t_submit_pva_def t_submit_query_def
        t_submit_cancel_def t_get_info_all_def t_get_version_def t_set_power_def t_invalid_type_def
        t_query_nonexist_def t_cancel_nonexist_def null_handle_passes t_multiple_def strerror_passes
        t_concurrent_def failed_def)
qed

end
