(* ===== verification/Stress_Test.thy ===== *)
theory Stress_Test
  imports Test_Suite Transition_Systems
begin

text \<open>
  \<^verbatim>\<open>test/cortex-forge_stress.c\<close>: four threads that open the device each for themselves, wait for
  each other at a barrier, and submit, query and cancel tasks. A step is one library call of one
  thread or one operation on the barrier; what a thread needs of the process is a \<open>client\<close> of its
  own (its stack, its descriptor, its random numbers). How the driver interleaves the system calls
  below the library is the subject of the theories on the running driver.
\<close>

section \<open>The threads\<close>

definition NUM_THREADS :: nat where "NUM_THREADS = 4"
definition OPS_PER_THREAD :: nat where "OPS_PER_THREAD = 100"

text \<open>
  Where \<open>worker_thread\<close> is, with the handle it holds, the index of its loop and the identifier the
  submission gave it: before the call that opens the device, before and in the wait at the barrier,
  at the head of the loop, before the query, before the cancellation, returned.
\<close>

datatype stress_pc =
    T_Open
  | T_Arrive "cortex_forge_handle option"
  | T_Wait "cortex_forge_handle option"
  | T_Submit "cortex_forge_handle option" nat
  | T_Query "cortex_forge_handle option" nat u32
  | T_Cancel "cortex_forge_handle option" nat u32
  | T_Return

record 'w stress =
  x_ths :: "nat \<Rightarrow> stress_pc"
  x_arrived :: nat
  x_lib :: lib_state
  x_world :: 'w

text \<open>
  One step of thread \<open>t\<close>; \<open>None\<close> when it cannot move, because it has returned or waits. The barrier,
  initialised with the number of threads and passed once by each, lets them go when all have
  arrived. \<open>coin t k\<close> tells whether the third random number of operation \<open>k\<close> is even.
\<close>

definition worker_thread :: "(nat \<Rightarrow> 'w client) \<Rightarrow> (nat \<Rightarrow> nat \<Rightarrow> bool) \<Rightarrow> nat \<Rightarrow> 'w stress \<Rightarrow> 'w stress option" where
  "worker_thread cs coin t x =
     (let goto = (\<lambda>pc st w. x\<lparr>x_ths := (x_ths x)(t := pc), x_lib := st, x_world := w\<rparr>) in
      case x_ths x t of
        T_Open \<Rightarrow>
          (case lib_open (c_open (cs t)) (c_calloc (cs t)) (Some DEVICE) (x_lib x) of
             (None, st) \<Rightarrow> Some (goto T_Return st (x_world x))
           | (Some h, st) \<Rightarrow> Some (goto (T_Arrive (Some h)) st (x_world x)))
      | T_Arrive h \<Rightarrow> Some (x\<lparr>x_ths := (x_ths x)(t := T_Wait h), x_arrived := x_arrived x + 1\<rparr>)
      | T_Wait h \<Rightarrow>
          (if x_arrived x = NUM_THREADS then Some (goto (T_Submit h 0) (x_lib x) (x_world x)) else None)
      | T_Submit h i \<Rightarrow>
          (if i < OPS_PER_THREAD then do {
             (r, tid, h1, st, w) \<leftarrow> submit_local (cs t) (test_desc [(''accel_type'', fst (c_rand (cs t) t i) mod 3),
               (''priority'', snd (c_rand (cs t) t i) mod 256), (''input_size'', 1024),
               (''output_size'', 1024)]) (h, x_lib x, x_world x);
             Some (goto (if r = 0 then T_Query h1 i tid else T_Submit h1 (Suc i)) st w) }
           else Some (goto T_Return (lib_close h (x_lib x)) (x_world x)))
      | T_Query h i tid \<Rightarrow> do {
          (r, _, h1, st, w) \<leftarrow> query_local (cs t) tid (h, x_lib x, x_world x);
          Some (goto (if coin t i then T_Cancel h1 i tid else T_Submit h1 (Suc i)) st w) }
      | T_Cancel h i tid \<Rightarrow> do {
          (r, h1, st, w) \<leftarrow> cancel_local (cs t) tid (h, x_lib x, x_world x);
          Some (goto (T_Submit h1 (Suc i)) st w) }
      | T_Return \<Rightarrow> None)"

section \<open>The program\<close>

text \<open>
  \<open>main\<close> initialises the barrier, creates the threads and joins them: it comes to its end when all of
  them have returned.
\<close>

definition stress_init :: "lib_state \<Rightarrow> 'w \<Rightarrow> 'w stress" where
  "stress_init st w = \<lparr>x_ths = (\<lambda>_. T_Open), x_arrived = 0, x_lib = st, x_world = w\<rparr>"

inductive stress_move :: "(nat \<Rightarrow> 'w client) \<Rightarrow> (nat \<Rightarrow> nat \<Rightarrow> bool) \<Rightarrow> 'w stress \<Rightarrow> 'w stress \<Rightarrow> bool" for cs coin where
  "t < NUM_THREADS \<Longrightarrow> worker_thread cs coin t x = Some x' \<Longrightarrow> stress_move cs coin x x'"

definition stress_ends :: "'w stress \<Rightarrow> bool" where
  "stress_ends x \<longleftrightarrow> (\<forall>t < NUM_THREADS. x_ths x t = T_Return)"

inductive_simps stress_move_iff: "stress_move cs coin x x'"

lemma reach_start: "reach ((=) s) step s"
  by (rule reach_init) simp

lemma reach_one: "step s s' \<Longrightarrow> reach ((=) s) step s'"
  by (rule reach_step [of _ _ s]) (rule reach_start)

section \<open>It cannot run forever\<close>

fun pc_rank :: "stress_pc \<Rightarrow> nat" where
  "pc_rank T_Open = 304"
| "pc_rank (T_Arrive h) = 303"
| "pc_rank (T_Wait h) = 302"
| "pc_rank (T_Submit h i) = 1 + 3 * (OPS_PER_THREAD - i)"
| "pc_rank (T_Query h i tid) = 3 + 3 * (OPS_PER_THREAD - Suc i)"
| "pc_rank (T_Cancel h i tid) = 2 + 3 * (OPS_PER_THREAD - Suc i)"
| "pc_rank T_Return = 0"

definition stress_rank :: "'w stress \<Rightarrow> nat" where
  "stress_rank x = (\<Sum>t < NUM_THREADS. pc_rank (x_ths x t))"

lemma worker_thread_rank:
  assumes "worker_thread cs coin t x = Some x'"
  shows "\<exists>pc. x_ths x' = (x_ths x)(t := pc) \<and> pc_rank pc < pc_rank (x_ths x t)"
  using assms
  by (cases "x_ths x t")
    (auto simp: worker_thread_def Let_def OPS_PER_THREAD_def bind_eq_Some_conv split: prod.splits option.splits if_splits)

lemma stress_rank_decreases:
  assumes "stress_move cs coin x x'"
  shows "stress_rank x' < stress_rank x"
proof -
  from assms obtain t where t: "t < NUM_THREADS" "worker_thread cs coin t x = Some x'" by (auto simp: stress_move_iff)
  from worker_thread_rank [OF t(2)] obtain pc where "x_ths x' = (x_ths x)(t := pc)" "pc_rank pc < pc_rank (x_ths x t)" by blast
  with t(1) show ?thesis unfolding stress_rank_def by (intro sum_strict_mono_ex1) auto
qed

lemma stress_rank_init: "stress_rank (stress_init st w) = 1216"
  by (simp add: stress_rank_def stress_init_def NUM_THREADS_def)

section \<open>When a thread cannot open the device\<close>

text \<open>Whether \<open>cortex_forge_open\<close> succeeds for a client.\<close>

definition can_open :: "'w client \<Rightarrow> bool" where
  "can_open c \<longleftrightarrow> (\<exists>fd0. c_open c DEVICE = Inr fd0) \<and> c_calloc c"

lemma lib_open_result: "fst (lib_open (c_open c) (c_calloc c) (Some DEVICE) st) \<noteq> None \<longleftrightarrow> can_open c"
  by (auto simp: lib_open_def can_open_def Let_def split: sum.splits)

text \<open>A thread that has not got past the barrier.\<close>

fun held_back :: "bool \<Rightarrow> stress_pc \<Rightarrow> bool" where
  "held_back opened T_Open = True"
| "held_back opened (T_Arrive h) = opened"
| "held_back opened (T_Wait h) = opened"
| "held_back opened T_Return = (\<not> opened)"
| "held_back opened _ = False"

definition at_barrier :: "'w stress \<Rightarrow> nat set" where
  "at_barrier x = {t. t < NUM_THREADS \<and> (\<exists>h. x_ths x t = T_Wait h)}"

definition stress_stuck :: "(nat \<Rightarrow> 'w client) \<Rightarrow> 'w stress \<Rightarrow> bool" where
  "stress_stuck cs x \<longleftrightarrow> x_arrived x = card (at_barrier x) \<and>
     (\<forall>t < NUM_THREADS. held_back (can_open (cs t)) (x_ths x t))"

lemma stuck_not_full:
  assumes "stress_stuck cs x" and "t < NUM_THREADS" and "\<not> can_open (cs t)"
  shows "x_arrived x < NUM_THREADS"
proof -
  have "t \<notin> at_barrier x" using assms by (auto simp: stress_stuck_def at_barrier_def)
  then have "at_barrier x \<subset> {..<NUM_THREADS}" using assms(2) by (auto simp: at_barrier_def)
  from psubset_card_mono [OF _ this] assms(1) show ?thesis by (simp add: stress_stuck_def)
qed

lemma stuck_step:
  assumes "stress_stuck cs x" and "t0 < NUM_THREADS" and "\<not> can_open (cs t0)" and "stress_move cs coin x x'"
  shows "stress_stuck cs x'"
proof -
  from assms(4) obtain t where t: "t < NUM_THREADS" "worker_thread cs coin t x = Some x'" by (auto simp: stress_move_iff)
  have fin: "finite (at_barrier x)" by (simp add: at_barrier_def)
  have full: "x_arrived x \<noteq> NUM_THREADS" using stuck_not_full [OF assms(1-3)] by simp
  have hb: "held_back (can_open (cs t)) (x_ths x t)" using assms(1) t(1) by (simp add: stress_stuck_def)
  show ?thesis
  proof (cases "\<exists>h. x_ths x t = T_Arrive h")
    case True
    then obtain h where h: "x_ths x t = T_Arrive h" by blast
    with t(2) have x': "x' = x\<lparr>x_ths := (x_ths x)(t := T_Wait h), x_arrived := x_arrived x + 1\<rparr>"
      by (simp add: worker_thread_def)
    then have "at_barrier x' = insert t (at_barrier x)" "t \<notin> at_barrier x"
      using t(1) h by (auto simp: at_barrier_def)
    with assms(1) fin hb h show ?thesis by (auto simp: stress_stuck_def x')
  next
    case False
    with hb full t(2) lib_open_result [of "cs t" "x_lib x"]
    obtain pc where "x_ths x t = T_Open" "x_ths x' = (x_ths x)(t := pc)" "x_arrived x' = x_arrived x"
      "held_back (can_open (cs t)) pc" "\<forall>h. pc \<noteq> T_Wait h"
      by (cases "x_ths x t") (auto simp: worker_thread_def Let_def split: prod.splits option.splits)
    moreover from this have "at_barrier x' = at_barrier x" by (auto simp: at_barrier_def)
    ultimately show ?thesis using assms(1) by (simp add: stress_stuck_def)
  qed
qed

text \<open>
  With a thread that cannot open the device, which returns without going to the barrier: the barrier
  was initialised for all four, so the others never get past it, and no system call on the device is made.
\<close>

lemma stuck_reach:
  assumes "reach ((=) (stress_init st w)) (stress_move cs coin) x" and "t0 < NUM_THREADS" and "\<not> can_open (cs t0)"
  shows "stress_stuck cs x \<and> x_world x = w"
  using assms(1)
proof (induction rule: reach.induct)
  case (reach_init x)
  then show ?case by (auto simp: stress_stuck_def stress_init_def at_barrier_def)
next
  case (reach_step x x')
  then obtain t where t: "t < NUM_THREADS" "worker_thread cs coin t x = Some x'" by (auto simp: stress_move_iff)
  have "held_back (can_open (cs t)) (x_ths x t)" using reach_step.IH t(1) by (simp add: stress_stuck_def)
  then have "x_world x' = x_world x"
    using t(2) by (cases "x_ths x t") (auto simp: worker_thread_def Let_def split: prod.splits option.splits if_splits)
  with stuck_step [OF _ assms(2,3) reach_step.hyps(2)] reach_step.IH show ?case by simp
qed

text \<open>A thread that did open it never returns then; if none did, all return.\<close>

lemma stuck_ends:
  assumes "stress_stuck cs x"
  shows "t1 < NUM_THREADS \<Longrightarrow> can_open (cs t1) \<Longrightarrow> \<not> stress_ends x"
    and "(\<And>t. t < NUM_THREADS \<Longrightarrow> \<not> can_open (cs t)) \<Longrightarrow> stress_ends x \<or> (\<exists>x'. stress_move cs coin x x')"
proof -
  have hb: "held_back (can_open (cs t)) (x_ths x t)" if "t < NUM_THREADS" for t
    using assms that by (simp add: stress_stuck_def)
  show "t1 < NUM_THREADS \<Longrightarrow> can_open (cs t1) \<Longrightarrow> \<not> stress_ends x" using hb by (force simp: stress_ends_def)
  show "stress_ends x \<or> (\<exists>x'. stress_move cs coin x x')" if none: "\<And>t. t < NUM_THREADS \<Longrightarrow> \<not> can_open (cs t)"
  proof (cases "stress_ends x")
    case False
    then obtain t where t: "t < NUM_THREADS" "x_ths x t \<noteq> T_Return" by (auto simp: stress_ends_def)
    with hb [OF t(1)] none [OF t(1)] have "x_ths x t = T_Open" by (cases "x_ths x t") auto
    then have "\<exists>x'. worker_thread cs coin t x = Some x'"
      by (auto simp: worker_thread_def Let_def split: prod.splits option.splits)
    with t(1) show ?thesis by (auto simp: stress_move_iff)
  qed simp
qed

lemma stuck_where:
  assumes "stress_stuck cs x" and "t < NUM_THREADS"
  shows "x_ths x t = T_Open \<or>
    (if can_open (cs t) then \<exists>h. x_ths x t \<in> {T_Arrive h, T_Wait h} else x_ths x t = T_Return)"
proof -
  have "held_back (can_open (cs t)) (x_ths x t)" using assms by (simp add: stress_stuck_def)
  then show ?thesis by (cases "x_ths x t") auto
qed

lemma stress_move_cong:
  assumes "\<And>t. t < NUM_THREADS \<Longrightarrow> cs t = cs' t"
  shows "stress_move cs coin = stress_move cs' coin"
proof -
  have "worker_thread cs coin t x = worker_thread cs' coin t x" if "t < NUM_THREADS" for t x
    unfolding worker_thread_def assms [OF that] ..
  then show ?thesis by (auto simp: fun_eq_iff stress_move_iff)
qed

section \<open>On a driver\<close>

text \<open>The points a thread is at, and which of them are past its arrival.\<close>

definition thread_at :: "(nat \<Rightarrow> int) \<Rightarrow> nat \<Rightarrow> stress_pc \<Rightarrow> bool" where
  "thread_at fd t pc \<longleftrightarrow> pc = T_Open \<or> pc = T_Return \<or> pc = T_Arrive (Some (test_handle (fd t))) \<or>
     pc = T_Wait (Some (test_handle (fd t))) \<or> (\<exists>i. pc = T_Submit (Some (test_handle (fd t))) i)"

fun has_arrived :: "stress_pc \<Rightarrow> bool" where
  "has_arrived T_Open = False"
| "has_arrived (T_Arrive h) = False"
| "has_arrived _ = True"

definition arrivals :: "(nat \<Rightarrow> stress_pc) \<Rightarrow> nat set" where
  "arrivals ths = {t. t < NUM_THREADS \<and> has_arrived (ths t)}"

definition stress_inv :: "(nat \<Rightarrow> int) \<Rightarrow> ('m \<Rightarrow> bool) \<Rightarrow> cortex_forge_dev \<Rightarrow> (cortex_forge_dev \<times> 'm) stress \<Rightarrow> bool" where
  "stress_inv fd mem_ok d x \<longleftrightarrow> (\<forall>t < NUM_THREADS. thread_at fd t (x_ths x t)) \<and>
     (\<exists>m. x_world x = (d, m) \<and> mem_ok m) \<and> x_arrived x = card (arrivals (x_ths x))"

lemma arrivals_upd:
  "has_arrived pc = has_arrived (ths t) \<Longrightarrow> arrivals (ths(t := pc)) = arrivals ths"
  "t < NUM_THREADS \<Longrightarrow> has_arrived pc \<Longrightarrow> arrivals (ths(t := pc)) = insert t (arrivals ths)"
  "finite (arrivals ths)" "t \<in> arrivals ths \<longleftrightarrow> t < NUM_THREADS \<and> has_arrived (ths t)"
  by (auto simp: arrivals_def)

text \<open>
  Every thread is a client of the driver in the sense of the test
  program, with a descriptor of its own.
\<close>

locale stress_clients =
  fixes handler :: "'m uaccess \<Rightarrow> u64 \<Rightarrow> u64 \<Rightarrow> cortex_forge_dev \<Rightarrow> 'm \<Rightarrow> u32 \<Rightarrow> u64 \<Rightarrow> int \<times> cortex_forge_dev \<times> 'm"
    and ua :: "'m uaccess" and hz now :: u64 and fd :: "nat \<Rightarrow> int" and mem_ok :: "'m \<Rightarrow> bool"
    and cs :: "nat \<Rightarrow> (cortex_forge_dev \<times> 'm) client"
  assumes client: "test_client handler ua hz now (fd t) mem_ok (cs t)"
begin

lemma opens_handle:
  obtains st1 where "lib_open (c_open (cs t)) (c_calloc (cs t)) (Some DEVICE) st = (Some (test_handle (fd t)), st1)"
  by (simp add: lib_open_def test_client.opens [OF client] test_client.allocates [OF client] test_handle_def)

lemma stress_inv_init: "mem_ok m \<Longrightarrow> stress_inv fd mem_ok d (stress_init st (d, m))"
  by (simp add: stress_inv_def stress_init_def thread_at_def arrivals_def)

lemma submit_step:
  assumes "dev_inv d" and "x_world x = (d, m)" and "mem_ok m"
    and "x_ths x t = T_Submit (Some (test_handle (fd t))) i" and "i < OPS_PER_THREAD"
  shows "\<exists>st m'. worker_thread cs coin t x = Some (x\<lparr>x_ths := (x_ths x)(t := T_Submit (Some (test_handle (fd t))) (Suc i)),
    x_lib := st, x_world := (d, m')\<rparr>) \<and> mem_ok m'"
proof -
  have "session_at (fd t) mem_ok d (Some (test_handle (fd t)), x_lib x, (d, m))" using assms(3) by (simp add: session_at_def)
  from test_client.submit_fails [OF client assms(1) this] obtain tid s' where
    "submit_local (cs t) (test_desc [(''accel_type'', fst (c_rand (cs t) t i) mod 3),
               (''priority'', snd (c_rand (cs t) t i) mod 256), (''input_size'', 1024),
               (''output_size'', 1024)]) (Some (test_handle (fd t)), x_lib x, (d, m)) = Some (neg_errno ENOTTY, tid, s')"
    "session_at (fd t) mem_ok d s'" by blast
  with assms(2,4,5) show ?thesis by (auto simp: worker_thread_def Let_def session_at_def neg_errno_def)
qed

lemma stress_inv_move:
  assumes "stress_inv fd mem_ok d x" and "t < NUM_THREADS" and "thread_at fd t pc" and "has_arrived pc = has_arrived (x_ths x t)"
    and "mem_ok m"
  shows "stress_inv fd mem_ok d (x\<lparr>x_ths := (x_ths x)(t := pc), x_lib := st, x_world := (d, m)\<rparr>)"
  using assms by (simp add: stress_inv_def arrivals_upd(1))

lemma stress_inv_step:
  assumes "dev_inv d" and inv: "stress_inv fd mem_ok d x" and "stress_move cs coin x x'"
  shows "stress_inv fd mem_ok d x'"
proof -
  from assms(3) obtain t where t: "t < NUM_THREADS" "worker_thread cs coin t x = Some x'" by (auto simp: stress_move_iff)
  obtain m where m: "x_world x = (d, m)" "mem_ok m" using inv by (auto simp: stress_inv_def)
  let ?h = "Some (test_handle (fd t))"
  note move = stress_inv_move [OF inv t(1)]
  have "thread_at fd t (x_ths x t)" using inv t(1) by (simp add: stress_inv_def)
  then consider "x_ths x t = T_Open" | "x_ths x t = T_Arrive ?h" | "x_ths x t = T_Wait ?h"
    | i where "x_ths x t = T_Submit ?h i" | "x_ths x t = T_Return"
    by (auto simp: thread_at_def)
  then show ?thesis
  proof cases
    case 1
    obtain st1 where "lib_open (c_open (cs t)) (c_calloc (cs t)) (Some DEVICE) (x_lib x) = (?h, st1)" by (rule opens_handle)
    with t(2) 1 m move [of "T_Arrive ?h" m st1] show ?thesis by (auto simp: worker_thread_def Let_def thread_at_def)
  next
    case 2
    then have "x' = x\<lparr>x_ths := (x_ths x)(t := T_Wait ?h), x_arrived := x_arrived x + 1\<rparr>" using t(2) by (simp add: worker_thread_def)
    with inv 2 t(1) show ?thesis by (simp add: stress_inv_def arrivals_upd(2-4) thread_at_def)
  next
    case 3
    with t(2) m move [of "T_Submit ?h 0" m "x_lib x"] show ?thesis
      by (auto simp: worker_thread_def Let_def thread_at_def split: if_splits)
  next
    case (4 i)
    show ?thesis
    proof (cases "i < OPS_PER_THREAD")
      case True
      with submit_step [OF assms(1) m 4, of coin] t(2) 4 move [of "T_Submit ?h (Suc i)"] show ?thesis
        by (auto simp: thread_at_def)
    next
      case False
      with t(2) 4 m move [of T_Return m "lib_close ?h (x_lib x)"] show ?thesis
        by (auto simp: worker_thread_def Let_def thread_at_def)
    qed
  next
    case 5
    with t(2) show ?thesis by (simp add: worker_thread_def)
  qed
qed

text \<open>Nobody waits for ever: while a thread is in front of the barrier, or all are past it, somebody moves.\<close>

lemma stress_moves:
  assumes "dev_inv d" and inv: "stress_inv fd mem_ok d x" and "\<not> stress_ends x"
  shows "\<exists>x'. stress_move cs coin x x'"
proof -
  obtain m where m: "x_world x = (d, m)" "mem_ok m" using inv by (auto simp: stress_inv_def)
  have at: "thread_at fd t (x_ths x t)" if "t < NUM_THREADS" for t using inv that by (simp add: stress_inv_def)
  have "\<exists>t < NUM_THREADS. \<exists>x'. worker_thread cs coin t x = Some x'"
  proof (cases "arrivals (x_ths x) = {..<NUM_THREADS}")
    case True
    then have all: "x_arrived x = NUM_THREADS" "\<And>t. t < NUM_THREADS \<Longrightarrow> has_arrived (x_ths x t)"
      using inv by (auto simp: stress_inv_def arrivals_def)
    obtain t where t: "t < NUM_THREADS" "x_ths x t \<noteq> T_Return" using assms(3) by (auto simp: stress_ends_def)
    from at [OF t(1)] all(2) [OF t(1)] t(2) consider "x_ths x t = T_Wait (Some (test_handle (fd t)))"
      | i where "x_ths x t = T_Submit (Some (test_handle (fd t))) i" by (auto simp: thread_at_def)
    then have "\<exists>x'. worker_thread cs coin t x = Some x'"
    proof cases
      case (2 i)
      with submit_step [OF assms(1) m 2, of coin] show ?thesis
        by (cases "i < OPS_PER_THREAD") (auto simp: worker_thread_def Let_def)
    qed (simp add: worker_thread_def all(1))
    with t(1) show ?thesis by blast
  next
    case False
    then obtain t where t: "t < NUM_THREADS" "\<not> has_arrived (x_ths x t)" by (auto simp: arrivals_def)
    then have "\<exists>x'. worker_thread cs coin t x = Some x'"
      by (cases "x_ths x t") (auto simp: worker_thread_def Let_def split: prod.splits option.splits)
    with t(1) show ?thesis by blast
  qed
  then show ?thesis by (auto simp: stress_move_iff)
qed

end

text \<open>
  The threads on the flat memory of the test program: descriptors 3 to 6, and a stack for each. \<open>ok t\<close>
  tells whether thread \<open>t\<close> can open the device.
\<close>

definition flat_threads :: "(umem uaccess \<Rightarrow> u64 \<Rightarrow> u64 \<Rightarrow> cortex_forge_dev \<Rightarrow> umem \<Rightarrow> u32 \<Rightarrow> u64 \<Rightarrow>
    int \<times> cortex_forge_dev \<times> umem) \<Rightarrow> u64 \<Rightarrow> u64 \<Rightarrow> (nat \<Rightarrow> nat \<Rightarrow> u32 \<times> u32) \<Rightarrow> (nat \<Rightarrow> bool) \<Rightarrow> nat \<Rightarrow>
    (cortex_forge_dev \<times> umem) client" where
  "flat_threads handler hz now rand ok t = (flat_client handler hz now (\<lambda>_. []) [] rand)\<lparr>
     c_sys := drv_syscall handler flat_uaccess hz now (3 + int t),
     c_open := (\<lambda>path. if path = DEVICE \<and> ok t then Inr (3 + int t) else Inl 2),
     c_push := (\<lambda>bs. push_at (0x7000 + 0x10000 * of_nat t + 256 * of_nat (length bs)) bs)\<rparr>"

lemma can_open_flat [simp]: "can_open (flat_threads handler hz now rand ok t) \<longleftrightarrow> ok t"
  by (simp add: can_open_def flat_threads_def flat_client_def)

lemma flat_threads_cong: "ok t = ok' t \<Longrightarrow> flat_threads handler hz now rand ok t = flat_threads handler hz now rand ok' t"
  by (simp add: flat_threads_def)

lemma flat_thread_ok:
  assumes "forge_driver handler"
  shows "test_client handler flat_uaccess hz now (3 + int t) all_mapped (flat_threads handler hz now rand (\<lambda>_. True) t)"
proof (rule test_client.intro [OF assms], unfold_locales)
  show "\<exists>a m'. c_push (flat_threads handler hz now rand (\<lambda>_. True) t) bs (d, m) = (a, (d, m')) \<and> all_mapped m' \<and>
      (length bs = 4 \<longrightarrow> copy_from_user flat_uaccess m' a 4 = Some bs)" if "all_mapped m" for m bs d
    using flat_push [OF that] by (simp add: flat_threads_def)
  show "\<exists>m'. copy_to_user flat_uaccess m a bs = (m', True) \<and> all_mapped m'" if "all_mapped m" for m a bs
    using all_mapped_write [OF that] all_mapped_store [OF that] by blast
  show "c_peek (flat_threads handler hz now rand (\<lambda>_. True) t) a n (d, m) = bs"
    if "copy_from_user flat_uaccess m a n = Some bs" for m a n bs d
    using that by (auto simp: flat_threads_def flat_client_def flat_uaccess_def um_read_def split: if_splits)
qed (simp_all add: flat_threads_def flat_client_def flat.to_from flat.from_length)

interpretation stress: stress_clients cortex_forge_ioctl flat_uaccess hz now "\<lambda>t. 3 + int t" all_mapped
    "flat_threads cortex_forge_ioctl hz now rand (\<lambda>_. True)" for hz now rand
  by (rule stress_clients.intro) (rule flat_thread_ok [OF modular.forge_driver_axioms])

interpretation stress_monolith: stress_clients cfm_ioctl flat_uaccess hz now "\<lambda>t. 3 + int t" all_mapped
    "flat_threads cfm_ioctl hz now rand (\<lambda>_. True)" for hz now rand
  by (rule stress_clients.intro) (rule flat_thread_ok [OF monolith.forge_driver_axioms])

lemma stress_all_open:
  assumes "dev_inv d" and "all_mapped m" and "handler = cortex_forge_ioctl \<or> handler = cfm_ioctl"
    and "\<And>t. t < NUM_THREADS \<Longrightarrow> ok t"
    and "reach ((=) (stress_init st (d, m))) (stress_move (flat_threads handler hz now rand ok) coin) x"
  shows "fst (x_world x) = d \<and> (stress_ends x \<or> (\<exists>x'. stress_move (flat_threads handler hz now rand ok) coin x x'))"
proof -
  let ?inv = "stress_inv (\<lambda>t. 3 + int t) all_mapped d"
  have mv: "stress_move (flat_threads handler hz now rand ok) coin = stress_move (flat_threads handler hz now rand (\<lambda>_. True)) coin"
    by (intro stress_move_cong flat_threads_cong) (simp add: assms(4))
  have step: "?inv x \<Longrightarrow> stress_move (flat_threads handler hz now rand (\<lambda>_. True)) coin x x' \<Longrightarrow> ?inv x'" for x x'
    using stress.stress_inv_step [OF assms(1)] stress_monolith.stress_inv_step [OF assms(1)] assms(3) by blast
  have inv: "?inv x"
    using assms(5) unfolding mv
  proof (induction rule: reach.induct)
    case (reach_init x)
    then show ?case using stress.stress_inv_init [OF assms(2)] by blast
  qed (rule step)
  moreover have "stress_ends x \<or> (\<exists>x'. stress_move (flat_threads handler hz now rand (\<lambda>_. True)) coin x x')"
    using stress.stress_moves [OF assms(1) inv] stress_monolith.stress_moves [OF assms(1) inv] assms(3) by blast
  ultimately show ?thesis unfolding mv by (auto simp: stress_inv_def)
qed

lemma stress_rank_reach:
  "reach ((=) (stress_init st w)) (stress_move cs coin) x \<Longrightarrow> stress_rank x \<le> 1216"
proof (induction rule: reach.induct)
  case (reach_init x)
  then show ?case using stress_rank_init by (metis order_refl)
next
  case (reach_step x x')
  with stress_rank_decreases [OF reach_step.hyps(2)] show ?case by simp
qed

text \<open>C40. The stress program against either driver, on every schedule of its threads' calls. It makes at
  most 1216 steps, since every step lowers a rank, and it leaves the device as it found it, because
  not one of its 400 submissions is a command the driver knows: the races it was written to provoke
  are not exercised. If all four threads can open the device, or none can, some thread can move
  until all have returned, so the program ends. If some can and some cannot it never ends, and no
  thread ever passes the barrier: it waits for four threads, those that failed to open the device
  return without coming to it, and the others stay before it or in the wait.\<close>

theorem stress_test_outcome:
  assumes "dev_inv d" and "all_mapped m" and "handler = cortex_forge_ioctl \<or> handler = cfm_ioctl"
    and "move = stress_move (flat_threads handler hz now rand ok) coin" and "reach ((=) (stress_init st (d, m))) move x"
  shows "fst (x_world x) = d \<and> (\<forall>x'. move x x' \<longrightarrow> stress_rank x' < stress_rank x) \<and> stress_rank x \<le> 1216 \<and>
    (if (\<forall>t < NUM_THREADS. ok t) \<or> (\<forall>t < NUM_THREADS. \<not> ok t) then stress_ends x \<or> (\<exists>x'. move x x')
     else \<not> stress_ends x \<and> (\<forall>t < NUM_THREADS. x_ths x t = T_Open \<or>
       (if ok t then \<exists>h. x_ths x t \<in> {T_Arrive h, T_Wait h} else x_ths x t = T_Return)))"
proof -
  let ?cs = "flat_threads handler hz now rand ok"
  note reach = assms(5) [unfolded assms(4)]
  have "fst (x_world x) = d \<and> (if (\<forall>t < NUM_THREADS. ok t) \<or> (\<forall>t < NUM_THREADS. \<not> ok t)
      then stress_ends x \<or> (\<exists>x'. stress_move ?cs coin x x')
      else \<not> stress_ends x \<and> (\<forall>t < NUM_THREADS. x_ths x t = T_Open \<or>
        (if ok t then \<exists>h. x_ths x t \<in> {T_Arrive h, T_Wait h} else x_ths x t = T_Return)))"
  proof (cases "\<forall>t < NUM_THREADS. ok t")
    case True
    with stress_all_open [OF assms(1-3) _ reach] show ?thesis by simp
  next
    case False
    then obtain t0 where t0: "t0 < NUM_THREADS" "\<not> can_open (?cs t0)" by auto
    have stuck: "stress_stuck ?cs x" "x_world x = (d, m)" using stuck_reach [OF reach t0] by simp_all
    show ?thesis
    proof (cases "\<forall>t < NUM_THREADS. \<not> ok t")
      case True
      with stuck_ends(2) [OF stuck(1), of coin] stuck(2) show ?thesis by simp
    next
      case some: False
      with stuck_ends(1) [OF stuck(1)] have "\<not> stress_ends x" by auto
      moreover have "\<forall>t < NUM_THREADS. x_ths x t = T_Open \<or>
          (if ok t then \<exists>h. x_ths x t \<in> {T_Arrive h, T_Wait h} else x_ths x t = T_Return)"
        using stuck_where [OF stuck(1)] by simp
      ultimately show ?thesis using False some stuck(2) by (simp only: if_False simp_thms fst_conv)
    qed
  qed
  with stress_rank_decreases stress_rank_reach [OF reach] show ?thesis unfolding assms(4) by blast
qed

theorem stress_test_outcome_witness:
  "\<exists>x. stress_move (flat_threads cortex_forge_ioctl 250 7 (\<lambda>t k. (0, 0)) (\<lambda>t. t \<noteq> 0)) (\<lambda>t k. True)
       (stress_init \<lparr>l_errno = 0, l_fds = [], l_handles = 0, l_mutexes = 0\<rparr> (fresh_dev, um_holding 0 [])) x \<and>
     \<not> stress_ends x \<and> (\<exists>h. x_ths x 1 \<in> {T_Open, T_Arrive h, T_Wait h}) \<and> fst (x_world x) = fresh_dev"
proof -
  let ?st = "\<lparr>l_errno = 0, l_fds = [], l_handles = 0, l_mutexes = 0\<rparr>"
  let ?w = "(fresh_dev, um_holding 0 [])"
  let ?c = "flat_threads cortex_forge_ioctl 250 7 (\<lambda>t k. (0, 0)) (\<lambda>t. t \<noteq> 0)"
  let ?x = "(stress_init ?st ?w)\<lparr>x_ths := (\<lambda>_. T_Open)(0 := T_Return), x_lib := ?st\<lparr>l_errno := 2\<rparr>\<rparr>"
  have a: "all_mapped (um_holding 0 [])" by (simp add: all_mapped_def um_holding_def um_store_def)
  have n: "(0 :: nat) < NUM_THREADS" "(1 :: nat) < NUM_THREADS" by (simp_all add: NUM_THREADS_def)
  have "worker_thread ?c (\<lambda>t k. True) 0 (stress_init ?st ?w) = Some ?x"
    by (simp add: worker_thread_def stress_init_def lib_open_def flat_threads_def flat_client_def Let_def)
  then have m: "stress_move ?c (\<lambda>t k. True) (stress_init ?st ?w) ?x" using n(1) by (auto simp: stress_move_iff)
  have "reach ((=) (stress_init ?st ?w)) (stress_move ?c (\<lambda>t k. True)) ?x" by (rule reach_one) (rule m)
  from stress_test_outcome [OF fresh_dev_facts(1) a _ refl this]
  have p: "fst (x_world ?x) = fresh_dev" "if (\<forall>t < NUM_THREADS. t \<noteq> 0) \<or> (\<forall>t < NUM_THREADS. \<not> t \<noteq> 0)
      then stress_ends ?x \<or> Ex (stress_move ?c (\<lambda>t k. True) ?x)
      else \<not> stress_ends ?x \<and> (\<forall>t < NUM_THREADS. x_ths ?x t = T_Open \<or>
        (if t \<noteq> 0 then \<exists>h. x_ths ?x t \<in> {T_Arrive h, T_Wait h} else x_ths ?x t = T_Return))" by blast+
  have "\<not> ((\<forall>t < NUM_THREADS. t \<noteq> 0) \<or> (\<forall>t < NUM_THREADS. \<not> t \<noteq> 0))" using n by fastforce
  note q = p(2) [unfolded if_not_P [OF this]]
  have "\<exists>h. x_ths ?x 1 \<in> {T_Open, T_Arrive h, T_Wait h}" using q n(2) by auto
  with m p(1) q show ?thesis by blast
qed

end
