(* ===== verification/Module_System.thy ===== *)
theory Module_System
  imports Forge_Main Worker_System
begin

text \<open>
  The module on a system with any number of platform devices: the tables that \<^verbatim>\<open>src/main.c\<close>,
  \<^verbatim>\<open>src/chardev.c\<close> and \<^verbatim>\<open>src/cortex_forge_main.c\<close> hand to the kernel, and what happens to devices,
  open files and the global pointer \<open>g_dev\<close> as devices are bound and unbound and files opened,
  used and released, in any order, while the worker threads of each bound device run. A handler or a
  probe is one step here, a worker makes the steps of \<open>accel_worker_thread\<close>; \<open>Worker_System\<close> is
  the view from inside the handlers.
\<close>

section \<open>Tables\<close>

datatype llseek_op = Noop_llseek | No_llseek

text \<open>The members that neither table sets are \<open>None\<close>.\<close>

record 'm file_operations =
  fop_open :: "(nat \<Rightarrow> filp \<Rightarrow> int \<times> filp) option"
  fop_release :: "(filp \<Rightarrow> int \<times> filp) option"
  fop_unlocked_ioctl :: "('m uaccess \<Rightarrow> u64 \<Rightarrow> u64 \<Rightarrow> cortex_forge_dev \<Rightarrow> 'm \<Rightarrow> u32 \<Rightarrow> u64 \<Rightarrow>
    int \<times> cortex_forge_dev \<times> 'm) option"
  fop_llseek :: "llseek_op option"
  fop_read :: "(filp \<Rightarrow> int) option"
  fop_write :: "(filp \<Rightarrow> int) option"
  fop_poll :: "(filp \<Rightarrow> u32) option"

record platform_driver =
  pd_probe :: "probe_env \<Rightarrow> int \<times> cortex_forge_dev option \<times> kcall list"
  pd_remove :: "cortex_forge_dev \<Rightarrow> cortex_forge_dev \<times> kcall list"
  pd_name :: string
  pd_of_match :: "string list"

definition main_of_match :: "string list" where
  "main_of_match = [''nvidia,tegra234-cortex-forge'']"

definition cortex_forge_fops :: "'m file_operations" where
  "cortex_forge_fops = \<lparr>fop_open = Some cortex_forge_open, fop_release = Some cortex_forge_release,
     fop_unlocked_ioctl = Some cortex_forge_ioctl, fop_llseek = Some Noop_llseek,
     fop_read = None, fop_write = None, fop_poll = None\<rparr>"

definition cortex_forge_driver :: platform_driver where
  "cortex_forge_driver = \<lparr>pd_probe = cortex_forge_probe, pd_remove = cortex_forge_remove,
     pd_name = ''cortex-forge'', pd_of_match = main_of_match\<rparr>"

definition cfm_of_match :: "string list" where
  "cfm_of_match = [''nvidia,tegra234-cortex-forge'']"

definition cfm_fops :: "'m file_operations" where
  "cfm_fops = \<lparr>fop_open = Some cfm_open, fop_release = Some cfm_release,
     fop_unlocked_ioctl = Some cfm_ioctl, fop_llseek = Some No_llseek,
     fop_read = None, fop_write = None, fop_poll = None\<rparr>"

definition cfm_driver :: platform_driver where
  "cfm_driver = \<lparr>pd_probe = cfm_probe, pd_remove = cfm_remove,
     pd_name = ''cortex-forge'', pd_of_match = cfm_of_match\<rparr>"

section \<open>The system\<close>

text \<open>
  \<open>ms_dev p\<close> is the memory that probe allocated for platform device \<open>p\<close> with \<open>devm_kzalloc\<close>, which the
  kernel releases when the driver has been unbound from it or its probe has failed; \<open>ms_files\<close> are
  the open files. Files stay open across \<open>cdev_del\<close>. \<open>ms_wk p a\<close> is where the worker of accelerator
  \<open>a\<close> of that device is: probe has started it when it returns 0, and remove has joined it when it returns.
\<close>

record module_sys =
  ms_dev :: "nat \<Rightarrow> cortex_forge_dev option"
  ms_wk :: "nat \<Rightarrow> nat \<Rightarrow> worker_pc"
  ms_gdev :: kptr
  ms_files :: "nat \<Rightarrow> filp option"

definition bind_device :: "platform_driver \<Rightarrow> probe_env \<Rightarrow> nat \<Rightarrow> module_sys \<Rightarrow> int \<times> module_sys" where
  "bind_device drv env p s =
     (let (ret, dev, cs) = pd_probe drv env;
          s1 = (if pe_kzalloc env then s\<lparr>ms_gdev := PTR p\<rparr> else s)
      in (ret, if ret = 0 then s1\<lparr>ms_dev := (ms_dev s1)(p := dev), ms_wk := (ms_wk s1)(p := (\<lambda>_. W_Loop))\<rparr> else s1))"

text \<open>
  Unbinding is the work of the kernel's device core: it calls the driver's \<open>remove\<close>, whose result is
  the first component, and then releases what probe allocated.
\<close>

definition unbind_device :: "platform_driver \<Rightarrow> nat \<Rightarrow> module_sys \<Rightarrow>
    (cortex_forge_dev \<times> kcall list) option \<times> module_sys" where
  "unbind_device drv p s = (map_option (pd_remove drv) (ms_dev s p), s\<lparr>ms_dev := (ms_dev s)(p := None)\<rparr>)"

definition open_file :: "'m file_operations \<Rightarrow> nat \<Rightarrow> nat \<Rightarrow> module_sys \<Rightarrow> module_sys" where
  "open_file fops f p s =
     (case fop_open fops of
        None \<Rightarrow> s\<lparr>ms_files := (ms_files s)(f := Some \<lparr>private_data = NULL\<rparr>)\<rparr>
      | Some opn \<Rightarrow>
          let (ret, fp) = opn p \<lparr>private_data = NULL\<rparr>
          in if ret = 0 then s\<lparr>ms_files := (ms_files s)(f := Some fp)\<rparr> else s)"

definition release_file :: "nat \<Rightarrow> module_sys \<Rightarrow> module_sys" where
  "release_file f s = s\<lparr>ms_files := (ms_files s)(f := None)\<rparr>"

text \<open>
  An ioctl on an open file, if the file's \<open>private_data\<close> points to a live device; there is no result
  if it does not.
\<close>

definition ioctl_file :: "'m file_operations \<Rightarrow> 'm uaccess \<Rightarrow> u64 \<Rightarrow> u64 \<Rightarrow> nat \<Rightarrow> 'm \<Rightarrow> u32 \<Rightarrow> u64 \<Rightarrow>
    module_sys \<Rightarrow> (int \<times> module_sys \<times> 'm) option" where
  "ioctl_file fops ua hz now f m cmd arg s =
     (case (ms_files s f, fop_unlocked_ioctl fops) of
        (Some fp, Some ioc) \<Rightarrow>
          (case private_data fp of
             PTR p \<Rightarrow>
               (case ms_dev s p of
                  Some d \<Rightarrow>
                    let (ret, d1, m1) = ioc ua hz now d m cmd arg
                    in Some (ret, s\<lparr>ms_dev := (ms_dev s)(p := Some d1)\<rparr>, m1)
                | None \<Rightarrow> None)
           | _ \<Rightarrow> None)
      | _ \<Rightarrow> None)"

text \<open>
  The steps. \<open>bus\<close> says which platform devices the kernel matches with the driver's table. With
  \<open>careful\<close> set, no device is unbound while a file is open on it. In \<open>step_thread\<close> a worker of a
  bound device moves, at any time and any setting of the clock; nobody has told it to stop.
\<close>

definition no_file_on :: "nat \<Rightarrow> module_sys \<Rightarrow> bool" where
  "no_file_on p s \<longleftrightarrow> (\<forall>f fp. ms_files s f = Some fp \<longrightarrow> private_data fp \<noteq> PTR p)"

inductive module_step :: "platform_driver \<Rightarrow> 'm file_operations \<Rightarrow> (string list \<Rightarrow> nat \<Rightarrow> bool) \<Rightarrow> bool \<Rightarrow>
    module_sys \<Rightarrow> module_sys \<Rightarrow> bool" for drv fops bus careful where
  step_bind: "ms_dev s p = None \<Longrightarrow> bus (pd_of_match drv) p \<Longrightarrow> kernel_errors env \<Longrightarrow>
    module_step drv fops bus careful s (snd (bind_device drv env p s))"
| step_unbind: "ms_dev s p = Some d \<Longrightarrow> careful \<longrightarrow> no_file_on p s \<Longrightarrow>
    module_step drv fops bus careful s (snd (unbind_device drv p s))"
| step_open: "ms_files s f = None \<Longrightarrow> ms_dev s p = Some d \<Longrightarrow>
    module_step drv fops bus careful s (open_file fops f p s)"
| step_release: "module_step drv fops bus careful s (release_file f s)"
| step_ioctl: "ioctl_file fops ua hz now f m cmd arg s = Some (ret, s', m') \<Longrightarrow>
    module_step drv fops bus careful s s'"
| step_thread: "ms_dev s p = Some d \<Longrightarrow> a < NUM_ACCELERATORS \<Longrightarrow>
    accel_worker_thread m2j now False (ms_wk s p a) (tasks d, accelerators d ! a) = (pc, (ts, ac)) \<Longrightarrow>
    module_step drv fops bus careful s (s\<lparr>
      ms_dev := (ms_dev s)(p := Some (d\<lparr>tasks := ts, accelerators := (accelerators d)[a := ac]\<rparr>)),
      ms_wk := (ms_wk s)(p := (ms_wk s p)(a := pc))\<rparr>)"

definition module_loaded :: "module_sys \<Rightarrow> bool" where
  "module_loaded s \<longleftrightarrow> s = \<lparr>ms_dev = (\<lambda>_. None), ms_wk = (\<lambda>_ _. W_Exit), ms_gdev = NULL, ms_files = (\<lambda>_. None)\<rparr>"

section \<open>What the tables promise\<close>

definition dev_ok :: "cortex_forge_dev \<Rightarrow> bool" where
  "dev_ok d \<longleftrightarrow> dev_inv d \<and> live_bounds d"

text \<open>A worker has in hand only a slot that is in use.\<close>

definition workers_ok :: "cortex_forge_dev \<Rightarrow> (nat \<Rightarrow> worker_pc) \<Rightarrow> bool" where
  "workers_ok d wk \<longleftrightarrow>
     (\<forall>a < NUM_ACCELERATORS. \<forall>i. working (wk a) = Some i \<longrightarrow> i < MAX_TASKS \<and> i \<notin> set (free_tasks d))"

definition module_inv :: "module_sys \<Rightarrow> bool" where
  "module_inv s \<longleftrightarrow> (\<forall>p d. ms_dev s p = Some d \<longrightarrow> dev_ok d \<and> workers_ok d (ms_wk s p)) \<and>
     (\<forall>f fp. ms_files s f = Some fp \<longrightarrow> (\<exists>p d. private_data fp = PTR p \<and> ms_dev s p = Some d))"

text \<open>A step of a worker on a device: what it writes, and that it keeps the invariant.\<close>

lemma worker_step_writes:
  assumes "accel_worker_thread m2j now stop pc (ts, ac) = (pc', (ts', ac'))"
  shows "set (a_task_queue ac') \<subseteq> set (a_task_queue ac)" and "distinct (a_task_queue ac) \<Longrightarrow> distinct (a_task_queue ac')"
    and "working pc' = Some i \<Longrightarrow> working pc = Some i \<or> i \<in> set (a_task_queue ac)"
    and "ts' = ts \<or> (\<exists>i f. working pc = Some i \<and> ts' = upd_task i f ts \<and> (\<forall>t. t_id (f t) = t_id t \<and>
      t_accel_type (f t) = t_accel_type t \<and> t_input_size (f t) = t_input_size t \<and> t_output_size (f t) = t_output_size t \<and>
      (t_state t \<noteq> TASK_STATE_FREE \<longrightarrow> t_state (f t) \<noteq> TASK_STATE_FREE)))"
proof -
  show "set (a_task_queue ac') \<subseteq> set (a_task_queue ac)" "distinct (a_task_queue ac) \<Longrightarrow> distinct (a_task_queue ac')"
    "working pc' = Some i \<Longrightarrow> working pc = Some i \<or> i \<in> set (a_task_queue ac)"
    using assms by (cases pc; auto simp: list_defs split: if_splits list.splits)+
  show "ts' = ts \<or> (\<exists>i f. working pc = Some i \<and> ts' = upd_task i f ts \<and> (\<forall>t. t_id (f t) = t_id t \<and>
      t_accel_type (f t) = t_accel_type t \<and> t_input_size (f t) = t_input_size t \<and> t_output_size (f t) = t_output_size t \<and>
      (t_state t \<noteq> TASK_STATE_FREE \<longrightarrow> t_state (f t) \<noteq> TASK_STATE_FREE)))"
    using assms by (cases pc) (auto simp: list_defs split: if_splits list.splits)
qed

lemma dev_ok_write:
  assumes ok: "dev_ok d" and i: "i < MAX_TASKS" "i \<notin> set (free_tasks d)"
    and f: "\<And>t. t_id (f t) = t_id t" "\<And>t. t_accel_type (f t) = t_accel_type t" "\<And>t. t_input_size (f t) = t_input_size t"
      "\<And>t. t_output_size (f t) = t_output_size t" "\<And>t. t_state t \<noteq> TASK_STATE_FREE \<Longrightarrow> t_state (f t) \<noteq> TASK_STATE_FREE"
  shows "dev_ok (d\<lparr>tasks := upd_task i f (tasks d)\<rparr>)"
proof -
  have inv: "dev_inv d" and b: "live_bounds d" using ok by (simp_all add: dev_ok_def)
  have live: "t_state (tasks d ! i) \<noteq> TASK_STATE_FREE"
    using dev_inv_pool [OF inv] i by (simp add: pool_inv_def)
  have "pool_inv (upd_task i f (tasks d)) (free_tasks d) (next_task_id d)"
    unfolding upd_task_def by (rule pool_inv_update [OF dev_inv_pool [OF inv]]) (use f live in auto)
  moreover have "t_accel_type (upd_task i f (tasks d) ! j) = t_accel_type (tasks d ! j)" for j
    using i(1) dev_inv_lengths(1) [OF inv] f(2) by (simp add: nth_upd_task)
  moreover have "live_bounds (d\<lparr>tasks := upd_task i f (tasks d)\<rparr>)"
    using b live i(1) dev_inv_lengths(1) [OF inv] f by (auto simp: live_bounds_def nth_upd_task)
  ultimately show ?thesis using inv by (simp add: dev_ok_def dev_inv_def queue_inv_def)
qed

lemma dev_ok_accel:
  assumes "dev_ok d" and "a < NUM_ACCELERATORS" and "set (a_task_queue ac) \<subseteq> set (a_task_queue (accelerators d ! a))"
    and "distinct (a_task_queue (accelerators d ! a)) \<Longrightarrow> distinct (a_task_queue ac)"
  shows "dev_ok (d\<lparr>accelerators := (accelerators d)[a := ac]\<rparr>)"
proof -
  have "queue_inv (tasks d) (free_tasks d) b ((accelerators d)[a := ac] ! b)" if "b < NUM_ACCELERATORS" for b
  proof (cases "b = a")
    case True
    have "queue_inv (tasks d) (free_tasks d) a (accelerators d ! a)" using assms(1,2) by (simp add: dev_ok_def dev_inv_def)
    with assms True that show ?thesis by (auto simp: queue_inv_def dev_ok_def dev_inv_def)
  next
    case False
    then show ?thesis using assms(1) that by (simp add: dev_ok_def dev_inv_def)
  qed
  then show ?thesis using assms(1) by (simp add: dev_ok_def dev_inv_def live_bounds_def)
qed

lemma worker_step_ok:
  assumes w: "accel_worker_thread m2j now stop (wk a) (tasks d, accelerators d ! a) = (pc, (ts, ac))"
    and a: "a < NUM_ACCELERATORS" and ok: "dev_ok d" "workers_ok d wk"
  shows "dev_ok (d\<lparr>tasks := ts, accelerators := (accelerators d)[a := ac]\<rparr>)"
    and "workers_ok (d\<lparr>tasks := ts, accelerators := (accelerators d)[a := ac]\<rparr>) (wk(a := pc))"
proof -
  note st = worker_step_writes [OF w]
  have "dev_ok (d\<lparr>tasks := ts\<rparr>)"
    using st(4)
  proof (elim disjE exE conjE)
    fix i f
    assume i: "working (wk a) = Some i" "ts = upd_task i f (tasks d)" and f: "\<forall>t. t_id (f t) = t_id t \<and>
      t_accel_type (f t) = t_accel_type t \<and> t_input_size (f t) = t_input_size t \<and> t_output_size (f t) = t_output_size t \<and>
      (t_state t \<noteq> TASK_STATE_FREE \<longrightarrow> t_state (f t) \<noteq> TASK_STATE_FREE)"
    have "i < MAX_TASKS" "i \<notin> set (free_tasks d)" using ok(2) a i(1) by (simp_all add: workers_ok_def)
    then show ?thesis unfolding i(2) by (rule dev_ok_write [OF ok(1)]) (use f in auto)
  qed (use ok(1) in simp)
  from dev_ok_accel [OF this a] st(1,2) show "dev_ok (d\<lparr>tasks := ts, accelerators := (accelerators d)[a := ac]\<rparr>)" by simp
  have "i < MAX_TASKS \<and> i \<notin> set (free_tasks d)" if "i \<in> set (a_task_queue (accelerators d ! a))" for i
    using that ok(1) a by (auto simp: dev_ok_def dev_inv_def queue_inv_def)
  then show "workers_ok (d\<lparr>tasks := ts, accelerators := (accelerators d)[a := ac]\<rparr>) (wk(a := pc))"
    using st(3) ok(2) a by (auto simp: workers_ok_def)
qed

lemma workers_ok_mono: "workers_ok d wk \<Longrightarrow> set (free_tasks d') \<subseteq> set (free_tasks d) \<Longrightarrow> workers_ok d' wk"
  by (auto simp: workers_ok_def)

locale char_driver =
  fixes drv :: platform_driver and fops :: "'m file_operations"
    and ioc :: "'m uaccess \<Rightarrow> u64 \<Rightarrow> u64 \<Rightarrow> cortex_forge_dev \<Rightarrow> 'm \<Rightarrow> u32 \<Rightarrow> u64 \<Rightarrow> int \<times> cortex_forge_dev \<times> 'm"
  assumes probes: "kernel_errors env \<Longrightarrow> pd_probe drv env = (0, dev, cs) \<Longrightarrow> \<exists>d. dev = Some d \<and> dev_ok d"
    and opens: "open_file fops f p s = s\<lparr>ms_files := (ms_files s)(f := Some \<lparr>private_data = PTR p\<rparr>)\<rparr>"
    and serves: "fop_unlocked_ioctl fops = Some ioc"
    and keeps: "dev_ok d \<Longrightarrow> ioc ua hz now d m cmd arg = (ret, d', m') \<Longrightarrow>
      dev_ok d' \<and> set (free_tasks d') \<subseteq> set (free_tasks d)"
begin

lemma ioctl_live:
  assumes "ms_files s f = Some fp" and "private_data fp = PTR p" and "ms_dev s p = Some d"
    and "ioc ua hz now d m cmd arg = (ret, d', m')"
  shows "ioctl_file fops ua hz now f m cmd arg s = Some (ret, s\<lparr>ms_dev := (ms_dev s)(p := Some d')\<rparr>, m')"
  using assms by (simp add: ioctl_file_def serves)

lemma ioctl_fileD:
  assumes "ioctl_file fops ua hz now f m cmd arg s = Some (ret, s', m')"
  obtains fp p d d' where "ms_files s f = Some fp" "private_data fp = PTR p" "ms_dev s p = Some d"
    "ioc ua hz now d m cmd arg = (ret, d', m')" "s' = s\<lparr>ms_dev := (ms_dev s)(p := Some d')\<rparr>"
  using assms by (auto simp: ioctl_file_def serves split: option.splits kptr.splits prod.splits)

lemma bind_cases:
  assumes "kernel_errors env"
  obtains (bound) d g where "dev_ok d" "snd (bind_device drv env p s) = s\<lparr>ms_dev := (ms_dev s)(p := Some d),
      ms_wk := (ms_wk s)(p := (\<lambda>_. W_Loop)), ms_gdev := g\<rparr>"
    | (failed) g where "snd (bind_device drv env p s) = s\<lparr>ms_gdev := g\<rparr>"
proof -
  obtain ret dev cs where pr: "pd_probe drv env = (ret, dev, cs)" by (metis prod_cases3)
  show ?thesis
  proof (cases "ret = 0")
    case True
    with probes [OF assms] pr obtain d where "dev = Some d" "dev_ok d" by blast
    with True pr bound [of d "if pe_kzalloc env then PTR p else ms_gdev s"] show ?thesis
      by (simp add: bind_device_def split: if_splits)
  next
    case False
    with pr failed [of "if pe_kzalloc env then PTR p else ms_gdev s"] show ?thesis
      by (simp add: bind_device_def split: if_splits)
  qed
qed

lemma module_inv_step:
  assumes "module_step drv fops bus True s s'" and "module_inv s"
  shows "module_inv s'"
  using assms
proof (induction rule: module_step.induct)
  case (step_bind s p env)
  from step_bind(3) show ?case
    by (rule bind_cases [where p = p and s = s]) (use step_bind in \<open>fastforce simp: module_inv_def workers_ok_def\<close>)+
next
  case (step_unbind s p d)
  then show ?case by (fastforce simp: module_inv_def unbind_device_def no_file_on_def)
next
  case (step_open s f p d)
  then show ?case by (simp add: module_inv_def opens)
next
  case (step_release s f)
  then show ?case by (simp add: module_inv_def release_file_def)
next
  case (step_ioctl ua hz now f m cmd arg s ret s' m')
  from step_ioctl(1) obtain fp p d d' where "ms_files s f = Some fp" and i: "private_data fp = PTR p" "ms_dev s p = Some d"
    "ioc ua hz now d m cmd arg = (ret, d', m')" "s' = s\<lparr>ms_dev := (ms_dev s)(p := Some d')\<rparr>"
    by (rule ioctl_fileD)
  have "dev_ok d" "workers_ok d (ms_wk s p)" using step_ioctl(2) i(2) by (simp_all add: module_inv_def)
  then have "dev_ok d' \<and> workers_ok d' (ms_wk s p)" using keeps [OF _ i(3)] workers_ok_mono by blast
  moreover have "ms_dev s' q \<noteq> None" if "ms_dev s q \<noteq> None" for q using that by (simp add: i(4))
  ultimately show ?case
    using step_ioctl(2) unfolding module_inv_def by (auto simp: i(4) split: if_splits) metis
next
  case (step_thread s p d a m2j now pc ts ac)
  have "dev_ok d" "workers_ok d (ms_wk s p)" using step_thread(1,4) by (simp_all add: module_inv_def)
  from worker_step_ok [OF step_thread(3,2) this] step_thread(1,4) show ?case
    unfolding module_inv_def by (auto split: if_splits) metis
qed

end

sublocale char_driver \<subseteq> invariant_system module_loaded "module_step drv fops bus True" module_inv for bus
proof
  show "module_loaded s \<Longrightarrow> module_inv s" for s by (simp add: module_loaded_def module_inv_def)
qed (rule module_inv_step)

context char_driver
begin

lemma file_served:
  assumes "reach module_loaded (module_step drv fops bus True) s" and "ms_files s f = Some fp"
  shows "\<exists>p d ret d' m'. private_data fp = PTR p \<and> ms_dev s p = Some d \<and> dev_inv d \<and>
    ioc ua hz now d m cmd arg = (ret, d', m') \<and> dev_inv d' \<and>
    ioctl_file fops ua hz now f m cmd arg s = Some (ret, s\<lparr>ms_dev := (ms_dev s)(p := Some d')\<rparr>, m')"
proof -
  from inv_reach [OF assms(1)] assms(2) obtain p d where p: "private_data fp = PTR p" "ms_dev s p = Some d" "dev_ok d"
    unfolding module_inv_def by blast
  obtain ret d' m' where r: "ioc ua hz now d m cmd arg = (ret, d', m')" by (metis prod_cases3)
  from ioctl_live [OF assms(2) p(1,2) r] keeps [OF p(3) r] p r show ?thesis by (auto simp: dev_ok_def)
qed

end

lemma dev_ok_probed:
  "dev_ok ((pre_workers env)\<lparr>accelerators := with_workers krun NUM_ACCELERATORS init_accels, dev_dev := dv\<rparr>)"
proof -
  have "a_task_queue (with_workers krun NUM_ACCELERATORS init_accels ! a) = []" if "a < NUM_ACCELERATORS" for a
    using that init_accels_nth by (simp add: nth_with_workers)
  then show ?thesis
    using pool_inv_init
    by (simp add: dev_ok_def dev_inv_def live_bounds_def queue_inv_def pre_workers_def probe_setup_zero zero_task_def)
qed

interpretation module: char_driver cortex_forge_driver cortex_forge_fops cortex_forge_ioctl
proof
  show "\<exists>d. dev = Some d \<and> dev_ok d" if "kernel_errors env" "pd_probe cortex_forge_driver env = (0, dev, cs)" for env dev cs
    using probe_outcome(2) [OF that(1), of 0 dev cs] that(2) dev_ok_probed by (simp add: cortex_forge_driver_def)
  show "dev_ok d' \<and> set (free_tasks d') \<subseteq> set (free_tasks d)" if "dev_ok d" "cortex_forge_ioctl ua hz now d m cmd arg = (ret, d', m')"
    for d and ua :: "'m uaccess" and hz now m cmd arg ret d' m'
    using ioctl_keeps_inv [OF _ _ that(2)] ioctl_frees_none [OF _ that(2)] that(1) by (simp add: dev_ok_def)
qed (simp_all add: cortex_forge_fops_def open_file_def cortex_forge_open_def)

lemma cfm_probe_hw:
  assumes "kernel_errors env" and "cfm_probe env = (0, dev, cs)"
  shows "hw_ok env"
proof (rule ccontr)
  assume "\<not> hw_ok env"
  then have "\<exists>e dev. cfm_probe env = (e, dev, []) \<and> e < 0"
    using assms(1) by (auto simp: hw_ok_def kernel_errors_def cfm_probe_def IS_ERR_iff Let_def neg_errno_def)
  with assms(2) show False by auto
qed

lemma cfm_probe_ok:
  assumes k: "kernel_errors env" and p: "cfm_probe env = (0, dev, cs)"
  shows "\<exists>d. dev = Some d \<and> dev_ok d"
proof (rule start_cases [of "pe_krun env"])
  assume "\<forall>i < NUM_ACCELERATORS. \<not> IS_ERR (pe_krun env i)"
  with cfm_probe_threads_ok [OF k cfm_probe_hw [OF assms] this p] dev_ok_probed show ?thesis by simp
next
  fix n assume n: "n < NUM_ACCELERATORS" "IS_ERR (pe_krun env n)" "\<forall>i < n. \<not> IS_ERR (pe_krun env i)"
  have "PTR_ERR (pe_krun env n) \<noteq> 0"
    using n(2) k unfolding IS_ERR_iff kernel_errors_def by fastforce
  with cfm_probe_thread_fails [OF cfm_probe_hw [OF assms] n p] show ?thesis by simp
qed

interpretation cfm_module: char_driver cfm_driver cfm_fops cfm_ioctl
proof
  show "\<exists>d. dev = Some d \<and> dev_ok d" if "kernel_errors env" "pd_probe cfm_driver env = (0, dev, cs)" for env dev cs
    using cfm_probe_ok that by (simp add: cfm_driver_def)
  show "dev_ok d' \<and> set (free_tasks d') \<subseteq> set (free_tasks d)" if "dev_ok d" "cfm_ioctl ua hz now d m cmd arg = (ret, d', m')"
    for d and ua :: "'m uaccess" and hz now m cmd arg ret d' m'
    using module.keeps [OF that(1)] that by (simp add: dev_ok_def cfm_ioctl_eq)
qed (simp_all add: cfm_fops_def open_file_def cfm_open_def)

section \<open>Properties\<close>

lemma reach_loaded: "reach module_loaded step \<lparr>ms_dev = (\<lambda>_. None), ms_wk = (\<lambda>_ _. W_Exit), ms_gdev = NULL, ms_files = (\<lambda>_. None)\<rparr>"
  by (rule reach_init) (simp add: module_loaded_def)

lemma reach_opened:
  assumes "bus main_of_match p"
  obtains d where "reach module_loaded (module_step cortex_forge_driver (cortex_forge_fops :: 'm file_operations) bus careful)
    \<lparr>ms_dev = [p \<mapsto> d], ms_wk = (\<lambda>_ _. W_Exit)(p := (\<lambda>_. W_Loop)), ms_gdev = PTR p, ms_files = [f \<mapsto> \<lparr>private_data = PTR p\<rparr>]\<rparr>"
proof -
  let ?step = "module_step cortex_forge_driver (cortex_forge_fops :: 'm file_operations) bus careful"
  let ?s0 = "\<lparr>ms_dev = (\<lambda>_. None), ms_wk = (\<lambda>_ _. W_Exit), ms_gdev = NULL, ms_files = (\<lambda>_. None)\<rparr>"
  obtain dev cs where pr: "cortex_forge_probe good_env = (0, dev, cs)" using good_env_probe by blast
  then obtain d where d: "dev = Some d" using probe_outcome(2) [OF good_env_facts(1)] by blast
  have b: "snd (bind_device cortex_forge_driver good_env p ?s0) = \<lparr>ms_dev = [p \<mapsto> d], ms_wk = (\<lambda>_ _. W_Exit)(p := (\<lambda>_. W_Loop)), ms_gdev = PTR p, ms_files = (\<lambda>_. None)\<rparr>"
    using pr d by (simp add: bind_device_def cortex_forge_driver_def) (simp add: good_env_def)
  have "?step ?s0 (snd (bind_device cortex_forge_driver good_env p ?s0))"
    by (rule step_bind) (simp_all add: assms cortex_forge_driver_def)
  from reach_step [of module_loaded ?step, OF reach_loaded this, unfolded b] have "reach module_loaded ?step
    \<lparr>ms_dev = [p \<mapsto> d], ms_wk = (\<lambda>_ _. W_Exit)(p := (\<lambda>_. W_Loop)), ms_gdev = PTR p, ms_files = (\<lambda>_. None)\<rparr>" .
  from reach_step [OF this step_open [of _ f p d]] that [of d] show ?thesis by (simp add: module.opens)
qed

text \<open>C15. On a system with any number of devices, bound, unbound, opened, used and closed in any order
  while their workers run, and for both drivers: as long as no device is unbound while a file is open on it, every open
  file refers to a live device that satisfies the invariant; every ioctl on it runs the handler
  on exactly that device, leaves the invariant, and touches no other device.\<close>

theorem open_files_live:
  assumes "reach module_loaded (module_step drv fops bus True) s" and "ms_files s f = Some fp"
    and "drv = cortex_forge_driver \<and> fops = cortex_forge_fops \<or> drv = cfm_driver \<and> fops = cfm_fops"
  shows "\<exists>p d ret d' m'. private_data fp = PTR p \<and> ms_dev s p = Some d \<and> dev_inv d \<and>
    cortex_forge_ioctl ua hz now d m cmd arg = (ret, d', m') \<and> dev_inv d' \<and>
    ioctl_file fops ua hz now f m cmd arg s = Some (ret, s\<lparr>ms_dev := (ms_dev s)(p := Some d')\<rparr>, m')"
  using assms(3)
proof (elim disjE conjE)
  assume eq: "drv = cortex_forge_driver" "fops = cortex_forge_fops"
  from module.file_served [OF assms(1) [unfolded eq] assms(2)] show ?thesis unfolding eq .
next
  assume eq: "drv = cfm_driver" "fops = cfm_fops"
  from cfm_module.file_served [OF assms(1) [unfolded eq] assms(2), of ua hz now m cmd arg] show ?thesis
    unfolding eq by (metis cfm_ioctl_eq)
qed

theorem open_files_live_witness:
  "\<exists>s ret s'. ioctl_file cortex_forge_fops flat_uaccess 250 7 4 (um_holding 0 []) CORTEX_FORGE_IOCTL_GET_VERSION 0x1000 s =
     Some (ret, s', um_store (um_holding 0 []) 0x1000 (bytes4 0x00010000)) \<and> ms_files s' = ms_files s"
proof -
  obtain d where "reach module_loaded (module_step cortex_forge_driver (cortex_forge_fops :: umem file_operations) (\<lambda>tbl p. p = 1) True)
    \<lparr>ms_dev = [1 \<mapsto> d], ms_wk = (\<lambda>_ _. W_Exit)(1 := (\<lambda>_. W_Loop)), ms_gdev = PTR 1, ms_files = [4 \<mapsto> \<lparr>private_data = PTR 1\<rparr>]\<rparr>"
    by (rule reach_opened [of "\<lambda>tbl p. p = 1" 1]) simp
  from open_files_live [OF this, of 4 _ flat_uaccess 250 7 "um_holding 0 []" CORTEX_FORGE_IOCTL_GET_VERSION "0x1000"]
  show ?thesis by (auto simp: ioctl_dispatch ioctl_get_version_def um_holding_write)
qed

text \<open>
  The condition on unbinding cannot be dropped: the driver has no record of its open files, so without it
  a file can outlive the device it refers to.
\<close>

lemma careful_needed:
  assumes "bus main_of_match p"
  shows "\<exists>s. reach module_loaded (module_step cortex_forge_driver (cortex_forge_fops :: 'm file_operations) bus False) s \<and>
    \<not> module_inv s"
proof -
  let ?step = "module_step cortex_forge_driver (cortex_forge_fops :: 'm file_operations) bus False"
  obtain d where r: "reach module_loaded ?step \<lparr>ms_dev = [p \<mapsto> d], ms_wk = (\<lambda>_ _. W_Exit)(p := (\<lambda>_. W_Loop)),
      ms_gdev = PTR p, ms_files = [0 \<mapsto> \<lparr>private_data = PTR p\<rparr>]\<rparr>" (is "reach _ _ ?s")
    by (rule reach_opened [of bus p False 0]) (rule assms)
  have "reach module_loaded ?step (snd (unbind_device cortex_forge_driver p ?s))"
    by (rule reach_step [OF r]) (rule step_unbind, simp_all)
  moreover have "\<not> module_inv (snd (unbind_device cortex_forge_driver p ?s))"
    by (auto simp: unbind_device_def module_inv_def)
  ultimately show ?thesis by blast
qed

end
