(* ===== verification/Platform_Forge.thy ===== *)
theory Platform_Forge
  imports Forge_Main
begin

text \<open>
  The files that describe the platform and the device's other faces:
  \<^verbatim>\<open>include/cortex_forge_regs.h\<close>, \<^verbatim>\<open>include/cortex_forge_platform.h\<close>,
  \<^verbatim>\<open>src/cortex_forge_platform.c\<close>, \<^verbatim>\<open>src/cortex_forge_irq.c\<close>,
  \<^verbatim>\<open>src/cortex_forge_sysfs.c\<close>, \<^verbatim>\<open>src/cortex_forge_debugfs.c\<close> and
  \<^verbatim>\<open>src/cortex_forge_chardev.c\<close>. None of them is part of the built module. The operations of a
  platform are functions over the driver's device type, a type variable here; \<open>of_match_node\<close>,
  the interrupt core and debugfs are parameters.
\<close>

section \<open>Registers\<close>

definition CORTEX_FORGE_REG_UNVERIFIED :: u32 where "CORTEX_FORGE_REG_UNVERIFIED = 0xFFFFFFFF"

text \<open>The offsets, block by block and in the order of the header, and the bit fields.\<close>

definition dla_reg_offsets :: "(string \<times> u32) list" where
  "dla_reg_offsets =
     [(''CTRL'', CORTEX_FORGE_REG_UNVERIFIED), (''STATUS'', CORTEX_FORGE_REG_UNVERIFIED),
      (''INT_MASK'', CORTEX_FORGE_REG_UNVERIFIED), (''INT_STATUS'', CORTEX_FORGE_REG_UNVERIFIED),
      (''TASK_ADDR'', CORTEX_FORGE_REG_UNVERIFIED), (''TASK_SIZE'', CORTEX_FORGE_REG_UNVERIFIED),
      (''FW_STATUS'', CORTEX_FORGE_REG_UNVERIFIED), (''PERF_CNT'', CORTEX_FORGE_REG_UNVERIFIED)]"

definition dla_ctrl_bits :: "(string \<times> u32) list" where
  "dla_ctrl_bits = [(''ENABLE'', push_bit 0 1), (''RESET'', push_bit 1 1), (''SUSPEND'', push_bit 2 1)]"

definition dla_status_bits :: "(string \<times> u32) list" where
  "dla_status_bits = [(''READY'', push_bit 0 1), (''BUSY'', push_bit 1 1), (''ERROR'', push_bit 2 1)]"

definition pva_reg_offsets :: "(string \<times> u32) list" where
  "pva_reg_offsets =
     [(''CTRL'', CORTEX_FORGE_REG_UNVERIFIED), (''STATUS'', CORTEX_FORGE_REG_UNVERIFIED),
      (''INT_MASK'', CORTEX_FORGE_REG_UNVERIFIED), (''INT_STATUS'', CORTEX_FORGE_REG_UNVERIFIED),
      (''TASK_ADDR'', CORTEX_FORGE_REG_UNVERIFIED), (''TASK_SIZE'', CORTEX_FORGE_REG_UNVERIFIED),
      (''FW_STATUS'', CORTEX_FORGE_REG_UNVERIFIED)]"

definition pva_ctrl_bits :: "(string \<times> u32) list" where
  "pva_ctrl_bits = [(''ENABLE'', push_bit 0 1), (''RESET'', push_bit 1 1)]"

definition pva_status_bits :: "(string \<times> u32) list" where
  "pva_status_bits = [(''READY'', push_bit 0 1), (''BUSY'', push_bit 1 1), (''ERROR'', push_bit 2 1)]"

record cortex_forge_regs =
  rg_ctrl :: u32
  rg_status :: u32
  rg_int_mask :: u32
  rg_int_status :: u32
  rg_task_addr :: u32
  rg_task_size :: u32
  rg_fw_status :: u32
  rg_perf_cnt :: u32

definition cortex_forge_regs_unverified :: "cortex_forge_regs \<Rightarrow> bool" where
  "cortex_forge_regs_unverified regs \<longleftrightarrow> rg_ctrl regs = CORTEX_FORGE_REG_UNVERIFIED"

definition cortex_forge_tegra234_dla_regs :: cortex_forge_regs where
  "cortex_forge_tegra234_dla_regs = \<lparr>
     rg_ctrl = CORTEX_FORGE_REG_UNVERIFIED,
     rg_status = CORTEX_FORGE_REG_UNVERIFIED,
     rg_int_mask = CORTEX_FORGE_REG_UNVERIFIED,
     rg_int_status = CORTEX_FORGE_REG_UNVERIFIED,
     rg_task_addr = CORTEX_FORGE_REG_UNVERIFIED,
     rg_task_size = CORTEX_FORGE_REG_UNVERIFIED,
     rg_fw_status = CORTEX_FORGE_REG_UNVERIFIED,
     rg_perf_cnt = CORTEX_FORGE_REG_UNVERIFIED\<rparr>"

definition cortex_forge_tegra234_pva_regs :: cortex_forge_regs where
  "cortex_forge_tegra234_pva_regs = \<lparr>
     rg_ctrl = CORTEX_FORGE_REG_UNVERIFIED,
     rg_status = CORTEX_FORGE_REG_UNVERIFIED,
     rg_int_mask = CORTEX_FORGE_REG_UNVERIFIED,
     rg_int_status = CORTEX_FORGE_REG_UNVERIFIED,
     rg_task_addr = CORTEX_FORGE_REG_UNVERIFIED,
     rg_task_size = CORTEX_FORGE_REG_UNVERIFIED,
     rg_fw_status = CORTEX_FORGE_REG_UNVERIFIED,
     rg_perf_cnt = CORTEX_FORGE_REG_UNVERIFIED\<rparr>"

record regmap_config =
  rm_reg_bits :: nat
  rm_val_bits :: nat
  rm_reg_stride :: nat
  rm_max_register :: u32
  rm_cache_flat :: bool

definition cortex_forge_regmap_cfg :: regmap_config where
  "cortex_forge_regmap_cfg = \<lparr>rm_reg_bits = 32, rm_val_bits = 32, rm_reg_stride = 4,
     rm_max_register = 0x1000, rm_cache_flat = True\<rparr>"

section \<open>Operations and SoC data\<close>

text \<open>
  A table of operations; a null entry is \<open>None\<close>. \<open>'d\<close> is the device, \<open>'c\<close> the configuration,
  a structure the sources declare but never define.
\<close>

record ('d, 'c) cortex_forge_hw_ops =
  op_init :: "('d \<Rightarrow> int \<times> 'd) option"
  op_deinit :: "('d \<Rightarrow> 'd) option"
  op_irq_ack :: "('d \<Rightarrow> u32 \<times> 'd) option"
  op_configure :: "('d \<Rightarrow> 'c \<Rightarrow> int \<times> 'd) option"
  op_submit_task :: "('d \<Rightarrow> u32 \<Rightarrow> u64 \<Rightarrow> u32 \<Rightarrow> u64 \<Rightarrow> u32 \<Rightarrow> int \<times> 'd) option"
  op_poll_task :: "('d \<Rightarrow> u32 \<Rightarrow> u32 \<Rightarrow> int \<times> u32 \<times> 'd) option"
  op_quirk_fixup :: "('d \<Rightarrow> int \<times> 'd) option"

record ('d, 'c) cortex_forge_soc_data =
  soc_name :: string
  soc_ops :: "('d, 'c) cortex_forge_hw_ops option"
  soc_regmap_cfg :: regmap_config
  soc_num_dla :: nat
  soc_num_pva :: nat
  soc_clk_names :: "string option list"
  soc_quirks :: u32

definition CORTEX_FORGE_QUIRK_NONE :: u32 where "CORTEX_FORGE_QUIRK_NONE = 0"
definition CORTEX_FORGE_QUIRK_DLA1_SLOW :: u32 where "CORTEX_FORGE_QUIRK_DLA1_SLOW = push_bit 0 1"
definition CORTEX_FORGE_QUIRK_PVA_ERRATA :: u32 where "CORTEX_FORGE_QUIRK_PVA_ERRATA = push_bit 1 1"

definition cortex_forge_tegra234_init :: "'d \<Rightarrow> int \<times> 'd" where
  "cortex_forge_tegra234_init dev = (0, dev)"

definition cortex_forge_tegra234_deinit :: "'d \<Rightarrow> 'd" where
  "cortex_forge_tegra234_deinit dev = dev"

definition cortex_forge_tegra234_irq_ack :: "'d \<Rightarrow> u32 \<times> 'd" where
  "cortex_forge_tegra234_irq_ack dev = (0, dev)"

definition cortex_forge_tegra234_configure :: "'d \<Rightarrow> 'c \<Rightarrow> int \<times> 'd" where
  "cortex_forge_tegra234_configure dev cfg = (0, dev)"

definition cortex_forge_tegra234_submit_task :: "'d \<Rightarrow> u32 \<Rightarrow> u64 \<Rightarrow> u32 \<Rightarrow> u64 \<Rightarrow> u32 \<Rightarrow> int \<times> 'd" where
  "cortex_forge_tegra234_submit_task dev task_id input_addr input_size output_addr output_size = (0, dev)"

text \<open>The third argument is what \<open>*status\<close> held before; the second result what it holds after.\<close>

definition cortex_forge_tegra234_poll_task :: "'d \<Rightarrow> u32 \<Rightarrow> u32 \<Rightarrow> int \<times> u32 \<times> 'd" where
  "cortex_forge_tegra234_poll_task dev task_id status = (0, CORTEX_FORGE_TASK_COMPLETE, dev)"

definition cortex_forge_tegra234_ops :: "('d, 'c) cortex_forge_hw_ops" where
  "cortex_forge_tegra234_ops = \<lparr>
     op_init = Some cortex_forge_tegra234_init,
     op_deinit = Some cortex_forge_tegra234_deinit,
     op_irq_ack = Some cortex_forge_tegra234_irq_ack,
     op_configure = Some cortex_forge_tegra234_configure,
     op_submit_task = Some cortex_forge_tegra234_submit_task,
     op_poll_task = Some cortex_forge_tegra234_poll_task,
     op_quirk_fixup = None\<rparr>"

definition cortex_forge_tegra234_clocks :: "string option list" where
  "cortex_forge_tegra234_clocks =
     [Some ''dla0_core'', Some ''dla0_falcon'', Some ''dla1_core'', Some ''dla1_falcon'',
      Some ''pva0_core'', Some ''pva0_falcon'', None]"

definition cortex_forge_tegra234_data :: "('d, 'c) cortex_forge_soc_data" where
  "cortex_forge_tegra234_data = \<lparr>
     soc_name = ''Tegra234 (Jetson AGX Orin)'',
     soc_ops = Some cortex_forge_tegra234_ops,
     soc_regmap_cfg = cortex_forge_regmap_cfg,
     soc_num_dla = 2,
     soc_num_pva = 1,
     soc_clk_names = cortex_forge_tegra234_clocks,
     soc_quirks = CORTEX_FORGE_QUIRK_NONE\<rparr>"

text \<open>The match table: compatible string and data; the sentinel ends the list.\<close>

definition cortex_forge_of_match :: "(string \<times> ('d, 'c) cortex_forge_soc_data) list" where
  "cortex_forge_of_match = [(''nvidia,tegra234-cortex-forge'', cortex_forge_tegra234_data)]"

definition cortex_forge_get_soc_data ::
    "((string \<times> ('d, 'c) cortex_forge_soc_data) list \<Rightarrow> 'n \<Rightarrow> (string \<times> ('d, 'c) cortex_forge_soc_data) option) \<Rightarrow>
     'n option \<Rightarrow> ('d, 'c) cortex_forge_soc_data option" where
  "cortex_forge_get_soc_data of_match_node of_node =
     (case of_node of
        None \<Rightarrow> None
      | Some node \<Rightarrow>
          (case of_match_node cortex_forge_of_match node of
             None \<Rightarrow> None
           | Some match \<Rightarrow> Some (snd match)))"

section \<open>Interrupts\<close>

text \<open>The members of the device that the interrupt and debugfs code refers to.\<close>

record irq_dev =
  pending_events :: u32
  dla_count :: nat
  pva_count :: nat

datatype irqreturn = IRQ_NONE | IRQ_HANDLED | IRQ_WAKE_THREAD

definition cortex_forge_hardirq :: "(irq_dev, 'c) cortex_forge_soc_data \<Rightarrow> irq_dev \<Rightarrow> irqreturn \<times> irq_dev" where
  "cortex_forge_hardirq soc dev =
     (case soc_ops soc of
        None \<Rightarrow> (IRQ_NONE, dev)
      | Some ops \<Rightarrow>
          (case op_irq_ack ops of
             None \<Rightarrow> (IRQ_NONE, dev)
           | Some irq_ack \<Rightarrow>
               let (events, dev1) = irq_ack dev in
               if events = 0 then (IRQ_NONE, dev1)
               else (IRQ_WAKE_THREAD, dev1\<lparr>pending_events := events\<rparr>)))"

definition cortex_forge_threaded_irq :: "irq_dev \<Rightarrow> irqreturn \<times> irq_dev" where
  "cortex_forge_threaded_irq dev = (let events = pending_events dev in (IRQ_HANDLED, dev))"

text \<open>\<open>request irq\<close> is what \<open>devm_request_threaded_irq\<close> returns for that line.\<close>

definition cortex_forge_irq_init :: "(int \<Rightarrow> int) \<Rightarrow> cortex_forge_dev \<Rightarrow> int" where
  "cortex_forge_irq_init request dev = (let ret = request (dev_irq dev) in ret)"

section \<open>sysfs\<close>

definition newline :: string where "newline = [CHR 0x0A]"

definition sysfs_emit :: "string \<Rightarrow> int \<times> string" where
  "sysfs_emit s = (int (length s), s)"

definition dla0_freq_show :: "int \<times> string" where "dla0_freq_show = sysfs_emit (''0'' @ newline)"
definition dla0_temp_show :: "int \<times> string" where "dla0_temp_show = sysfs_emit (''0'' @ newline)"
definition dla0_load_show :: "int \<times> string" where "dla0_load_show = sysfs_emit (''0'' @ newline)"
definition dla1_freq_show :: "int \<times> string" where "dla1_freq_show = sysfs_emit (''0'' @ newline)"
definition dla1_temp_show :: "int \<times> string" where "dla1_temp_show = sysfs_emit (''0'' @ newline)"
definition dla1_load_show :: "int \<times> string" where "dla1_load_show = sysfs_emit (''0'' @ newline)"
definition pva0_freq_show :: "int \<times> string" where "pva0_freq_show = sysfs_emit (''0'' @ newline)"
definition pva0_temp_show :: "int \<times> string" where "pva0_temp_show = sysfs_emit (''0'' @ newline)"
definition pva0_load_show :: "int \<times> string" where "pva0_load_show = sysfs_emit (''0'' @ newline)"

text \<open>The version string is a macro that this file does not define: a parameter.\<close>

definition version_show :: "string \<Rightarrow> int \<times> string" where
  "version_show drv_version = sysfs_emit (drv_version @ newline)"

definition cortex_forge_attrs :: "string \<Rightarrow> (string \<times> (int \<times> string)) list" where
  "cortex_forge_attrs drv_version =
     [(''dla0_freq'', dla0_freq_show), (''dla0_temp'', dla0_temp_show), (''dla0_load'', dla0_load_show),
      (''dla1_freq'', dla1_freq_show), (''dla1_temp'', dla1_temp_show), (''dla1_load'', dla1_load_show),
      (''pva0_freq'', pva0_freq_show), (''pva0_temp'', pva0_temp_show), (''pva0_load'', pva0_load_show),
      (''version'', version_show drv_version)]"

section \<open>debugfs\<close>

text \<open>Decimal output, as \<open>%u\<close> prints it.\<close>

fun dec_string :: "nat \<Rightarrow> string" where
  "dec_string n = (if n < 10 then [char_of (48 + n)] else dec_string (n div 10) @ [char_of (48 + n mod 10)])"

declare dec_string.simps [simp del]

definition cortex_forge_regs_show :: "('d, 'c) cortex_forge_soc_data \<Rightarrow> irq_dev \<Rightarrow> int \<times> string" where
  "cortex_forge_regs_show soc dev =
     (0, ''Cortex Forge Register Dump ('' @ soc_name soc @ '')'' @ newline @
         ''  Register offsets are unverified (TODO(HW))'' @ newline @
         ''  DLA instances: '' @ dec_string (dla_count dev) @ newline @
         ''  PVA instances: '' @ dec_string (pva_count dev) @ newline)"

text \<open>
  \<open>single_open\<close> is the kernel's: it makes a file whose contents the given function writes. The tables
  name the kernel's own operations for reading and releasing such a file.
\<close>

datatype seq_op = Seq_Read | Single_Release

record ('d, 'f) seq_fops =
  sf_open :: "'d \<Rightarrow> int \<times> 'f"
  sf_read :: seq_op
  sf_release :: seq_op

definition cortex_forge_regs_open :: "((irq_dev \<Rightarrow> int \<times> string) \<Rightarrow> irq_dev \<Rightarrow> int \<times> 'f) \<Rightarrow>
    ('d, 'c) cortex_forge_soc_data \<Rightarrow> irq_dev \<Rightarrow> int \<times> 'f" where
  "cortex_forge_regs_open single_open soc i_private = single_open (cortex_forge_regs_show soc) i_private"

definition cortex_forge_regs_fops :: "((irq_dev \<Rightarrow> int \<times> string) \<Rightarrow> irq_dev \<Rightarrow> int \<times> 'f) \<Rightarrow>
    ('d, 'c) cortex_forge_soc_data \<Rightarrow> (irq_dev, 'f) seq_fops" where
  "cortex_forge_regs_fops single_open soc =
     \<lparr>sf_open = cortex_forge_regs_open single_open soc, sf_read = Seq_Read, sf_release = Single_Release\<rparr>"

definition cortex_forge_fault_probe_fail_set :: "u64 \<Rightarrow> int" where
  "cortex_forge_fault_probe_fail_set val = 0"

text \<open>The attribute has no function to read it, only the one above to write it.\<close>

definition cortex_forge_fault_probe_fail_fops :: "(unit \<Rightarrow> u64) option \<times> (u64 \<Rightarrow> int) option \<times> string" where
  "cortex_forge_fault_probe_fail_fops = (None, Some cortex_forge_fault_probe_fail_set, ''%llu'' @ newline)"

text \<open>
  The debugfs tree is the list of the paths in it. \<open>mkdir\<close> is what \<open>debugfs_create_dir\<close> returns
  for the driver's directory and \<open>fault_inject\<close> the build option.
\<close>

definition cortex_forge_debugfs_init :: "kptr \<Rightarrow> bool \<Rightarrow> string list list \<Rightarrow> int \<times> string list list" where
  "cortex_forge_debugfs_init mkdir fault_inject fs =
     (if IS_ERR mkdir then (PTR_ERR mkdir, fs)
      else
        let fs1 = fs @ [[''cortex-forge'']];
            fs2 = fs1 @ [[''cortex-forge'', ''registers'']];
            fs3 = (if fault_inject
                   then fs2 @ [[''cortex-forge'', ''fault''], [''cortex-forge'', ''fault'', ''probe_fail'']]
                   else fs2)
        in (0, fs3))"

definition cortex_forge_debugfs_cleanup :: "string list list \<Rightarrow> string list list" where
  "cortex_forge_debugfs_cleanup fs =
     (if [''cortex-forge''] \<in> set fs then filter (\<lambda>p. p = [] \<or> hd p \<noteq> ''cortex-forge'') fs else fs)"

section \<open>read, write and poll\<close>

definition cortex_forge_read :: "filp \<Rightarrow> 'm \<Rightarrow> u64 \<Rightarrow> nat \<Rightarrow> int \<Rightarrow> int \<times> 'm \<times> int" where
  "cortex_forge_read filp m buf count f_pos = (0, m, f_pos)"

definition cortex_forge_write :: "filp \<Rightarrow> 'm \<Rightarrow> u64 \<Rightarrow> nat \<Rightarrow> int \<Rightarrow> int \<times> int" where
  "cortex_forge_write filp m buf count f_pos = (0, f_pos)"

definition cortex_forge_poll :: "filp \<Rightarrow> u32" where
  "cortex_forge_poll filp = 0"

section \<open>Lemmas\<close>

lemma debugfs_cleanup_init:
  assumes "\<forall>p \<in> set fs. p \<noteq> [] \<and> hd p \<noteq> ''cortex-forge''" and "cortex_forge_debugfs_init mkdir fi fs = (ret, fs')"
  shows "cortex_forge_debugfs_cleanup fs' = fs"
proof -
  have "filter (\<lambda>p. p = [] \<or> hd p \<noteq> ''cortex-forge'') fs = fs"
    by (rule filter_True) (use assms(1) in blast)
  then show ?thesis
    using assms by (auto simp: cortex_forge_debugfs_init_def cortex_forge_debugfs_cleanup_def Let_def split: if_splits)
qed

lemma sysfs_attrs_zero:
  "(nm, r) \<in> set (cortex_forge_attrs v) \<Longrightarrow> nm \<noteq> ''version'' \<Longrightarrow> r = (2, ''0'' @ newline)"
  by (auto simp: cortex_forge_attrs_def sysfs_emit_def newline_def dla0_freq_show_def dla0_temp_show_def
      dla0_load_show_def dla1_freq_show_def dla1_temp_show_def dla1_load_show_def pva0_freq_show_def
      pva0_temp_show_def pva0_load_show_def)

text \<open>
  What the documentation of \<open>of_match_node\<close> says: it finds an entry of the table whose
  compatible string the node lists, if there is one. \<open>compats\<close> gives a node's strings.
\<close>

definition of_match_contract :: "('n \<Rightarrow> string set) \<Rightarrow> ((string \<times> 'a) list \<Rightarrow> 'n \<Rightarrow> (string \<times> 'a) option) \<Rightarrow> bool" where
  "of_match_contract compats f \<longleftrightarrow>
     (\<forall>table node. case f table node of
        Some e \<Rightarrow> e \<in> set table \<and> fst e \<in> compats node
      | None \<Rightarrow> \<forall>e \<in> set table. fst e \<notin> compats node)"

definition regmap_accepts :: "regmap_config \<Rightarrow> u32 \<Rightarrow> bool" where
  "regmap_accepts cfg reg \<longleftrightarrow> reg \<le> rm_max_register cfg \<and> unat reg mod rm_reg_stride cfg = 0"

definition reg_offsets :: "cortex_forge_regs \<Rightarrow> u32 list" where
  "reg_offsets r = [rg_ctrl r, rg_status r, rg_int_mask r, rg_int_status r, rg_task_addr r, rg_task_size r,
     rg_fw_status r, rg_perf_cnt r]"

section \<open>Properties\<close>

text \<open>The platform lookup finds data exactly for nodes that carry the driver's compatible string,
  and the data it finds fits the core driver: as many accelerators as it drives, two clocks for
  each and a terminated list of them. But no register of either block is usable: every offset is the
  placeholder, which the map's own configuration rejects, and neither block passes for verified.\<close>

lemma soc_data_lookup:
  assumes "of_match_contract compats of_match"
  shows "(cortex_forge_get_soc_data of_match node = None \<longleftrightarrow>
      (case node of None \<Rightarrow> True | Some n \<Rightarrow> ''nvidia,tegra234-cortex-forge'' \<notin> compats n)) \<and>
    (\<forall>soc. cortex_forge_get_soc_data of_match node = Some soc \<longrightarrow>
      soc_num_dla soc + soc_num_pva soc = NUM_ACCELERATORS \<and>
      length (soc_clk_names soc) = 2 * NUM_ACCELERATORS + 1 \<and> last (soc_clk_names soc) = None \<and>
      (\<forall>off \<in> set (reg_offsets cortex_forge_tegra234_dla_regs @ reg_offsets cortex_forge_tegra234_pva_regs).
         \<not> regmap_accepts (soc_regmap_cfg soc) off) \<and>
      cortex_forge_regs_unverified cortex_forge_tegra234_dla_regs \<and>
      cortex_forge_regs_unverified cortex_forge_tegra234_pva_regs)"
proof (cases node)
  case None
  then show ?thesis by (simp add: cortex_forge_get_soc_data_def)
next
  case (Some n)
  have bad: "\<not> regmap_accepts cortex_forge_regmap_cfg CORTEX_FORGE_REG_UNVERIFIED"
    by (simp add: regmap_accepts_def cortex_forge_regmap_cfg_def CORTEX_FORGE_REG_UNVERIFIED_def)
  note m = assms [unfolded of_match_contract_def, THEN spec, THEN spec, of cortex_forge_of_match n]
  show ?thesis
  proof (cases "of_match cortex_forge_of_match n")
    case None
    with m Some show ?thesis by (simp add: cortex_forge_get_soc_data_def cortex_forge_of_match_def)
  next
    case e: (Some e)
    with m have "e = (''nvidia,tegra234-cortex-forge'', cortex_forge_tegra234_data)"
      "''nvidia,tegra234-cortex-forge'' \<in> compats n"
      by (auto simp: cortex_forge_of_match_def)
    with Some e bad show ?thesis
      by (simp add: cortex_forge_get_soc_data_def cortex_forge_tegra234_data_def NUM_ACCELERATORS_def
          cortex_forge_tegra234_clocks_def reg_offsets_def cortex_forge_tegra234_dla_regs_def
          cortex_forge_tegra234_pva_regs_def cortex_forge_regs_unverified_def)
  qed
qed

text \<open>A matching function that meets the contract: the first entry whose string the node lists.\<close>

definition first_match :: "(string \<times> 'a) list \<Rightarrow> string list \<Rightarrow> (string \<times> 'a) option" where
  "first_match table node = find (\<lambda>e. fst e \<in> set node) table"

lemma first_match_contract: "of_match_contract set first_match"
  unfolding of_match_contract_def first_match_def
  by (auto simp: find_None_iff find_Some_iff split: option.splits) (metis fst_conv)

text \<open>A controller whose acknowledge operation reports the events \<open>ev\<close>, and a burst of interrupts.\<close>

definition soc_reporting :: "u32 \<Rightarrow> (irq_dev, unit) cortex_forge_soc_data" where
  "soc_reporting ev = cortex_forge_tegra234_data\<lparr>soc_ops :=
     Some (cortex_forge_tegra234_ops\<lparr>op_irq_ack := Some (\<lambda>dev. (ev, dev))\<rparr>)\<rparr>"

fun irq_burst :: "u32 list \<Rightarrow> irq_dev \<Rightarrow> irqreturn list \<times> irq_dev" where
  "irq_burst [] dev = ([], dev)"
| "irq_burst (ev # evs) dev =
     (let (r, dev1) = cortex_forge_hardirq (soc_reporting ev) dev; (rs, dev2) = irq_burst evs dev1
      in (r # rs, dev2))"

lemma hardirq_reporting:
  "cortex_forge_hardirq (soc_reporting ev) dev =
     (if ev = 0 then (IRQ_NONE, dev) else (IRQ_WAKE_THREAD, dev\<lparr>pending_events := ev\<rparr>))"
  by (simp add: cortex_forge_hardirq_def soc_reporting_def)

text \<open>Over a burst of interrupts before the thread gets to run, the hard handler wakes the thread for
  exactly those that carried events, and what it leaves for the thread is the mask of the last of
  them alone: the masks of the earlier ones are overwritten, not accumulated. The thread leaves
  the device as it is. On Tegra234, whose acknowledge operation is a stub, every interrupt is
  disowned and nothing changes.\<close>

lemma interrupt_burst:
  "irq_burst evs dev = (map (\<lambda>ev. if ev = 0 then IRQ_NONE else IRQ_WAKE_THREAD) evs,
     dev\<lparr>pending_events := last (pending_events dev # filter (\<lambda>ev. ev \<noteq> 0) evs)\<rparr>) \<and>
   cortex_forge_threaded_irq dev = (IRQ_HANDLED, dev) \<and>
   cortex_forge_hardirq (cortex_forge_tegra234_data :: (irq_dev, unit) cortex_forge_soc_data) dev = (IRQ_NONE, dev)"
proof (intro conjI)
  show "irq_burst evs dev = (map (\<lambda>ev. if ev = 0 then IRQ_NONE else IRQ_WAKE_THREAD) evs,
     dev\<lparr>pending_events := last (pending_events dev # filter (\<lambda>ev. ev \<noteq> 0) evs)\<rparr>)"
    by (induction evs arbitrary: dev) (simp_all add: hardirq_reporting)
qed (simp_all add: cortex_forge_threaded_irq_def cortex_forge_hardirq_def cortex_forge_tegra234_data_def
    cortex_forge_tegra234_ops_def cortex_forge_tegra234_irq_ack_def)

end
