(* ===== verification/Spec2Isabelle.thy ===== *)
theory Spec2Isabelle
  imports Time_Stamps Stress_Test Module_System Platform_Forge
begin

text \<open>
  \<^bold>\<open>Verification of the Cortex Forge driver\<close>

  The repository holds a Linux driver for the NVDLA and PVA accelerators of Jetson AGX Orin. A
  process opens the character device and submits tasks with an ioctl; the driver takes a slot
  from a pool of 256, gives it an identifier and puts it on the queue of one of three
  accelerators; a kernel thread per accelerator takes tasks from its queue, waits for the
  task's timeout (hardware execution is simulated by sleeping) and marks the task complete. Other
  ioctls query and cancel a task by identifier and report on the accelerators. Probe and remove
  set all this up and tear it down. A user-space library wraps the ioctls.

  \<^bold>\<open>Theories and the code they model\<close>

  \<^item> \<open>Forge_Prelude\<close>: machine integers, errno values, kernel pointers, the kernel's linked lists as
    sequences of slot numbers, little-endian encoding, C strings; no code of the repository.
  \<^item> \<open>Uapi\<close>: \<^verbatim>\<open>include/cortex_forge_uapi.h\<close>. Layout of the four structures under the LP64 ABI (\<open>sizeof\<close>,
    \<open>offsetof\<close> computed from the member list), command numbers, and the byte images by which a
    structure lies in user memory, implicit padding included (the C code copies structures whole).
  \<^item> \<open>User_Memory\<close>: \<open>copy_from_user\<close> and \<open>copy_to_user\<close> as parameters, and one instance.
  \<^item> \<open>Forge_Dev\<close>: the structures of \<^verbatim>\<open>include/cortex_forge_task.h\<close>, \<^verbatim>\<open>_accel.h\<close>, \<^verbatim>\<open>_dev.h\<close> as records.
  \<^item> \<open>Task_Manager\<close>: \<^verbatim>\<open>src/task_manager.c\<close>, a definition per function.
  \<^item> \<open>Accel_Manager\<close>: \<^verbatim>\<open>src/accel_manager.c\<close>. The worker thread is a step function over program
    points, one step per access to shared memory, so that it can be interleaved.
  \<^item> \<open>Chardev\<close>: \<^verbatim>\<open>src/chardev.c\<close>. A definition per ioctl command and the dispatch; \<open>dev_inv\<close> is the
    invariant of the device.
  \<^item> \<open>Module_Main\<close>: \<^verbatim>\<open>src/main.c\<close>. Probe with every error path, remove, module init and exit. Kernel
    services answer from an environment record; acquisitions and releases are a list of calls
    that \<open>replay\<close> runs against the set of held resources.
  \<^item> \<open>Ioctl_Spec\<close>: the abstract specification of the ioctls and their properties.
  \<^item> \<open>Transition_Systems\<close>, \<open>Worker_System\<close>, \<open>Concurrency\<close>: reachability, invariants and simulation in
    general; the interleaving of any number of ioctl threads, three workers and the thread that
    stops them; and its properties.
  \<^item> \<open>Static_State\<close>, \<open>Shutdown\<close>: what no thread of the running driver changes, and what remove achieves
    against running workers and system calls.
  \<^item> \<open>Task_Progress\<close>, \<open>Time_Stamps\<close>: what becomes of a queued task under every interleaving, and what a
    query can say about its time.
  \<^item> \<open>Forge_Main\<close>: \<^verbatim>\<open>src/cortex_forge_main.c\<close>, the older driver in one file (definitions prefixed
    \<open>cfm_\<close>), and its comparison with the modular one.
  \<^item> \<open>Module_System\<close>: the tables both drivers hand to the kernel, and a system of any number of
    devices with their running workers and of open files over them, with the global pointer \<open>g_dev\<close>.
  \<^item> \<open>Lib_Forge\<close>: \<^verbatim>\<open>lib/src/libcortex-forge.c\<close> and its header.
  \<^item> \<open>Test_Suite\<close>: \<^verbatim>\<open>test/cortex-forge_test.c\<close>, the program that tests the driver through the library.
  \<^item> \<open>Stress_Test\<close>: \<^verbatim>\<open>test/cortex-forge_stress.c\<close>, four threads with a handle each and a barrier.
  \<^item> \<open>Platform_Forge\<close>: \<^verbatim>\<open>include/cortex_forge_regs.h\<close>, \<^verbatim>\<open>include/cortex_forge_platform.h\<close>,
    \<^verbatim>\<open>src/cortex_forge_platform.c\<close>, \<^verbatim>\<open>_irq.c\<close>, \<^verbatim>\<open>_sysfs.c\<close>, \<^verbatim>\<open>_debugfs.c\<close> and \<^verbatim>\<open>_chardev.c\<close>.

  \<^bold>\<open>How state and operations correspond\<close>

  A \<open>struct\<close> is a record with the same members, less locks, wait queues and the pointers the
  model does not follow; \<open>u32\<close> and \<open>u64\<close> are words and wrap. A task is named by its slot number, and
  a list that threads tasks through \<open>entry\<close> is a list of slot numbers. A function that changes the
  device takes it and returns it with the C result; an error is the negative errno. In the
  sequential theories a critical section, and a whole system call, is one operation. In
  \<open>Worker_System\<close> a step is one critical section or one access to memory that other threads
  use. Time (\<open>jiffies\<close>), \<open>HZ\<close>, \<open>msecs_to_jiffies\<close>, memory allocation, threads, device
  registration, \<open>of_match_node\<close>, the system calls under the library and the C library are
  parameters.

  \<^bold>\<open>Interfaces\<close>

  \<^item> \<open>fifo_list\<close>: what the pool and the queues rely on in a kernel list (interpreted as \<open>klist\<close>).
  \<^item> \<open>wire_format\<close>: encoder and decoder of a structure (\<open>desc_wire\<close>, \<open>status_wire\<close>, \<open>info_wire\<close>,
    \<open>profile_wire\<close>, \<open>u32_wire\<close>).
  \<^item> \<open>user_access\<close>: what handlers rely on in the copy functions (\<open>flat\<close>).
  \<^item> \<open>slot_allocator\<close>: what a burst of allocations gives, interpreted on the allocators of both drivers
    (\<open>pool\<close>, \<open>cfm_pool\<close>).
  \<^item> \<open>invariant_system\<close> and \<open>forward_simulation\<close>, the second giving the first: the running driver
    against the life cycle of a slot (\<open>life\<close>), the description of the accelerators (\<open>described\<close>), the
    free slots (\<open>zeroed_slots\<close>), the stopping thread (\<open>shut\<close>), workers that run until the device is
    removed (\<open>live\<close>) and the time stamps (\<open>stamped\<close>).
  \<^item> \<open>char_driver\<close>: what the system of devices and files relies on in a driver's tables, which makes it
    an \<open>invariant_system\<close>; interpreted on the tables of both drivers (\<open>module\<close>, \<open>cfm_module\<close>).
  \<^item> \<open>forge_driver\<close>: what the library relies on in an ioctl handler, interpreted on both drivers
    (\<open>modular\<close>, \<open>monolith\<close>).
  \<^item> \<open>test_client\<close>: what the test program relies on in its process, on top of \<open>forge_driver\<close>; interpreted
    on a process with a flat memory over either driver (\<open>suite\<close>, \<open>suite_monolith\<close>).
  \<^item> \<open>stress_clients\<close>: each thread of the stress program is such a client, with a descriptor of its own
    (\<open>stress\<close>, \<open>stress_monolith\<close>).

  \<^bold>\<open>What the theorems show\<close>

  \<^item> The ioctls (\<open>Ioctl_Spec\<close>): submit and cancel refine a table of tickets with queues of
    identifiers; every command keeps \<open>dev_inv\<close>; unknown commands are refused; the effect of a
    submission on every branch, failures included; 256 submissions, numbered consecutively, and no
    more over the life of a device; a query finds what a submission returned and reports a status
    one above the documented code; what each reply contains, byte for byte.
  \<^item> Life of the module (\<open>Module_Main\<close>): whatever the kernel answers, probe leaks and misuses nothing,
    establishes the invariant, and is undone by remove; so for module init and exit.
  \<^item> Concurrency: slots follow their life cycle in every interleaving and are never freed; list
    operations stay within their contract; which states a task can be in at each point of its
    life; load; identifiers;
    what cancellation writes, and three interleavings in which it goes wrong; first come, first
    served; a worker told to stop stops within 13 steps; a worker left alone serves its queue.
  \<^item> The running driver at rest and at its end (\<open>Static_State\<close>, \<open>Shutdown\<close>): what the information query
    reports at any moment; free slots are zero; the stopping thread, step by step, does what the
    sequential \<open>accel_stop_workers\<close> does; remove terminates under every fair schedule and
    then every worker has returned for good; it does not wait for system calls in progress.
  \<^item> Progress (\<open>Task_Progress\<close>, \<open>Time_Stamps\<close>): on every fair run a queued task ends complete or
    cancelled, and signalled, whatever the other threads do; the time a query reports, with its
    wrap-around, and what it reports for a task that is not finished.
  \<^item> Devices and files (\<open>Module_System\<close>): an open file refers to a live device with the invariant as
    long as no device is unbound under it, while the workers run; that condition is needed.
  \<^item> The one-file driver (\<open>Forge_Main\<close>): same allocator contract, same ioctls, same worker; its probe
    misuses \<open>kthread_stop\<close> when a thread cannot be started.
  \<^item> The library (\<open>Lib_Forge\<close>): three of its calls are refused by either driver because its
    structures lack the reserved members, and in nothing else; the others reach the abstract
    specification; handles are balanced; every result has a text. The test program (\<open>Test_Suite\<close>)
    therefore passes 6 of its 16 tests on either driver, whatever the schedule of its threads, and
    the stress program (\<open>Stress_Test\<close>) ends without having touched the device, unless some but not all
    of its threads could open it: then it waits at its barrier for ever.
  \<^item> The platform (\<open>Platform_Forge\<close>): what the lookup finds, that no register offset is usable, and
    what the interrupt handler keeps of a burst of interrupts.

  \<^bold>\<open>Bounds and fuel\<close>

  Loops over the pool, the accelerators and a queue are structural recursions or have a measure.
  The worker's timeout loop may run as long as the clock stands still; as a step function it
  needs no fuel, and where it is a function (\<open>cfm_spin\<close>) fuel above the timeout in jiffies is
  proved enough. The hypothesis on the clock there and for a worker left alone is \<open>sleeps_advance\<close>, what
  \<open>msleep(1)\<close> documents: from one test of a timeout loop to the next, with an \<open>msleep(1)\<close> in between,
  the time since the start of the loop grows. It asks nothing of steps that do not sleep. Liveness
  among other threads is stated over infinite runs (\<open>fair_run\<close>): the worker moves again and again,
  and the clock is past each timeout the worker waits for during two of its moves, one of which is
  the test; it may wrap around later, as in the run of the example.

  \<^bold>\<open>Not modelled\<close>

  Log messages and module metadata; \<open>wait_event\<close> and \<open>wake_up\<close> as a
  mechanism (a worker's wait may end at any step, as with its timeout); memory ordering weaker
  than interleaving; the order of the C library's \<open>errno\<close> across threads; the edge-case tests, which
  are C++ for a framework the repository does not hold and are built by no target.
\<close>

end
